(* ===== verification/Prelude.thy ===== *)
theory Prelude
  imports Main
begin

text \<open>
  What every theory of the development shares: results of fallible code as sums (\<open>Inl\<close> the
  error, \<open>Inr\<close> the value, as Rust's \<open>Err\<close> and \<open>Ok\<close>), the \<open>?\<close> operator as \<open>bindE\<close>, the
  short-circuiting \<open>collect::<Result<Vec<_>,_>>()\<close> as \<open>mapME\<close>, and generic facts on lists and
  maps that the component theories use.
\<close>

named_theorems handler_simps \<open>unfolding rules for request handlers\<close>

section \<open>Fallible computations\<close>

definition bindE :: "'e + 'a \<Rightarrow> ('a \<Rightarrow> 'e + 'b) \<Rightarrow> 'e + 'b" where
  "bindE m f = (case m of Inl e \<Rightarrow> Inl e | Inr x \<Rightarrow> f x)"

definition guardE :: "bool \<Rightarrow> 'e \<Rightarrow> 'e + unit" where
  "guardE b e = (if b then Inr () else Inl e)"

definition of_option :: "'e \<Rightarrow> 'a option \<Rightarrow> 'e + 'a" where
  "of_option e x = (case x of None \<Rightarrow> Inl e | Some v \<Rightarrow> Inr v)"

definition is_ok :: "'e + 'a \<Rightarrow> bool" where
  "is_ok r = (case r of Inl _ \<Rightarrow> False | Inr _ \<Rightarrow> True)"

lemma is_ok_iff: "is_ok r \<longleftrightarrow> (\<exists>y. r = Inr y)"
  by (cases r) (simp_all add: is_ok_def)

lemma bindE_Inl [simp]: "bindE (Inl e) f = Inl e"
  by (simp add: bindE_def)

lemma bindE_Inr [simp]: "bindE (Inr x) f = f x"
  by (simp add: bindE_def)

lemma bindE_eq_Inr [simp]: "bindE m f = Inr y \<longleftrightarrow> (\<exists>x. m = Inr x \<and> f x = Inr y)"
  by (cases m) auto

lemma bindE_eq_Inl: "bindE m f = Inl e \<longleftrightarrow> m = Inl e \<or> (\<exists>x. m = Inr x \<and> f x = Inl e)"
  by (cases m) auto

lemma guardE_True [simp]: "guardE True e = Inr ()"
  by (simp add: guardE_def)

lemma guardE_False [simp]: "guardE False e = Inl e"
  by (simp add: guardE_def)

lemma guardE_eq_Inr [simp]: "guardE b e = Inr u \<longleftrightarrow> b"
  by (simp add: guardE_def)

lemma of_option_simps [simp]:
  "of_option e None = Inl e" "of_option e (Some v) = Inr v"
  by (simp_all add: of_option_def)

lemma of_option_eq_Inr [simp]: "of_option e x = Inr v \<longleftrightarrow> x = Some v"
  by (cases x) simp_all

lemma case_option_Inr:
  "(case x of None \<Rightarrow> Inl e | Some v \<Rightarrow> f v) = Inr y \<longleftrightarrow> (\<exists>v. x = Some v \<and> f v = Inr y)"
  by (cases x) simp_all

lemma if_Inl_eq_Inr [simp]:
  "(if c then Inl e else r) = Inr y \<longleftrightarrow> \<not> c \<and> r = Inr y"
  "(if c then r else Inl e) = Inr y \<longleftrightarrow> c \<and> r = Inr y"
  by simp_all

lemma is_ok_Inr [simp]: "is_ok (Inr x)"
  by (simp add: is_ok_def)

lemma is_ok_Inl [simp]: "\<not> is_ok (Inl e)"
  by (simp add: is_ok_def)

lemma is_ok_bindE: "is_ok (bindE m f) \<longleftrightarrow> is_ok m \<and> (\<forall>x. m = Inr x \<longrightarrow> is_ok (f x))"
  by (cases m) simp_all

lemma is_ok_of_option [simp]: "is_ok (of_option e x) \<longleftrightarrow> x \<noteq> None"
  by (cases x) simp_all

lemma is_ok_guardE [simp]: "is_ok (guardE b e) \<longleftrightarrow> b"
  by (simp add: guardE_def)

lemma bindE_assoc: "bindE (bindE m f) g = bindE m (\<lambda>x. bindE (f x) g)"
  by (cases m) simp_all

fun mapME :: "('a \<Rightarrow> 'e + 'b) \<Rightarrow> 'a list \<Rightarrow> 'e + 'b list" where
  "mapME f [] = Inr []"
| "mapME f (x # xs) = bindE (f x) (\<lambda>y. bindE (mapME f xs) (\<lambda>ys. Inr (y # ys)))"

lemma mapME_length: "mapME f xs = Inr ys \<Longrightarrow> length ys = length xs"
  by (induction xs arbitrary: ys) auto

lemma mapME_nth:
  "mapME f xs = Inr ys \<Longrightarrow> i < length xs \<Longrightarrow> f (xs ! i) = Inr (ys ! i)"
  by (induction xs arbitrary: ys i) (auto simp: nth_Cons split: nat.splits)

lemma mapME_all:
  "mapME f xs = Inr ys \<Longrightarrow> (\<And>x y. f x = Inr y \<Longrightarrow> P y) \<Longrightarrow> \<forall>y\<in>set ys. P y"
  by (induction xs arbitrary: ys) auto

lemma mapME_total: "(\<And>x. x \<in> set xs \<Longrightarrow> is_ok (f x)) \<Longrightarrow> is_ok (mapME f xs)"
  by (induction xs) (auto simp: is_ok_bindE)

section \<open>Fallible stateful actions\<close>

text \<open>
  An action returns a result and its next state; the state a failing action leaves is kept, as
  \<open>?\<close> keeps what was done before the early return.
\<close>

type_synonym ('s, 'e, 'a) act = "'s \<Rightarrow> ('e + 'a) \<times> 's"

definition okA :: "'a \<Rightarrow> ('s, 'e, 'a) act" where
  "okA x = (\<lambda>s. (Inr x, s))"

definition errA :: "'e \<Rightarrow> ('s, 'e, 'a) act" where
  "errA e = (\<lambda>s. (Inl e, s))"

definition seqA :: "('s, 'e, 'a) act \<Rightarrow> ('a \<Rightarrow> ('s, 'e, 'b) act) \<Rightarrow> ('s, 'e, 'b) act" where
  "seqA m f = (\<lambda>s. case m s of (Inl e, s') \<Rightarrow> (Inl e, s') | (Inr x, s') \<Rightarrow> f x s')"

definition liftE :: "'e + 'a \<Rightarrow> ('s, 'e, 'a) act" where
  "liftE r = (\<lambda>s. (r, s))"

definition seqR :: "('s \<Rightarrow> 'a \<times> 's) \<Rightarrow> ('a \<Rightarrow> 's \<Rightarrow> 'b \<times> 's) \<Rightarrow> 's \<Rightarrow> 'b \<times> 's" where
  "seqR m f s = (case m s of (x, s') \<Rightarrow> f x s')"

definition keeps :: "('s \<Rightarrow> bool) \<Rightarrow> ('s \<Rightarrow> 'r \<times> 's) \<Rightarrow> bool" where
  "keeps I m \<longleftrightarrow> (\<forall>s. I s \<longrightarrow> I (snd (m s)))"

lemma okA_apply [simp]: "okA x s = (Inr x, s)"
  by (simp add: okA_def)

lemma errA_apply [simp]: "errA e s = (Inl e, s)"
  by (simp add: errA_def)

lemma liftE_apply [simp]: "liftE r s = (r, s)"
  by (simp add: liftE_def)

lemma seqA_Inr_iff:
  "seqA m f s = (Inr y, s'') \<longleftrightarrow> (\<exists>x s'. m s = (Inr x, s') \<and> f x s' = (Inr y, s''))"
  by (auto simp: seqA_def split: prod.splits sum.splits)

lemma seqA_cases:
  assumes "seqA m f s = (r, s')"
  obtains (early) e where "m s = (Inl e, s')" "r = Inl e"
  | (on) x s1 where "m s = (Inr x, s1)" "f x s1 = (r, s')"
  using assms by (auto simp: seqA_def split: prod.splits sum.splits)

lemma seqA_step [simp]:
  "m s = (Inr x, s') \<Longrightarrow> seqA m f s = f x s'" "m s = (Inl e, s') \<Longrightarrow> seqA m f s = (Inl e, s')"
  by (simp_all add: seqA_def)

lemma keeps_seqA [intro]:
  assumes m: "keeps I m" and f: "\<And>x. keeps I (f x)"
  shows "keeps I (seqA m f)"
  unfolding keeps_def
proof (intro allI impI)
  fix s assume s: "I s"
  obtain r s' where ms: "m s = (r, s')" by fastforce
  with m s have "I s'" by (metis keeps_def snd_conv)
  with f ms show "I (snd (seqA m f s))" by (cases r) (auto simp: keeps_def)
qed

lemma keeps_okA [intro, simp]: "keeps I (okA x)"
  by (simp add: keeps_def)

lemma keeps_errA [intro, simp]: "keeps I (errA e)"
  by (simp add: keeps_def)

lemma keeps_liftE [intro, simp]: "keeps I (liftE r)"
  by (simp add: keeps_def)

lemma keeps_seqR [intro]: "keeps I m \<Longrightarrow> (\<And>x. keeps I (f x)) \<Longrightarrow> keeps I (seqR m f)"
  by (auto simp: keeps_def seqR_def split: prod.splits)

lemma keeps_seqA_where:
  assumes m: "keeps I m" and q: "\<And>s x s'. I s \<Longrightarrow> m s = (Inr x, s') \<Longrightarrow> Q x s'"
    and f: "\<And>x s. I s \<Longrightarrow> Q x s \<Longrightarrow> I (snd (f x s))"
  shows "keeps I (seqA m f)"
  unfolding keeps_def
proof (intro allI impI)
  fix s assume s: "I s"
  obtain r s' where ms: "m s = (r, s')" by fastforce
  with m s have "I s'" by (metis keeps_def snd_conv)
  with q [OF s] f ms show "I (snd (seqA m f s))" by (cases r) auto
qed

lemma keeps_seq_liftE: "(\<And>x. r = Inr x \<Longrightarrow> keeps I (f x)) \<Longrightarrow> keeps I (seqA (liftE r) f)"
  by (cases r) (simp_all add: keeps_def)

lemma keeps_if [intro]: "keeps I a \<Longrightarrow> keeps I b \<Longrightarrow> keeps I (if c then a else b)"
  by simp

lemma keeps_Pair [intro, simp]: "keeps I (Pair x)"
  by (simp add: keeps_def)

lemma keepsD: "keeps I m \<Longrightarrow> I s \<Longrightarrow> m s = (r, s') \<Longrightarrow> I s'"
  by (metis keeps_def snd_conv)

section \<open>Lists and maps\<close>

fun pos_of :: "('a \<Rightarrow> bool) \<Rightarrow> 'a list \<Rightarrow> nat option" where
  "pos_of P [] = None"
| "pos_of P (x # xs) = (if P x then Some 0 else map_option Suc (pos_of P xs))"

lemma pos_of_Some:
  "pos_of P xs = Some i \<Longrightarrow> i < length xs \<and> P (xs ! i) \<and> (\<forall>j<i. \<not> P (xs ! j))"
proof (induction xs arbitrary: i)
  case Nil
  then show ?case by simp
next
  case (Cons x xs)
  show ?case
  proof (cases "P x")
    case True
    with Cons.prems show ?thesis by simp
  next
    case False
    with Cons.prems obtain i' where i': "pos_of P xs = Some i'" "i = Suc i'" by auto
    with Cons.IH [OF i'(1)] False show ?thesis by (auto simp: nth_Cons split: nat.splits)
  qed
qed

lemma pos_of_None: "pos_of P xs = None \<longleftrightarrow> (\<forall>x\<in>set xs. \<not> P x)"
  by (induction xs) auto

lemma distinct_filter_eq:
  "distinct (map f xs) \<Longrightarrow> x \<in> set xs \<Longrightarrow> filter (\<lambda>y. f y = f x) xs = [x]"
  by (induction xs) (auto simp: filter_empty_conv image_iff)

lemma find_distinct_key:
  "distinct (map f xs) \<Longrightarrow> x \<in> set xs \<Longrightarrow> find (\<lambda>y. f y = f x) xs = Some x"
  by (induction xs) (auto simp: image_iff)

lemma find_SomeD: "find P xs = Some x \<Longrightarrow> x \<in> set xs \<and> P x"
  by (induction xs) (auto split: if_splits)

lemma length_filter_mono:
  "(\<And>x. x \<in> set xs \<Longrightarrow> P x \<Longrightarrow> Q x) \<Longrightarrow> length (filter P xs) \<le> length (filter Q xs)"
  by (induction xs) auto

lemma enumerate_snd: "ix \<in> set (List.enumerate n xs) \<Longrightarrow> snd ix \<in> set xs"
  by (cases ix) (auto simp: enumerate_eq_zip dest: set_zip_rightD)

lemma set_take_subset_iff: "x \<in> set (take n xs) \<Longrightarrow> x \<in> set xs"
  by (meson in_set_takeD)

end
