(* ===== verification/Rust_Text.thy ===== *)
theory Rust_Text
  imports Prelude
begin

text \<open>
  Rust's \<open>String\<close> and \<open>&str\<close>: a HOL \<open>string\<close> holds the UTF-8 bytes, so \<open>length\<close> is \<open>len()\<close>.
  A Rust \<open>char\<close> is represented by its UTF-8 encoding (a leading byte and its continuation
  bytes), and \<open>chars\<close> cuts a string into them. The section models the standard library's
  string functions the sources call: \<open>trim\<close>, \<open>starts_with\<close>, \<open>find\<close>, \<open>split\<close>,
  \<open>trim_end_matches\<close>, decimal printing and \<open>parse::<i64>\<close>.
\<close>

type_synonym rchar = string

section \<open>UTF-8 structure\<close>

definition is_cont :: "char \<Rightarrow> bool" where
  "is_cont c \<longleftrightarrow> 128 \<le> (of_char c :: nat) \<and> (of_char c :: nat) < 192"

function chars :: "string \<Rightarrow> rchar list" where
  "chars [] = []"
| "chars (b # bs) = (b # takeWhile is_cont bs) # chars (dropWhile is_cont bs)"
  by pat_completeness auto
termination
  by (relation "measure length") (auto simp: le_imp_less_Suc length_dropWhile_le)

lemma concat_chars [simp]: "concat (chars s) = s"
  by (induction s rule: chars.induct) auto

lemma chars_nonempty: "c \<in> set (chars s) \<Longrightarrow> c \<noteq> []"
  by (induction s rule: chars.induct) auto

text \<open>\<open>str::is_char_boundary\<close>; slicing at any other offset panics.\<close>

definition is_char_boundary :: "string \<Rightarrow> nat \<Rightarrow> bool" where
  "is_char_boundary s i \<longleftrightarrow> i = 0 \<or> i = length s \<or> (i < length s \<and> \<not> is_cont (s ! i))"

section \<open>Panics\<close>

text \<open>
  The operations of the sources that may panic: slicing a string off a character boundary or out of range, draining
  more of a vector than it has, and arithmetic that overflows in a build with overflow checks.
\<close>

datatype panic = BadSlice | BadDrain | Overflow

text \<open>\<open>Vec::drain(..n)\<close>, what it leaves.\<close>

definition drain_front :: "nat \<Rightarrow> 'a list \<Rightarrow> panic + 'a list" where
  "drain_front n xs = (if n \<le> length xs then Inr (drop n xs) else Inl BadDrain)"

section \<open>White space\<close>

text \<open>The code points of Unicode's \<open>White_Space\<close> property, by their UTF-8 encodings.\<close>

definition is_whitespace :: "rchar \<Rightarrow> bool" where
  "is_whitespace c \<longleftrightarrow> (let v = map (of_char :: char \<Rightarrow> nat) c in
     (\<exists>b\<in>{9..13}. v = [b]) \<or> v = [32] \<or> v = [194, 133] \<or> v = [194, 160]
     \<or> v = [225, 154, 128] \<or> (\<exists>b\<in>{128..138}. v = [226, 128, b])
     \<or> v = [226, 128, 168] \<or> v = [226, 128, 169] \<or> v = [226, 128, 175]
     \<or> v = [226, 129, 159] \<or> v = [227, 128, 128])"

definition trim :: "string \<Rightarrow> string" where
  "trim s = concat (rev (dropWhile is_whitespace (rev (dropWhile is_whitespace (chars s)))))"

definition blank :: "string \<Rightarrow> bool" where
  "blank s \<longleftrightarrow> trim s = []"

lemma dropWhile_last_kept:
  "xs \<noteq> [] \<Longrightarrow> \<not> P (last xs) \<Longrightarrow> dropWhile P (rev xs) = rev xs"
  by (cases xs rule: rev_cases) auto

lemma blank_iff: "blank s \<longleftrightarrow> (\<forall>c\<in>set (chars s). is_whitespace c)"
proof -
  let ?d = "dropWhile is_whitespace (chars s)"
  have "trim s = [] \<longleftrightarrow> dropWhile is_whitespace (rev ?d) = []"
  proof -
    have "\<forall>c\<in>set (rev (dropWhile is_whitespace (rev ?d))). c \<noteq> []"
      using chars_nonempty by (metis set_dropWhileD set_rev)
    then show ?thesis by (auto simp: trim_def)
  qed
  also have "\<dots> \<longleftrightarrow> (\<forall>c\<in>set ?d. is_whitespace c)" by simp
  also have "\<dots> \<longleftrightarrow> (\<forall>c\<in>set (chars s). is_whitespace c)"
    by (metis (no_types, opaque_lifting) dropWhile_eq_Nil_conv hd_dropWhile
        list.set_sel(1) set_dropWhileD)
  finally show ?thesis by (simp add: blank_def)
qed

section \<open>Searching and cutting\<close>

definition starts_with :: "string \<Rightarrow> string \<Rightarrow> bool" where
  "starts_with s p \<longleftrightarrow> take (length p) s = p"

lemma starts_with_append [simp]: "starts_with (p @ t) p"
  by (simp add: starts_with_def)

lemma starts_with_iff: "starts_with s p \<longleftrightarrow> (\<exists>t. s = p @ t)"
  unfolding starts_with_def by (metis append_eq_conv_conj)

fun find_sub :: "string \<Rightarrow> string \<Rightarrow> nat option" where
  "find_sub s p = (if starts_with s p then Some 0
     else case s of [] \<Rightarrow> None | _ # t \<Rightarrow> map_option Suc (find_sub t p))"

declare find_sub.simps [simp del]

definition contains_sub :: "string \<Rightarrow> string \<Rightarrow> bool" where
  "contains_sub s p \<longleftrightarrow> find_sub s p \<noteq> None"

lemma find_sub_Some:
  "find_sub s p = Some i \<Longrightarrow> i + length p \<le> length s \<and> take (length p) (drop i s) = p"
proof (induction s arbitrary: i)
  case Nil
  then show ?case by (simp add: find_sub.simps [of "[]"] starts_with_def split: if_splits)
next
  case (Cons a s)
  show ?case
  proof (cases "starts_with (a # s) p")
    case True
    with Cons.prems have "i = 0" by (simp add: find_sub.simps [of "a # s"])
    moreover have "length p \<le> length (a # s)"
      using True by (metis length_take min.absorb_iff1 starts_with_def min.commute)
    ultimately show ?thesis using True by (simp add: starts_with_def)
  next
    case False
    with Cons.prems obtain j where j: "find_sub s p = Some j" "i = Suc j"
      by (auto simp: find_sub.simps [of "a # s"])
    with Cons.IH [OF j(1)] show ?thesis by simp
  qed
qed

lemma find_sub_first:
  "find_sub s p = Some i \<Longrightarrow> j < i \<Longrightarrow> take (length p) (drop j s) \<noteq> p"
proof (induction s arbitrary: i j)
  case Nil
  then show ?case by (simp add: find_sub.simps [of "[]"] split: if_splits)
next
  case (Cons a s)
  show ?case
  proof (cases "starts_with (a # s) p")
    case True
    with Cons.prems show ?thesis by (simp add: find_sub.simps [of "a # s"])
  next
    case False
    with Cons.prems obtain i' where i': "find_sub s p = Some i'" "i = Suc i'"
      by (auto simp: find_sub.simps [of "a # s"])
    show ?thesis
    proof (cases j)
      case 0
      with False show ?thesis by (simp add: starts_with_def)
    next
      case (Suc j')
      with Cons.IH [OF i'(1)] i'(2) Cons.prems(2) show ?thesis by simp
    qed
  qed
qed

lemma find_sub_None:
  "find_sub s p = None \<Longrightarrow> take (length p) (drop j s) \<noteq> p"
proof (induction s arbitrary: j)
  case Nil
  then show ?case by (auto simp: find_sub.simps [of "[]"] starts_with_def split: if_splits)
next
  case (Cons a s)
  then have ns: "\<not> starts_with (a # s) p" and n: "find_sub s p = None"
    by (auto simp: find_sub.simps [of "a # s"] split: if_splits)
  then show ?case using Cons.IH [OF n] by (cases j) (auto simp: starts_with_def)
qed

text \<open>\<open>split(sep)\<close> for a one-byte separator, \<open>split_once\<close>, \<open>trim_end_matches\<close>.\<close>

fun split_on :: "char \<Rightarrow> string \<Rightarrow> string list" where
  "split_on c [] = [[]]"
| "split_on c (x # xs) =
     (if x = c then [] # split_on c xs
      else case split_on c xs of [] \<Rightarrow> [[x]] | w # ws \<Rightarrow> (x # w) # ws)"

definition split_once :: "char \<Rightarrow> string \<Rightarrow> (string \<times> string) option" where
  "split_once c s = (if c \<in> set s
     then Some (takeWhile (\<lambda>x. x \<noteq> c) s, tl (dropWhile (\<lambda>x. x \<noteq> c) s)) else None)"

definition trim_end_matches :: "char \<Rightarrow> string \<Rightarrow> string" where
  "trim_end_matches c s = rev (dropWhile (\<lambda>x. x = c) (rev s))"

lemma split_on_nonempty: "split_on c s \<noteq> []"
  by (induction s) (auto split: list.split)

lemma split_on_append: "split_on c (s @ c # t) = split_on c s @ split_on c t"
  by (induction s) (auto simp: split_on_nonempty split: list.split)

lemma split_on_one: "c \<notin> set s \<Longrightarrow> split_on c s = [s]"
  by (induction s) auto

lemma split_once_append: "c \<notin> set a \<Longrightarrow> split_once c (a @ c # b) = Some (a, b)"
  by (simp add: split_once_def takeWhile_append dropWhile_append2)

lemma trim_end_matches_last:
  "trim_end_matches c s = [] \<or> last (trim_end_matches c s) \<noteq> c"
  unfolding trim_end_matches_def
  by (metis (mono_tags, lifting) hd_dropWhile last_rev rev_is_Nil_conv)

lemma trim_end_matches_idem:
  "trim_end_matches c (trim_end_matches c s) = trim_end_matches c s"
  by (simp add: trim_end_matches_def dropWhile_idem)

text \<open>\<open>find('c')\<close> and \<open>rfind('c')\<close> for a one-byte character.\<close>

definition find_char :: "char \<Rightarrow> string \<Rightarrow> nat option" where
  "find_char c s = pos_of (\<lambda>x. x = c) s"

definition rfind_char :: "char \<Rightarrow> string \<Rightarrow> nat option" where
  "rfind_char c s = map_option (\<lambda>i. length s - 1 - i) (pos_of (\<lambda>x. x = c) (rev s))"

lemma rfind_char_Some:
  assumes "rfind_char c s = Some i"
  shows "i < length s \<and> s ! i = c \<and> (\<forall>j. i < j \<and> j < length s \<longrightarrow> s ! j \<noteq> c)"
proof -
  from assms obtain k where k: "pos_of (\<lambda>x. x = c) (rev s) = Some k" and i: "i = length s - 1 - k"
    by (auto simp: rfind_char_def)
  from pos_of_Some [OF k] have kl: "k < length s" and kc: "rev s ! k = c"
    and lt: "\<forall>j<k. rev s ! j \<noteq> c" by auto
  have "s ! i = c" using kc kl i by (simp add: rev_nth)
  moreover have "s ! j \<noteq> c" if "i < j" "j < length s" for j
  proof -
    have "length s - 1 - j < k" using that i kl by simp
    with lt have "rev s ! (length s - 1 - j) \<noteq> c" by blast
    with that show ?thesis by (simp add: rev_nth)
  qed
  ultimately show ?thesis using i kl by auto
qed

text \<open>\<open>split_whitespace\<close>: the non-empty runs between white space.\<close>

function words_ws :: "rchar list \<Rightarrow> string list" where
  "words_ws cs =
     (case dropWhile is_whitespace cs of [] \<Rightarrow> []
      | c # cs' \<Rightarrow> concat (c # takeWhile (\<lambda>x. \<not> is_whitespace x) cs')
                    # words_ws (dropWhile (\<lambda>x. \<not> is_whitespace x) cs'))"
  by auto
termination
proof (relation "measure length")
  fix cs c cs'
  assume "dropWhile is_whitespace cs = c # cs'"
  then have "length (c # cs') \<le> length cs" by (metis length_dropWhile_le)
  moreover have "length (dropWhile (\<lambda>x. \<not> is_whitespace x) cs') \<le> length cs'"
    by (rule length_dropWhile_le)
  ultimately show "(dropWhile (\<lambda>x. \<not> is_whitespace x) cs', cs) \<in> measure length" by simp
qed simp

declare words_ws.simps [simp del]

definition split_whitespace :: "string \<Rightarrow> string list" where
  "split_whitespace s = words_ws (chars s)"

text \<open>\<open>replace\<close> of a one-byte character.\<close>

definition replace_char :: "char \<Rightarrow> string \<Rightarrow> string \<Rightarrow> string" where
  "replace_char c r s = concat (map (\<lambda>x. if x = c then r else [x]) s)"

fun join_with :: "string \<Rightarrow> string list \<Rightarrow> string" where
  "join_with sep [] = []"
| "join_with sep [w] = w"
| "join_with sep (w # v # ws) = w @ sep @ join_with sep (v # ws)"

section \<open>Decimal numbers\<close>

definition digit_char :: "nat \<Rightarrow> char" where
  "digit_char d = char_of (48 + d)"

definition digit_val :: "char \<Rightarrow> nat option" where
  "digit_val c = (let n = of_char c in if 48 \<le> n \<and> n \<le> 57 then Some (n - 48) else None)"

fun show_nat :: "nat \<Rightarrow> string" where
  "show_nat n = (if n < 10 then [digit_char n] else show_nat (n div 10) @ [digit_char (n mod 10)])"

declare show_nat.simps [simp del]

definition show_int :: "int \<Rightarrow> string" where
  "show_int i = (if i < 0 then CHR ''-'' # show_nat (nat (- i)) else show_nat (nat i))"

fun parse_digits :: "nat \<Rightarrow> string \<Rightarrow> nat option" where
  "parse_digits acc [] = Some acc"
| "parse_digits acc (c # cs) =
     (case digit_val c of None \<Rightarrow> None | Some d \<Rightarrow> parse_digits (10 * acc + d) cs)"

definition i64_min :: int where "i64_min = - (2 ^ 63)"
definition i64_max :: int where "i64_max = 2 ^ 63 - 1"

text \<open>\<open>str::parse::<i64>()\<close>: an optional sign, at least one digit, a value in range.\<close>

definition parse_i64 :: "string \<Rightarrow> int option" where
  "parse_i64 s =
     (let (neg, ds) = (case s of [] \<Rightarrow> (False, [])
                        | c # cs \<Rightarrow> if c = CHR ''-'' then (True, cs)
                                    else if c = CHR ''+'' then (False, cs) else (False, s))
      in if ds = [] then None
         else case parse_digits 0 ds of None \<Rightarrow> None
              | Some n \<Rightarrow> (let v = (if neg then - int n else int n)
                          in if i64_min \<le> v \<and> v \<le> i64_max then Some v else None))"

lemma digit_val_digit_char [simp]: "d < 10 \<Longrightarrow> digit_val (digit_char d) = Some d"
  by (simp add: digit_val_def digit_char_def Let_def)

lemma parse_digits_append:
  "parse_digits a (xs @ ys) =
     (case parse_digits a xs of None \<Rightarrow> None | Some b \<Rightarrow> parse_digits b ys)"
  by (induction xs arbitrary: a) (auto split: option.splits)

lemma parse_show_nat: "parse_digits 0 (show_nat n) = Some n"
proof (induction n rule: show_nat.induct)
  case (1 n)
  show ?case
  proof (cases "n < 10")
    case True
    then show ?thesis by (simp add: show_nat.simps [of n])
  next
    case False
    with 1 show ?thesis by (simp add: show_nat.simps [of n] parse_digits_append)
  qed
qed

lemma show_nat_nonempty [simp]: "show_nat n \<noteq> []"
  by (subst show_nat.simps) simp

lemma set_show_nat: "set (show_nat n) \<subseteq> digit_char ` {..<10}"
proof (induction n rule: show_nat.induct)
  case (1 n)
  show ?case
  proof (cases "n < 10")
    case True
    then show ?thesis by (simp add: show_nat.simps [of n])
  next
    case False
    with 1 show ?thesis by (subst show_nat.simps) auto
  qed
qed

lemma of_char_digit_char: "d < 10 \<Longrightarrow> of_char (digit_char d) = 48 + d"
  by (simp add: digit_char_def)

lemma digit_char_not_sign:
  assumes "d < 10" and "c \<in> {CHR ''-'', CHR ''+'', CHR '':''}"
  shows "digit_char d \<noteq> c"
proof
  assume "digit_char d = c"
  then have "of_char c = 48 + d" using of_char_digit_char [OF assms(1)] by metis
  with assms show False by auto
qed

lemma show_nat_no_sign:
  assumes "c \<in> {CHR ''-'', CHR ''+'', CHR '':''}"
  shows "c \<notin> set (show_nat n)"
proof
  assume "c \<in> set (show_nat n)"
  with set_show_nat obtain d where "d < 10" "c = digit_char d" by blast
  with digit_char_not_sign [OF _ assms] show False by blast
qed

lemma parse_show_int:
  assumes "i64_min \<le> i" and "i \<le> i64_max"
  shows "parse_i64 (show_int i) = Some i"
proof (cases "i < 0")
  case True
  then have "show_int i = CHR ''-'' # show_nat (nat (- i))" by (simp add: show_int_def)
  with True assms show ?thesis by (simp add: parse_i64_def parse_show_nat)
next
  case False
  then have s: "show_int i = show_nat (nat i)" by (simp add: show_int_def)
  obtain c cs where cs: "show_nat (nat i) = c # cs" by (cases "show_nat (nat i)") auto
  have "c \<noteq> CHR ''-''" "c \<noteq> CHR ''+''"
    using show_nat_no_sign [of _ "nat i"] cs by auto
  with False assms s cs parse_show_nat [of "nat i"] show ?thesis by (simp add: parse_i64_def)
qed

lemma show_int_no_colon: "CHR '':'' \<notin> set (show_int i)"
  using show_nat_no_sign [of "CHR '':''"] by (auto simp: show_int_def)

end
