(* ===== verification/Json.thy ===== *)
theory Json
  imports Rust_Text
begin

text \<open>
  JSON values as \<open>serde_json::Value\<close> has them. An object is an association list; \<open>get\<close> is its
  lookup, so the order of the fields never matters to a reader. A number is an integer of the
  ranges \<open>serde_json\<close> keeps exactly (\<open>i64\<close> and \<open>u64\<close>) or a float, given by its bits (\<open>f64::to_bits\<close>).
\<close>

datatype json =
    JNull
  | JBool bool
  | JInt int
  | JFloat nat
  | JStr string
  | JArr "json list"
  | JObj "(string \<times> json) list"

type_synonym jobject = "(string \<times> json) list"

definition as_object :: "json \<Rightarrow> jobject option" where
  "as_object v = (case v of JObj m \<Rightarrow> Some m | _ \<Rightarrow> None)"

definition as_array :: "json \<Rightarrow> json list option" where
  "as_array v = (case v of JArr xs \<Rightarrow> Some xs | _ \<Rightarrow> None)"

definition as_str :: "json \<Rightarrow> string option" where
  "as_str v = (case v of JStr s \<Rightarrow> Some s | _ \<Rightarrow> None)"

definition as_i64 :: "json \<Rightarrow> int option" where
  "as_i64 v = (case v of JInt n \<Rightarrow> if i64_min \<le> n \<and> n \<le> i64_max then Some n else None | _ \<Rightarrow> None)"

definition obj_get :: "jobject \<Rightarrow> string \<Rightarrow> json option" where
  "obj_get m k = map_of m k"

text \<open>\<open>Value::get\<close> with a string key: \<open>None\<close> on anything but an object.\<close>

definition json_get :: "json \<Rightarrow> string \<Rightarrow> json option" where
  "json_get v k = (case v of JObj m \<Rightarrow> obj_get m k | _ \<Rightarrow> None)"

definition json_opt :: "('a \<Rightarrow> json) \<Rightarrow> 'a option \<Rightarrow> json" where
  "json_opt f x = (case x of None \<Rightarrow> JNull | Some v \<Rightarrow> f v)"

lemma as_object_Some [simp]: "as_object v = Some m \<longleftrightarrow> v = JObj m"
  by (auto simp: as_object_def split: json.splits)

lemma as_array_Some [simp]: "as_array v = Some xs \<longleftrightarrow> v = JArr xs"
  by (auto simp: as_array_def split: json.splits)

lemma as_str_Some [simp]: "as_str v = Some s \<longleftrightarrow> v = JStr s"
  by (auto simp: as_str_def split: json.splits)

lemma as_i64_Some: "as_i64 v = Some n \<longleftrightarrow> v = JInt n \<and> i64_min \<le> n \<and> n \<le> i64_max"
  by (auto simp: as_i64_def split: json.splits)

lemma as_str_simps [simp]: "as_str (JStr s) = Some s" "as_str JNull = None" "as_str (JInt n) = None"
  "as_str (JBool b) = None" "as_str (JArr xs) = None" "as_str (JObj m) = None"
  by (simp_all add: as_str_def)

lemma as_object_simps [simp]: "as_object (JObj m) = Some m" "as_object JNull = None"
  "as_object (JStr s) = None" "as_object (JInt n) = None" "as_object (JArr xs) = None"
  by (simp_all add: as_object_def)

lemma json_get_obj [simp]: "json_get (JObj m) k = obj_get m k"
  by (simp add: json_get_def)

lemma json_get_Some: "json_get v k = Some w \<longleftrightarrow> (\<exists>m. v = JObj m \<and> obj_get m k = Some w)"
  by (auto simp: json_get_def split: json.splits)

lemma obj_get_Nil [simp]: "obj_get [] k = None"
  by (simp add: obj_get_def)

lemma obj_get_Cons [simp]: "obj_get ((k', v) # m) k = (if k' = k then Some v else obj_get m k)"
  by (simp add: obj_get_def)

section \<open>Derived deserialisers\<close>

text \<open>
  What \<open>#[derive(Deserialize)]\<close> does on an object: a field may not occur twice, a required field
  must occur and decode, an \<open>Option\<close> field may be absent or \<open>null\<close>; other fields are ignored.
\<close>

definition de_req :: "(json \<Rightarrow> 'a option) \<Rightarrow> jobject \<Rightarrow> string \<Rightarrow> 'a option" where
  "de_req f m k = (case filter (\<lambda>kv. fst kv = k) m of [kv] \<Rightarrow> f (snd kv) | _ \<Rightarrow> None)"

definition de_opt :: "(json \<Rightarrow> 'a option) \<Rightarrow> jobject \<Rightarrow> string \<Rightarrow> 'a option option" where
  "de_opt f m k = (case filter (\<lambda>kv. fst kv = k) m of
       [] \<Rightarrow> Some None
     | [kv] \<Rightarrow> (if snd kv = JNull then Some None else map_option Some (f (snd kv)))
     | _ \<Rightarrow> None)"

fun seq_opt :: "'a option list \<Rightarrow> 'a list option" where
  "seq_opt [] = Some []"
| "seq_opt (None # xs) = None"
| "seq_opt (Some x # xs) = map_option ((#) x) (seq_opt xs)"

definition de_list :: "(json \<Rightarrow> 'a option) \<Rightarrow> json \<Rightarrow> 'a list option" where
  "de_list f v = (case v of JArr xs \<Rightarrow> seq_opt (map f xs) | _ \<Rightarrow> None)"

lemma seq_opt_Some: "seq_opt xs = Some ys \<longleftrightarrow> xs = map Some ys"
  by (induction xs arbitrary: ys rule: seq_opt.induct) auto

lemma de_list_strs: "de_list as_str (JArr (map JStr ss)) = Some ss"
  by (induction ss) (simp_all add: de_list_def)

end
