(* ===== verification/Vp_Request.thy ===== *)
theory Vp_Request
  imports Json "HOL-Library.Word"
begin

text \<open>
  \<open>vegapunk-memory-server/src/mcp/tools\<close>: the input schemas \<open>tools/list\<close> advertises (\<open>mod.rs\<close>,
  their description texts left out) and the builders that turn the arguments of a tool call into a
  request (\<open>handlers.rs\<close>). An argument error is a constructor with the owner and field it names;
  the request fields the builders never set are left out of the records.
\<close>

section \<open>The contract's constants\<close>

definition SEARCH_LIMIT_MIN :: int where "SEARCH_LIMIT_MIN = 1"
definition SEARCH_LIMIT_MAX :: int where "SEARCH_LIMIT_MAX = 100"
definition SEARCH_LIMIT_DEFAULT :: int where "SEARCH_LIMIT_DEFAULT = 10"
definition SEARCH_VALID_MODES :: "string list" where
  "SEARCH_VALID_MODES = [''local'', ''global'', ''hybrid'']"
definition SEARCH_MODE_DEFAULT :: string where "SEARCH_MODE_DEFAULT = ''hybrid''"
definition QUERY_NODES_LIMIT_MIN :: int where "QUERY_NODES_LIMIT_MIN = 1"
definition QUERY_NODES_LIMIT_MAX :: int where "QUERY_NODES_LIMIT_MAX = 1000"
definition QUERY_NODES_LIMIT_DEFAULT :: int where "QUERY_NODES_LIMIT_DEFAULT = 50"
definition QUERY_NODES_VALID_SORT_ORDERS :: "string list" where
  "QUERY_NODES_VALID_SORT_ORDERS = [''asc'', ''desc'']"
definition QUERY_NODES_SORT_ORDER_DEFAULT :: string where
  "QUERY_NODES_SORT_ORDER_DEFAULT = ''desc''"
definition ATTRIBUTE_FILTER_VALID_OPS :: "string list" where
  "ATTRIBUTE_FILTER_VALID_OPS = [''eq'', ''gt'', ''gte'', ''lt'', ''lte'']"
definition TRACEABLE_CHAIN_MAX_DEPTH_MIN :: int where "TRACEABLE_CHAIN_MAX_DEPTH_MIN = 1"
definition TRACEABLE_CHAIN_MAX_DEPTH_MAX :: int where "TRACEABLE_CHAIN_MAX_DEPTH_MAX = 10"
definition TRACEABLE_CHAIN_MAX_DEPTH_DEFAULT :: int where "TRACEABLE_CHAIN_MAX_DEPTH_DEFAULT = 5"
definition i32_max :: int where "i32_max = 2 ^ 31 - 1"

definition TOOL_NAMES :: "string list" where
  "TOOL_NAMES = [''search'', ''ingest'', ''ingest_raw'', ''query_nodes'', ''get_schema'', ''list_schemas'',
     ''stats'', ''get_traceable_chain'', ''feedback'', ''get_job_status'']"

lemmas contract_defs = SEARCH_LIMIT_MIN_def SEARCH_LIMIT_MAX_def SEARCH_LIMIT_DEFAULT_def
  SEARCH_VALID_MODES_def SEARCH_MODE_DEFAULT_def QUERY_NODES_LIMIT_MIN_def QUERY_NODES_LIMIT_MAX_def
  QUERY_NODES_LIMIT_DEFAULT_def QUERY_NODES_VALID_SORT_ORDERS_def QUERY_NODES_SORT_ORDER_DEFAULT_def
  ATTRIBUTE_FILTER_VALID_OPS_def TRACEABLE_CHAIN_MAX_DEPTH_MIN_def TRACEABLE_CHAIN_MAX_DEPTH_MAX_def
  TRACEABLE_CHAIN_MAX_DEPTH_DEFAULT_def i32_max_def

text \<open>The cast \<open>as i32\<close> of an \<open>i64\<close>: the low 32 bits, read as a signed number.\<close>

definition as_i32 :: "int \<Rightarrow> int" where
  "as_i32 n = sint (word_of_int n :: 32 word)"

text \<open>\<open>+\<close> on \<open>i32\<close>: it wraps around, unless the build checks overflows (a debug build does), when it panics.\<close>

definition add_i32 :: "bool \<Rightarrow> int \<Rightarrow> int \<Rightarrow> panic + int" where
  "add_i32 checks a b =
     (if checks \<and> \<not> (- (2 ^ 31) \<le> a + b \<and> a + b \<le> i32_max) then Inl Overflow else Inr (as_i32 (a + b)))"

lemma as_i32_id: "- (2 ^ 31) \<le> n \<Longrightarrow> n < 2 ^ 31 \<Longrightarrow> as_i32 n = n"
  unfolding as_i32_def by (subst sint_word_ariths(1) | simp add: signed_take_bit_int_eq_self sint_sbintrunc')+

section \<open>Reading fields\<close>

datatype arg_error =
    ArgsNotObject
  | MissingField string string
  | NotString string string
  | EmptyField string string
  | NotOneOf string string string
  | NotInteger string string
  | OutOfRange string string int
  | NotArray string string
  | EmptyArray string string
  | NotObject string
  | BadRating

definition require_object_args :: "json \<Rightarrow> arg_error + jobject" where
  "require_object_args args = of_option ArgsNotObject (as_object args)"

definition require_str_field :: "jobject \<Rightarrow> string \<Rightarrow> string \<Rightarrow> arg_error + string" where
  "require_str_field obj field owner =
     bindE (case obj_get obj field of
              None \<Rightarrow> Inl (MissingField owner field)
            | Some v \<Rightarrow> if v = JNull then Inl (MissingField owner field)
                        else of_option (NotString owner field) (as_str v))
       (\<lambda>raw. let trimmed = trim raw in
          if trimmed = [] then Inl (EmptyField owner field) else Inr trimmed)"

definition optional_str_field :: "jobject \<Rightarrow> string \<Rightarrow> string \<Rightarrow> arg_error + string option" where
  "optional_str_field obj field owner =
     (case obj_get obj field of
        None \<Rightarrow> Inr None
      | Some v \<Rightarrow> if v = JNull then Inr None
                  else (case as_str v of
                          Some s \<Rightarrow> (let trimmed = trim s in Inr (if trimmed = [] then None else Some trimmed))
                        | None \<Rightarrow> Inl (NotString owner field)))"

definition optional_bounded_i32 ::
  "jobject \<Rightarrow> string \<Rightarrow> int \<Rightarrow> int \<Rightarrow> int option \<Rightarrow> string \<Rightarrow> arg_error + int option" where
  "optional_bounded_i32 obj field mn mx dflt owner =
     (case obj_get obj field of
        None \<Rightarrow> Inr dflt
      | Some v \<Rightarrow> if v = JNull then Inr dflt
                  else bindE (of_option (NotInteger owner field) (as_i64 v)) (\<lambda>n.
                       if mn \<le> n \<and> n \<le> mx then Inr (Some (as_i32 n)) else Inl (OutOfRange owner field n)))"

text \<open>A string argument of an enumeration with a default.\<close>

definition enum_field :: "jobject \<Rightarrow> string \<Rightarrow> string list \<Rightarrow> string \<Rightarrow> string \<Rightarrow> arg_error + string" where
  "enum_field obj field valid dflt owner =
     bindE (case obj_get obj field of
              None \<Rightarrow> Inr dflt
            | Some v \<Rightarrow> if v = JNull then Inr dflt else of_option (NotString owner field) (as_str v))
       (\<lambda>raw. if raw \<in> set valid then Inr raw else Inl (NotOneOf owner field raw))"

section \<open>Requests\<close>

record search_request =
  sr_text :: string
  sr_top_k :: "int option"
  sr_mode :: "string option"
  sr_schema :: string

definition build_search_request :: "string \<Rightarrow> json \<Rightarrow> arg_error + search_request" where
  "build_search_request user_schema v =
     bindE (require_object_args v) (\<lambda>args.
     bindE (of_option (MissingField ''arguments'' ''query'')
             (Option.bind (map_option trim (Option.bind (obj_get args ''query'') as_str))
               (\<lambda>s. if s \<noteq> [] then Some s else None))) (\<lambda>txt.
     bindE (enum_field args ''mode'' SEARCH_VALID_MODES SEARCH_MODE_DEFAULT ''arguments'') (\<lambda>mode.
     bindE (optional_bounded_i32 args ''limit'' SEARCH_LIMIT_MIN SEARCH_LIMIT_MAX
              (Some SEARCH_LIMIT_DEFAULT) ''arguments'') (\<lambda>top_k.
     Inr \<lparr>sr_text = txt, sr_top_k = top_k, sr_mode = Some mode, sr_schema = user_schema\<rparr>))))"

record message_metadata =
  md_source_type :: string
  md_author :: string
  md_author_id :: "string option"
  md_channel :: string
  md_channel_id :: "string option"
  md_thread_id :: "string option"
  md_timestamp :: string

record ingest_message =
  im_id :: "string option"
  im_text :: string
  im_metadata :: message_metadata

record ingest_request =
  ir_messages :: "ingest_message list"
  ir_schema :: string

definition indexed :: "string \<Rightarrow> nat \<Rightarrow> string" where
  "indexed owner i = owner @ ''['' @ show_nat i @ '']''"

definition build_ingest_message :: "nat \<times> json \<Rightarrow> arg_error + ingest_message" where
  "build_ingest_message ii =
     (let owner = indexed ''messages'' (fst ii); meta_owner = owner @ ''.metadata'' in
      bindE (of_option (NotObject owner) (as_object (snd ii))) (\<lambda>m.
      bindE (optional_str_field m ''id'' owner) (\<lambda>i.
      bindE (require_str_field m ''text'' owner) (\<lambda>txt.
      bindE (of_option (MissingField owner ''metadata'') (obj_get m ''metadata'')) (\<lambda>mv.
      bindE (of_option (NotObject meta_owner) (as_object mv)) (\<lambda>md.
      bindE (require_str_field md ''source_type'' meta_owner) (\<lambda>source_type.
      bindE (require_str_field md ''author'' meta_owner) (\<lambda>author.
      bindE (optional_str_field md ''author_id'' meta_owner) (\<lambda>author_id.
      bindE (require_str_field md ''channel'' meta_owner) (\<lambda>channel.
      bindE (optional_str_field md ''channel_id'' meta_owner) (\<lambda>channel_id.
      bindE (optional_str_field md ''thread_id'' meta_owner) (\<lambda>thread_id.
      bindE (require_str_field md ''timestamp'' meta_owner) (\<lambda>timestamp.
      Inr \<lparr>im_id = i, im_text = txt, im_metadata = \<lparr>md_source_type = source_type, md_author = author,
            md_author_id = author_id, md_channel = channel, md_channel_id = channel_id,
            md_thread_id = thread_id, md_timestamp = timestamp\<rparr>\<rparr>)))))))))))))"

definition build_ingest_request :: "string \<Rightarrow> json \<Rightarrow> arg_error + ingest_request" where
  "build_ingest_request user_schema v =
     bindE (require_object_args v) (\<lambda>args.
     bindE (of_option (MissingField ''arguments'' ''messages'') (obj_get args ''messages'')) (\<lambda>mv.
     bindE (of_option (NotArray ''arguments'' ''messages'') (as_array mv)) (\<lambda>arr.
     bindE (guardE (arr \<noteq> []) (EmptyArray ''arguments'' ''messages'')) (\<lambda>_.
     bindE (mapME build_ingest_message (List.enumerate 0 arr)) (\<lambda>messages.
     Inr \<lparr>ir_messages = messages, ir_schema = user_schema\<rparr>)))))"

record ingest_raw_request =
  irr_text :: string
  irr_source_type :: string
  irr_author :: "string option"
  irr_channel :: "string option"
  irr_timestamp :: "string option"
  irr_schema :: string

definition build_ingest_raw_request :: "string \<Rightarrow> json \<Rightarrow> arg_error + ingest_raw_request" where
  "build_ingest_raw_request user_schema v =
     bindE (require_object_args v) (\<lambda>args.
     bindE (require_str_field args ''text'' ''arguments'') (\<lambda>txt.
     bindE (of_option (MissingField ''arguments'' ''metadata'') (obj_get args ''metadata'')) (\<lambda>mv.
     bindE (of_option (NotObject ''metadata'') (as_object mv)) (\<lambda>md.
     bindE (require_str_field md ''source_type'' ''metadata'') (\<lambda>source_type.
     bindE (optional_str_field md ''author'' ''metadata'') (\<lambda>author.
     bindE (optional_str_field md ''channel'' ''metadata'') (\<lambda>channel.
     bindE (optional_str_field md ''timestamp'' ''metadata'') (\<lambda>timestamp.
     Inr \<lparr>irr_text = txt, irr_source_type = source_type, irr_author = author, irr_channel = channel,
          irr_timestamp = timestamp, irr_schema = user_schema\<rparr>))))))))"

record attribute_filter =
  af_key :: string
  af_op :: string
  af_value :: string

definition build_attribute_filter :: "json \<Rightarrow> string \<Rightarrow> arg_error + attribute_filter" where
  "build_attribute_filter item owner =
     bindE (of_option (NotObject owner) (as_object item)) (\<lambda>m.
     bindE (require_str_field m ''key'' owner) (\<lambda>key.
     bindE (require_str_field m ''op'' owner) (\<lambda>op.
     bindE (guardE (op \<in> set ATTRIBUTE_FILTER_VALID_OPS) (NotOneOf owner ''op'' op)) (\<lambda>_.
     bindE (case obj_get m ''value'' of
              None \<Rightarrow> Inl (MissingField owner ''value'')
            | Some v \<Rightarrow> if v = JNull then Inl (MissingField owner ''value'')
                        else of_option (NotString owner ''value'') (as_str v)) (\<lambda>val.
     Inr \<lparr>af_key = key, af_op = op, af_value = val\<rparr>)))))"

definition build_attribute_filters_from :: "jobject \<Rightarrow> string \<Rightarrow> arg_error + attribute_filter list" where
  "build_attribute_filters_from obj owner =
     (case obj_get obj ''filters'' of
        None \<Rightarrow> Inr []
      | Some v \<Rightarrow> if v = JNull then Inr []
                  else bindE (of_option (NotArray owner ''filters'') (as_array v)) (\<lambda>arr.
                       mapME (\<lambda>(i, f). build_attribute_filter f (indexed (owner @ ''.filters'') i))
                         (List.enumerate 0 arr)))"

record query_nodes_request =
  qn_schema :: string
  qn_node_type :: string
  qn_filters :: "attribute_filter list"
  qn_sort_by :: "string option"
  qn_sort_order :: "string option"
  qn_limit :: "int option"
  qn_offset :: "int option"

definition build_query_nodes_request :: "string \<Rightarrow> json \<Rightarrow> arg_error + query_nodes_request" where
  "build_query_nodes_request user_schema v =
     bindE (require_object_args v) (\<lambda>args.
     bindE (require_str_field args ''node_type'' ''arguments'') (\<lambda>node_type.
     bindE (build_attribute_filters_from args ''arguments'') (\<lambda>filters.
     bindE (optional_str_field args ''sort_by'' ''arguments'') (\<lambda>sort_by.
     bindE (enum_field args ''sort_order'' QUERY_NODES_VALID_SORT_ORDERS QUERY_NODES_SORT_ORDER_DEFAULT
              ''arguments'') (\<lambda>sort_order.
     bindE (optional_bounded_i32 args ''limit'' QUERY_NODES_LIMIT_MIN QUERY_NODES_LIMIT_MAX
              (Some QUERY_NODES_LIMIT_DEFAULT) ''arguments'') (\<lambda>limit.
     bindE (optional_bounded_i32 args ''offset'' 0 i32_max (Some 0) ''arguments'') (\<lambda>offset.
     Inr \<lparr>qn_schema = user_schema, qn_node_type = node_type, qn_filters = filters, qn_sort_by = sort_by,
          qn_sort_order = Some sort_order, qn_limit = limit, qn_offset = offset\<rparr>)))))))"

record get_stats_request =
  gs_schema :: "string option"
  gs_node_type :: "string option"
  gs_filters :: "attribute_filter list"

definition build_get_stats_request :: "string \<Rightarrow> json \<Rightarrow> arg_error + get_stats_request" where
  "build_get_stats_request user_schema v =
     bindE (require_object_args v) (\<lambda>args.
     bindE (optional_str_field args ''node_type'' ''arguments'') (\<lambda>node_type.
     bindE (build_attribute_filters_from args ''arguments'') (\<lambda>filters.
     Inr \<lparr>gs_schema = Some user_schema, gs_node_type = node_type, gs_filters = filters\<rparr>)))"

record get_traceable_chain_request =
  tc_node_id :: string
  tc_schema :: "string option"
  tc_max_depth :: "int option"

definition build_get_traceable_chain_request ::
  "string \<Rightarrow> json \<Rightarrow> arg_error + get_traceable_chain_request" where
  "build_get_traceable_chain_request user_schema v =
     bindE (require_object_args v) (\<lambda>args.
     bindE (require_str_field args ''node_id'' ''arguments'') (\<lambda>node_id.
     bindE (optional_bounded_i32 args ''max_depth'' TRACEABLE_CHAIN_MAX_DEPTH_MIN
              TRACEABLE_CHAIN_MAX_DEPTH_MAX (Some TRACEABLE_CHAIN_MAX_DEPTH_DEFAULT) ''arguments'') (\<lambda>max_depth.
     Inr \<lparr>tc_node_id = node_id, tc_schema = Some user_schema, tc_max_depth = max_depth\<rparr>)))"

text \<open>The argument checks of \<open>feedback\<close> and \<open>get_job_status\<close>, which have no builder of their own.\<close>

record feedback_request =
  fb_search_id :: string
  fb_rating :: int
  fb_comment :: string

definition feedback_args :: "json \<Rightarrow> arg_error + feedback_request" where
  "feedback_args v =
     bindE (require_object_args v) (\<lambda>args.
     bindE (case Option.bind (obj_get args ''search_id'') as_str of
              Some s \<Rightarrow> if trim s \<noteq> [] then Inr (trim s) else Inl (MissingField ''arguments'' ''search_id'')
            | None \<Rightarrow> Inl (MissingField ''arguments'' ''search_id'')) (\<lambda>search_id.
     bindE (case Option.bind (obj_get args ''rating'') as_i64 of
              Some n \<Rightarrow> if 1 \<le> n \<and> n \<le> 5 then Inr (as_i32 n) else Inl BadRating
            | None \<Rightarrow> Inl BadRating) (\<lambda>rating.
     bindE (case obj_get args ''comment'' of
              None \<Rightarrow> Inr []
            | Some v \<Rightarrow> of_option (NotString ''arguments'' ''comment'') (as_str v)) (\<lambda>comment.
     Inr \<lparr>fb_search_id = search_id, fb_rating = rating, fb_comment = comment\<rparr>))))"

definition job_status_args :: "json \<Rightarrow> arg_error + string" where
  "job_status_args v =
     bindE (require_object_args v) (\<lambda>args.
     case Option.bind (obj_get args ''msg_id'') as_str of
       Some s \<Rightarrow> if trim s \<noteq> [] then Inr (trim s) else Inl (MissingField ''arguments'' ''msg_id'')
     | None \<Rightarrow> Inl (MissingField ''arguments'' ''msg_id''))"

end
