(* ===== verification/Vp_Types.thy ===== *)
theory Vp_Types
  imports Vp_Request
begin

text \<open>
  The messages of \<open>vegapunk-client/proto/graphrag.proto\<close> the handlers read, the gRPC status, and the
  JSON contents a tool call answers with (\<open>handlers.rs\<close>). A \<open>float\<close> is its 32-bit pattern;
  \<open>num\<close> is the JSON number \<open>serde_json\<close> makes of it and \<open>show\<close> is \<open>serde_json::to_string\<close>.
\<close>

section \<open>Status and responses\<close>

datatype grpc_code =
    CodeOk | Cancelled | Unknown | InvalidArgument | DeadlineExceeded | CodeNotFound | AlreadyExists
  | PermissionDenied | ResourceExhausted | FailedPrecondition | Aborted | CodeOutOfRange | Unimplemented
  | Internal | Unavailable | DataLoss | Unauthenticated

record status =
  st_code :: grpc_code
  st_message :: string

record search_item =
  si_type :: string
  si_id :: "string option"
  si_text :: "string option"
  si_score :: "32 word option"
  si_person :: "string option"
  si_timestamp :: "string option"
  si_summary :: "string option"
  si_channel :: "string option"
  si_decided_at :: "string option"
  si_rationales :: "string list"

record similar_pattern =
  sp_source_project :: string
  sp_nodes :: "search_item list"
  sp_similarity :: "32 word"

record search_response =
  sp_results :: "search_item list"
  sp_search_id :: string
  sp_total_count :: int
  sp_similar_patterns :: "similar_pattern list"

record node_result =
  nd_id :: string
  nd_type :: string
  nd_attributes :: "(string \<times> string) list"

record query_nodes_response =
  qr_nodes :: "node_result list"
  qr_total_count :: int

record schema_item =
  sm_name :: string
  sm_version :: int
  sm_description :: string
  sm_yaml :: string

record stats_response =
  sr_node_count :: int
  sr_edge_count :: int
  sr_vector_count :: int
  sr_community_count :: int

record chain_link =
  cl_node_id :: string
  cl_node_type :: string
  cl_display_text :: string
  cl_edge_type :: "string option"
  cl_depth :: int
  cl_timestamp :: "int option"

record job_item =
  ji_job_type :: string
  ji_status :: string
  ji_error :: "string option"

record job_status_response =
  jr_msg_id :: string
  jr_jobs :: "job_item list"
  jr_overall_status :: string

record job_info =
  jo_job_id :: string
  jo_status :: string
  jo_msg_id :: "string option"

record list_jobs_response =
  lj_jobs :: "job_info list"
  lj_total_count :: int

record ingest_response =
  ig_ingested_count :: int
  ig_job_id :: "string option"

record ingest_raw_response =
  iw_chunk_count :: int
  iw_msg_ids :: "string list"

section \<open>Tool contents\<close>

definition error_content :: "string \<Rightarrow> json" where
  "error_content body = JObj [(''content'', JArr [JObj [(''type'', JStr ''text''), (''text'', JStr body)]]),
     (''isError'', JBool True)]"

definition success_content :: "(json \<Rightarrow> string) \<Rightarrow> json \<Rightarrow> json" where
  "success_content show structured =
     JObj [(''content'', JArr [JObj [(''type'', JStr ''text''), (''text'', JStr (show structured))]]),
       (''structuredContent'', structured), (''isError'', JBool False)]"

definition message_is_client_safe :: "grpc_code \<Rightarrow> bool" where
  "message_is_client_safe c \<longleftrightarrow> c \<in> {Cancelled, InvalidArgument, DeadlineExceeded, CodeNotFound, AlreadyExists,
     PermissionDenied, ResourceExhausted, FailedPrecondition, Aborted, CodeOutOfRange, Unavailable, Unauthenticated}"

fun code_debug :: "grpc_code \<Rightarrow> string" where
  "code_debug CodeOk = ''Ok''"
| "code_debug Cancelled = ''Cancelled''"
| "code_debug Unknown = ''Unknown''"
| "code_debug InvalidArgument = ''InvalidArgument''"
| "code_debug DeadlineExceeded = ''DeadlineExceeded''"
| "code_debug CodeNotFound = ''NotFound''"
| "code_debug AlreadyExists = ''AlreadyExists''"
| "code_debug PermissionDenied = ''PermissionDenied''"
| "code_debug ResourceExhausted = ''ResourceExhausted''"
| "code_debug FailedPrecondition = ''FailedPrecondition''"
| "code_debug Aborted = ''Aborted''"
| "code_debug CodeOutOfRange = ''OutOfRange''"
| "code_debug Unimplemented = ''Unimplemented''"
| "code_debug Internal = ''Internal''"
| "code_debug Unavailable = ''Unavailable''"
| "code_debug DataLoss = ''DataLoss''"
| "code_debug Unauthenticated = ''Unauthenticated''"

definition tonic_error_content :: "string \<Rightarrow> status \<Rightarrow> json" where
  "tonic_error_content meth st =
     error_content (if message_is_client_safe (st_code st)
       then ''vegapunk '' @ meth @ '' failed: gRPC '' @ code_debug (st_code st) @ '': '' @ st_message st
       else ''vegapunk '' @ meth @ '' failed: gRPC '' @ code_debug (st_code st) @ '' (details suppressed)'')"

definition ownership_denied_content :: "string \<Rightarrow> json" where
  "ownership_denied_content tool =
     error_content (''permission denied: '' @ [CHR 0x27] @ tool @ [CHR 0x27] @ '' identifier does not belong to caller'')"

definition internal_error_content :: "string \<Rightarrow> string \<Rightarrow> json" where
  "internal_error_content tool msg =
     error_content (''internal error in '' @ [CHR 0x27] @ tool @ [CHR 0x27] @ '': '' @ msg)"

definition not_implemented_content :: "string \<Rightarrow> json" where
  "not_implemented_content name =
     error_content (''tool '' @ [CHR 0x27] @ name @ [CHR 0x27] @ '' is registered but not yet implemented'')"

text \<open>The reason texts of the argument errors.\<close>

definition quoted :: "string \<Rightarrow> string" where
  "quoted s = [CHR 0x27] @ s @ [CHR 0x27]"

lemma quoted_inj [simp]: "quoted a = quoted b \<longleftrightarrow> a = b"
  by (simp add: quoted_def)

lemma error_content_inj [simp]: "error_content a = error_content b \<longleftrightarrow> a = b"
  by (simp add: error_content_def)

lemma code_debug_inj: "code_debug a = code_debug b \<longleftrightarrow> a = b"
  by (cases a; cases b; simp)

section \<open>Property\<close>

text \<open>A failed backend call never leaks the backend's message unless its code is one a client can act
  on: for the internal codes (\<open>Internal\<close>, \<open>Unknown\<close>, \<open>DataLoss\<close>, \<open>Unimplemented\<close>) the content is the same
  whatever the message says, while the code itself always shows: two contents of one method that agree have
  the same code, unless both messages are shown.\<close>

lemma error_redaction:
  "(st_code s \<in> {Internal, Unknown, DataLoss, Unimplemented} \<longrightarrow>
      tonic_error_content m s = tonic_error_content m (s\<lparr>st_message := msg\<rparr>))
   \<and> (tonic_error_content m s = tonic_error_content m t \<and> st_code s \<in> {Internal, Unknown, DataLoss, Unimplemented}
        \<and> st_code t \<in> {Internal, Unknown, DataLoss, Unimplemented} \<longrightarrow> st_code s = st_code t)
   \<and> (message_is_client_safe (st_code s) \<longrightarrow>
        (tonic_error_content m s = tonic_error_content m (s\<lparr>st_message := msg\<rparr>) \<longleftrightarrow> st_message s = msg))"
  by (auto simp: tonic_error_content_def message_is_client_safe_def code_debug_inj)

end
