(* ===== verification/Vp_Merge.thy ===== *)
theory Vp_Merge
  imports Vp_Types "HOL-Library.Multiset"
begin

unbundle bit_operations_syntax

text \<open>
  How the answers for the personal and the shared schema become one (\<open>search\<close>, \<open>query_nodes\<close>,
  \<open>list_schemas\<close>, \<open>get_traceable_chain\<close> of \<open>handlers.rs\<close>). A score is an IEEE single given by its bits;
  \<open>total_cmp\<close> orders the bits as signed numbers after flipping the magnitude bits of negative ones.
\<close>

section \<open>Scores\<close>

definition f32_is_nan :: "32 word \<Rightarrow> bool" where
  "f32_is_nan w \<longleftrightarrow> w AND 0x7F800000 = 0x7F800000 \<and> w AND 0x007FFFFF \<noteq> 0"

definition f32_key :: "32 word \<Rightarrow> int" where
  "f32_key w = sint (if sint w < 0 then w XOR 0x7FFFFFFF else w)"

definition NEG_INFINITY :: "32 word" where "NEG_INFINITY = 0xFF800000"

definition item_score :: "search_item \<Rightarrow> 32 word" where
  "item_score it = (let raw = (case si_score it of None \<Rightarrow> NEG_INFINITY | Some w \<Rightarrow> w) in
     if f32_is_nan raw then NEG_INFINITY else raw)"

section \<open>The merged results of search\<close>

definition search_result_item_json :: "(32 word \<Rightarrow> json) \<Rightarrow> search_item \<Rightarrow> json" where
  "search_result_item_json num it =
     JObj [(''type'', JStr (si_type it)), (''id'', json_opt JStr (si_id it)), (''text'', json_opt JStr (si_text it)),
       (''score'', json_opt num (si_score it)), (''person'', json_opt JStr (si_person it)),
       (''timestamp'', json_opt JStr (si_timestamp it)), (''summary'', json_opt JStr (si_summary it)),
       (''channel'', json_opt JStr (si_channel it)), (''decided_at'', json_opt JStr (si_decided_at it)),
       (''rationales'', JArr (map JStr (si_rationales it)))]"

text \<open>The key results are compared by; a result without an identifier has none.\<close>

definition dedup_key :: "search_item \<Rightarrow> string option" where
  "dedup_key it = (case si_id it of None \<Rightarrow> None
     | Some i \<Rightarrow> if i \<noteq> [] then Some (si_type it @ CHR '':'' # i) else None)"

fun keep_items :: "string list \<Rightarrow> search_item list \<Rightarrow> search_item list" where
  "keep_items seen [] = []"
| "keep_items seen (it # its) =
     (case dedup_key it of
        Some k \<Rightarrow> if k \<in> set seen then keep_items seen its else it # keep_items (k # seen) its
      | None \<Rightarrow> it # keep_items seen its)"

definition truncate_to :: "int option \<Rightarrow> 'a list \<Rightarrow> 'a list" where
  "truncate_to limit xs = (case limit of None \<Rightarrow> xs | Some l \<Rightarrow> take (nat (max l 0)) xs)"

definition merge_search :: "int option \<Rightarrow> search_item list \<Rightarrow> search_item list \<Rightarrow> search_item list" where
  "merge_search limit personal shared =
     truncate_to limit (sort_key (\<lambda>it. - f32_key (item_score it)) (keep_items [] (personal @ shared)))"

lemma keep_subset: "set (keep_items seen its) \<subseteq> set its"
  by (induction seen its rule: keep_items.induct) (auto split: option.splits)

lemma keep_idless: "it \<in> set its \<Longrightarrow> dedup_key it = None \<Longrightarrow> it \<in> set (keep_items seen its)"
  by (induction seen its rule: keep_items.induct) (auto split: option.splits)

lemma keep_not_seen: "it \<in> set (keep_items seen its) \<Longrightarrow> dedup_key it = Some k \<Longrightarrow> k \<notin> set seen"
proof (induction seen its rule: keep_items.induct)
  case (2 seen x its)
  then show ?case by (cases "dedup_key x") (auto split: if_splits)
qed simp

lemma keep_represents:
  "it \<in> set its \<Longrightarrow> dedup_key it = Some k \<Longrightarrow> k \<in> set seen \<or> (\<exists>y \<in> set (keep_items seen its). dedup_key y = Some k)"
proof (induction seen its rule: keep_items.induct)
  case (2 seen x its)
  then show ?case by (cases "dedup_key x") (auto split: if_splits)
qed simp

lemma keep_distinct: "distinct (List.map_filter dedup_key (keep_items seen its))"
proof (induction seen its rule: keep_items.induct)
  case (2 seen x its)
  show ?case
  proof (cases "dedup_key x")
    case None
    with 2 show ?thesis by (simp add: List.map_filter_simps)
  next
    case (Some k)
    have "k \<notin> set (List.map_filter dedup_key (keep_items (k # seen) its))"
      by (auto simp: List.map_filter_def dest: keep_not_seen [where k = k])
    with 2 Some show ?thesis by (auto simp: List.map_filter_simps)
  qed
qed (simp add: List.map_filter_simps)

lemma take_sorted_rest:
  assumes "sorted (map f xs)" "y \<in> set (take n xs)" "x \<in> set (drop n xs)"
  shows "f y \<le> f x"
proof -
  from assms(1) have "sorted (map f (take n xs) @ map f (drop n xs))" by (metis append_take_drop_id map_append)
  with assms(2,3) show ?thesis by (auto simp: sorted_append)
qed

section \<open>The page of query_nodes\<close>

fun dedup_nodes :: "string list \<Rightarrow> node_result list \<Rightarrow> node_result list" where
  "dedup_nodes seen [] = []"
| "dedup_nodes seen (n # ns) =
     (if nd_id n \<in> set seen then dedup_nodes seen ns else n # dedup_nodes (nd_id n # seen) ns)"

definition fetch_limit :: "int \<Rightarrow> int option \<Rightarrow> int option" where
  "fetch_limit offset limit =
     map_option (\<lambda>l. min (min i32_max (offset + max l 0)) QUERY_NODES_LIMIT_MAX) limit"

definition page_of :: "int \<Rightarrow> int option \<Rightarrow> node_result list \<Rightarrow> node_result list \<Rightarrow> panic + node_result list" where
  "page_of offset limit personal shared =
     (let nodes = dedup_nodes [] (personal @ shared);
          start = min (nat offset) (length nodes)
      in bindE (drain_front start nodes) (\<lambda>rest. Inr (truncate_to limit rest)))"

lemma dedup_nodes_distinct:
  "distinct (map nd_id ns) \<Longrightarrow> set seen \<inter> nd_id ` set ns = {} \<Longrightarrow> dedup_nodes seen ns = ns"
  by (induction seen ns rule: dedup_nodes.induct) auto

lemma dedup_nodes_length: "length (dedup_nodes seen ns) \<le> length ns"
  by (induction seen ns rule: dedup_nodes.induct) auto

section \<open>The visible schemas and the chain\<close>

definition schema_item_json :: "schema_item \<Rightarrow> json" where
  "schema_item_json s = JObj [(''name'', JStr (sm_name s)), (''version'', JInt (sm_version s)),
     (''description'', JStr (sm_description s)), (''schema_yaml'', JStr (sm_yaml s))]"

definition filter_schemas_for_user_and_shared ::
  "schema_item list \<Rightarrow> string \<Rightarrow> string \<Rightarrow> json list" where
  "filter_schemas_for_user_and_shared schemas user_schema shared_schema =
     (case find (\<lambda>s. sm_name s = user_schema) schemas of None \<Rightarrow> [] | Some p \<Rightarrow> [schema_item_json p])
     @ (if user_schema \<noteq> shared_schema
        then (case find (\<lambda>s. sm_name s = shared_schema) schemas of None \<Rightarrow> [] | Some s \<Rightarrow> [schema_item_json s])
        else [])"

datatype chain_error = PersonalFailed status | BothFailed status

definition choose_chain ::
  "status + chain_link list \<Rightarrow> status + chain_link list \<Rightarrow> chain_error + (string \<times> chain_link list)" where
  "choose_chain personal shared =
     (case (personal, shared) of
        (Inr p, Inr s) \<Rightarrow>
          if p \<noteq> [] then Inr (''personal'', p)
          else if s \<noteq> [] then Inr (''shared'', s)
          else Inr (''personal'', p)
      | (Inr p, Inl s_err) \<Rightarrow> Inr (''personal'', p)
      | (Inl p_err, Inr s) \<Rightarrow>
          if st_code p_err = CodeNotFound then Inr (''shared'', s) else Inl (PersonalFailed p_err)
      | (Inl p_err, Inl s_err) \<Rightarrow> Inl (BothFailed p_err))"

lemma merge_search_parts:
  assumes kept: "kept = keep_items [] (personal @ shared)" and out: "out = merge_search (Some l) personal shared"
  shows "length out = min (nat (max l 0)) (length kept)"
    and "sorted_wrt (\<lambda>x y. f32_key (item_score y) \<le> f32_key (item_score x)) out"
    and "mset out \<subseteq># mset kept"
    and "\<forall>x \<in># mset kept - mset out. \<forall>y \<in> set out. f32_key (item_score x) \<le> f32_key (item_score y)"
    and "distinct (List.map_filter dedup_key out)"
proof -
  let ?f = "\<lambda>it. - f32_key (item_score it)"
  let ?s = "sort_key ?f kept" and ?n = "nat (max l 0)"
  have out': "out = take ?n ?s" by (simp add: out merge_search_def truncate_to_def kept)
  have sorted: "sorted (map ?f ?s)" by simp
  show "length out = min (nat (max l 0)) (length kept)" by (simp add: out' min.commute)
  have "sorted (map ?f out)" using sorted by (simp add: out' sorted_wrt_take take_map [symmetric])
  then show "sorted_wrt (\<lambda>x y. f32_key (item_score y) \<le> f32_key (item_score x)) out"
    by (simp add: sorted_map)
  have ms: "mset kept = mset out + mset (drop ?n ?s)"
    by (metis append_take_drop_id mset_append mset_sort out')
  show "mset out \<subseteq># mset kept" by (simp add: ms)
  show "\<forall>x \<in># mset kept - mset out. \<forall>y \<in> set out. f32_key (item_score x) \<le> f32_key (item_score y)"
    using take_sorted_rest [OF sorted, of _ ?n] by (fastforce simp: ms out')
  have "mset (List.map_filter dedup_key ?s) = mset (List.map_filter dedup_key kept)"
    by (simp add: List.map_filter_def)
  then have "distinct (List.map_filter dedup_key ?s)"
    using keep_distinct unfolding kept by (metis mset_eq_imp_distinct_iff)
  moreover have "List.map_filter dedup_key ?s
      = List.map_filter dedup_key out @ List.map_filter dedup_key (drop ?n ?s)"
    unfolding out' by (metis (no_types, lifting) List.map_filter_def append_take_drop_id filter_append map_append)
  ultimately show "distinct (List.map_filter dedup_key out)" by simp
qed

section \<open>Properties\<close>

text \<open>C29. Merging two result lists under a limit: the list has as many results as the limit and the distinct
  results allow; scores never increase along it (a missing score and a NaN count as the lowest), and no result
  left out by the limit has a higher score than one returned; no two results of one type share an
  identifier, results without an identifier are never merged, and every result found is represented among
  the candidates.\<close>

theorem merged_search:
  "let kept = keep_items [] (personal @ shared); out = merge_search (Some l) personal shared in
     length out = min (nat (max l 0)) (length kept)
     \<and> sorted_wrt (\<lambda>x y. f32_key (item_score y) \<le> f32_key (item_score x)) out
     \<and> mset out \<subseteq># mset kept
     \<and> (\<forall>x \<in># mset kept - mset out. \<forall>y \<in> set out. f32_key (item_score x) \<le> f32_key (item_score y))
     \<and> distinct (List.map_filter dedup_key out)
     \<and> (\<forall>it \<in> set personal \<union> set shared. \<exists>y \<in> set kept. dedup_key y = dedup_key it \<and> (dedup_key it = None \<longrightarrow> y = it))"
proof -
  have "\<exists>y \<in> set (keep_items [] (personal @ shared)). dedup_key y = dedup_key it \<and> (dedup_key it = None \<longrightarrow> y = it)"
    if "it \<in> set personal \<union> set shared" for it
  proof -
    from that have it: "it \<in> set (personal @ shared)" by simp
    show ?thesis using keep_idless [OF it, of "[]"] keep_represents [OF it, of _ "[]"]
      by (cases "dedup_key it") auto
  qed
  then show ?thesis
    unfolding Let_def using merge_search_parts [OF refl refl, where personal = personal and shared = shared and l = l] by blast
qed

definition sample_item :: "string \<Rightarrow> 32 word option \<Rightarrow> search_item" where
  "sample_item i sc = \<lparr>si_type = ''Person'', si_id = Some i, si_text = None, si_score = sc, si_person = None,
     si_timestamp = None, si_summary = None, si_channel = None, si_decided_at = None, si_rationales = []\<rparr>"

theorem merged_search_witness:
  "length (merge_search (Some 2) [sample_item ''a'' None, sample_item ''b'' (Some 0x3F800000)] [sample_item ''b'' None]) = 2"
proof -
  have "length (keep_items [] ([sample_item ''a'' None, sample_item ''b'' (Some 0x3F800000)] @ [sample_item ''b'' None])) = 2"
    by (simp add: sample_item_def dedup_key_def)
  with merged_search [of "[sample_item ''a'' None, sample_item ''b'' (Some 0x3F800000)]" "[sample_item ''b'' None]" 2]
  show ?thesis by (simp add: Let_def)
qed

text \<open>C40. The page \<open>query_nodes\<close> answers, without draining more nodes than there are, is the client's range of the personal nodes followed by the shared ones,
  although each schema is only asked for its first \<open>offset + limit\<close> nodes, as long as that sum is within the
  backend's limit; beyond it each schema is cut at the limit, and from twice the limit on every page is
  empty, however many nodes there are.\<close>

theorem query_nodes_page:
  assumes "distinct (map nd_id (P @ S))" "0 \<le> off" "off \<le> i32_max" "1 \<le> l" "l \<le> QUERY_NODES_LIMIT_MAX"
    and "fetch_limit off (Some l) = Some f"
  shows "(off + l \<le> QUERY_NODES_LIMIT_MAX \<longrightarrow>
            page_of off (Some l) (take (nat f) P) (take (nat f) S) = Inr (take (nat l) (drop (nat off) (P @ S))))
       \<and> (2 * QUERY_NODES_LIMIT_MAX \<le> off \<longrightarrow> page_of off (Some l) (take (nat f) P) (take (nat f) S) = Inr [])"
proof (intro conjI impI)
  from assms(1) have "distinct (map nd_id P)" "distinct (map nd_id S)" "nd_id ` set P \<inter> nd_id ` set S = {}"
    by simp_all
  then have "distinct (map nd_id (take (nat f) P))" "distinct (map nd_id (take (nat f) S))"
      "nd_id ` set (take (nat f) P) \<inter> nd_id ` set (take (nat f) S) = {}"
    using set_take_subset [of "nat f" P] set_take_subset [of "nat f" S] by (simp_all add: take_map [symmetric]) blast
  then have "distinct (map nd_id (take (nat f) P @ take (nat f) S))" by simp
  then have d: "dedup_nodes [] (take (nat f) P @ take (nat f) S) = take (nat f) P @ take (nat f) S"
    by (intro dedup_nodes_distinct) simp_all
  have drop_min: "drop (min n (length xs)) xs = drop n xs" for n and xs :: "node_result list"
    by (cases "n \<le> length xs") simp_all
  have st: "drain_front (min (nat off) (length xs)) xs = Inr (drop (nat off) xs)" for xs :: "node_result list"
    by (simp add: drain_front_def drop_min)
  have page: "page_of off (Some l) (take (nat f) P) (take (nat f) S)
      = Inr (take (nat l) (drop (nat off) (take (nat f) P @ take (nat f) S)))"
    using assms(4) unfolding page_of_def Let_def d st by (simp add: truncate_to_def)
  {
    assume le: "off + l \<le> QUERY_NODES_LIMIT_MAX"
    with assms(6,4) have f: "f = off + l" by (simp add: fetch_limit_def contract_defs max_def)
    have n: "nat f = nat off + nat l" using f assms(2,4) by (simp add: nat_add_distrib)
    have td: "take (nat l) (drop (nat off) xs) = drop (nat off) (take (nat f) xs)" for xs :: "node_result list"
      unfolding n by (simp add: take_drop add.commute)
    have "take (nat f) (take (nat f) P @ take (nat f) S) = take (nat f) (P @ S)" by (simp add: min_def)
    then show "page_of off (Some l) (take (nat f) P) (take (nat f) S) = Inr (take (nat l) (drop (nat off) (P @ S)))"
      unfolding page td by simp
  next
    assume ge: "2 * QUERY_NODES_LIMIT_MAX \<le> off"
    have "nat f \<le> 1000" using assms(6) by (auto simp: fetch_limit_def contract_defs)
    then have "length (take (nat f) P @ take (nat f) S) \<le> 2000" by simp
    also have "2000 \<le> nat off" using ge by (simp add: contract_defs)
    finally have "drop (nat off) (take (nat f) P @ take (nat f) S) = []" by (rule drop_all)
    then show "page_of off (Some l) (take (nat f) P) (take (nat f) S) = Inr []"
      unfolding page by (simp only: take_Nil)
  }
qed

theorem query_nodes_page_witness:
  "page_of 1 (Some 1) [\<lparr>nd_id = ''p'', nd_type = ''T'', nd_attributes = []\<rparr>] [\<lparr>nd_id = ''s'', nd_type = ''T'', nd_attributes = []\<rparr>]
     = Inr [\<lparr>nd_id = ''s'', nd_type = ''T'', nd_attributes = []\<rparr>]"
proof -
  have "fetch_limit 1 (Some 1) = Some 2" by (simp add: fetch_limit_def contract_defs i32_max_def)
  with query_nodes_page [of "[\<lparr>nd_id = ''p'', nd_type = ''T'', nd_attributes = []\<rparr>]" "[\<lparr>nd_id = ''s'', nd_type = ''T'', nd_attributes = []\<rparr>]" 1 1 2]
  show ?thesis by (simp add: contract_defs i32_max_def)
qed

text \<open>Whatever schemas the backend lists, a caller is shown at most its own and the shared one, each an
  exact match by name and taken from the backend's list, its own first; no other tenant's schema appears.\<close>

lemma schemas_filtered:
  "(\<exists>ps ss. filter_schemas_for_user_and_shared schemas u sh = map schema_item_json (ps @ ss)
      \<and> set ps \<union> set ss \<subseteq> set schemas \<and> (\<forall>p \<in> set ps. sm_name p = u) \<and> (\<forall>s \<in> set ss. sm_name s = sh \<and> u \<noteq> sh)
      \<and> length ps = (if u \<in> sm_name ` set schemas then 1 else 0)
      \<and> length ss = (if u \<noteq> sh \<and> sh \<in> sm_name ` set schemas then 1 else 0))"
proof -
  have one: "\<exists>xs. (case find (\<lambda>s. sm_name s = k) schemas of None \<Rightarrow> [] | Some s \<Rightarrow> [schema_item_json s]) = map schema_item_json xs
      \<and> set xs \<subseteq> set schemas \<and> (\<forall>x \<in> set xs. sm_name x = k) \<and> length xs = (if k \<in> sm_name ` set schemas then 1 else 0)" for k
  proof (cases "find (\<lambda>s. sm_name s = k) schemas")
    case None
    then have "k \<notin> sm_name ` set schemas" by (auto simp: find_None_iff)
    with None show ?thesis by (intro exI [of _ "[]"]) simp
  next
    case (Some s)
    with find_SomeD [OF Some] show ?thesis by (intro exI [of _ "[s]"]) auto
  qed
  from one [of u] one [of sh] obtain ps ss where
    "(case find (\<lambda>s. sm_name s = u) schemas of None \<Rightarrow> [] | Some s \<Rightarrow> [schema_item_json s]) = map schema_item_json ps"
    "set ps \<subseteq> set schemas" "\<forall>x \<in> set ps. sm_name x = u" "length ps = (if u \<in> sm_name ` set schemas then 1 else 0)"
    "(case find (\<lambda>s. sm_name s = sh) schemas of None \<Rightarrow> [] | Some s \<Rightarrow> [schema_item_json s]) = map schema_item_json ss"
    "set ss \<subseteq> set schemas" "\<forall>x \<in> set ss. sm_name x = sh" "length ss = (if sh \<in> sm_name ` set schemas then 1 else 0)"
    by blast
  then show ?thesis
    by (intro exI [of _ ps] exI [of _ "if u = sh then [] else ss"])
       (simp add: filter_schemas_for_user_and_shared_def)
qed

end
