(* ===== verification/Utf8.thy ===== *)
theory Utf8
  imports Rust_Text
begin

text \<open>
  The structure of UTF-8 that Rust guarantees of every \<open>&str\<close>: a string is a sequence of characters,
  each a leading byte with the number of continuation bytes it announces. The lemmas say where the
  character boundaries are: a character sequence found inside a string starts and ends on one, and
  two strings whose characters have the same lengths have the same boundaries.
\<close>

definition cont_count :: "char \<Rightarrow> nat" where
  "cont_count b = (let n = (of_char b :: nat) in
     if n < 192 then 0 else if n < 224 then 1 else if n < 240 then 2 else 3)"

definition utf8_char :: "rchar \<Rightarrow> bool" where
  "utf8_char c = (case c of [] \<Rightarrow> False
     | b # cs \<Rightarrow> \<not> is_cont b \<and> list_all is_cont cs \<and> length cs = cont_count b)"

definition utf8 :: "string \<Rightarrow> bool" where
  "utf8 s \<longleftrightarrow> list_all utf8_char (chars s)"

lemma utf8_Nil [simp]: "utf8 []"
  by (simp add: utf8_def)

lemma chars_eq_Nil [simp]: "chars s = [] \<longleftrightarrow> s = []"
  by (cases s) simp_all

lemma chars_append:
  "t = [] \<or> \<not> is_cont (hd t) \<Longrightarrow> chars (s @ t) = chars s @ chars t"
proof (induction s rule: chars.induct)
  case (2 b bs)
  show ?case
  proof (cases "\<forall>x \<in> set bs. is_cont x")
    case True
    then have tw: "takeWhile is_cont bs = bs" "dropWhile is_cont bs = []" by simp_all
    show ?thesis
    proof (cases t)
      case (Cons a as)
      then have "takeWhile is_cont (bs @ t) = bs" "dropWhile is_cont (bs @ t) = t"
        using True 2(2) by (simp_all add: takeWhile_append dropWhile_append)
      with tw show ?thesis by (simp only: append.simps chars.simps append_Nil)
    qed simp
  next
    case False
    then have "takeWhile is_cont (bs @ t) = takeWhile is_cont bs"
      "dropWhile is_cont (bs @ t) = dropWhile is_cont bs @ t"
      by (auto simp: takeWhile_append dropWhile_append)
    with 2 show ?thesis by simp
  qed
qed simp

lemma chars_char: "utf8_char c \<Longrightarrow> chars c = [c]"
  by (cases c) (auto simp: utf8_char_def list_all_iff takeWhile_eq_all_conv [THEN iffD2] dropWhile_eq_Nil_conv [THEN iffD2])

lemma utf8_char_hd: "utf8_char c \<Longrightarrow> c \<noteq> [] \<and> \<not> is_cont (hd c)"
  by (cases c) (simp_all add: utf8_char_def)

lemma utf8_hd: "utf8 s \<Longrightarrow> s = [] \<or> \<not> is_cont (hd s)"
  by (cases s) (simp_all add: utf8_def utf8_char_def)

lemma concat_hd: "list_all utf8_char ds \<Longrightarrow> concat ds = [] \<or> \<not> is_cont (hd (concat ds))"
  by (cases ds) (auto dest: utf8_char_hd)

lemma chars_concat: "list_all utf8_char ds \<Longrightarrow> chars (concat ds) = ds"
proof (induction ds)
  case (Cons d ds)
  then have "concat ds = [] \<or> \<not> is_cont (hd (concat ds))" by (intro concat_hd) simp
  with Cons show ?case by (simp add: chars_append chars_char)
qed simp

lemma utf8_append: "utf8 s \<Longrightarrow> utf8 t \<Longrightarrow> utf8 (s @ t)"
  using utf8_hd [of t] by (auto simp: utf8_def chars_append)

lemma chars_split:
  assumes "is_char_boundary s i"
  shows "chars s = chars (take i s) @ chars (drop i s)"
proof -
  have "drop i s = [] \<or> \<not> is_cont (hd (drop i s)) \<or> i = 0"
    using assms by (auto simp: is_char_boundary_def hd_drop_conv_nth)
  then show ?thesis using chars_append [of "drop i s" "take i s"] by auto
qed

lemma utf8_split: "utf8 s \<Longrightarrow> is_char_boundary s i \<Longrightarrow> utf8 (take i s) \<and> utf8 (drop i s)"
  unfolding utf8_def using chars_split [of s i] by simp

lemma boundary_le: "is_char_boundary s i \<Longrightarrow> i \<le> length s"
  by (auto simp: is_char_boundary_def)

text \<open>What follows a complete character sequence starts a character.\<close>

lemma utf8_after: "utf8 n \<Longrightarrow> utf8 (n @ t) \<Longrightarrow> t = [] \<or> \<not> is_cont (hd t)"
proof (induction n rule: chars.induct)
  case 1
  then show ?case using utf8_hd [of t] by simp
next
  case (2 b bs)
  show ?case
  proof (cases "\<forall>x \<in> set bs. is_cont x")
    case True
    then have "takeWhile is_cont bs = bs" by simp
    with 2(2) have "length bs = cont_count b" by (simp add: utf8_def utf8_char_def)
    moreover from True have "takeWhile is_cont (bs @ t) = bs @ takeWhile is_cont t"
      by (simp add: takeWhile_append)
    with 2(3) have "length bs + length (takeWhile is_cont t) = cont_count b"
      by (simp add: utf8_def utf8_char_def)
    ultimately have "takeWhile is_cont t = []" by simp
    then show ?thesis by (cases t) (auto split: if_splits)
  next
    case False
    then have "takeWhile is_cont (bs @ t) = takeWhile is_cont bs"
      "dropWhile is_cont (bs @ t) = dropWhile is_cont bs @ t"
      by (auto simp: takeWhile_append dropWhile_append)
    with 2 show ?thesis by (simp add: utf8_def)
  qed
qed

text \<open>An occurrence of a complete, non-empty character sequence lies between boundaries.\<close>

lemma occurrence_boundaries:
  assumes s: "utf8 s" and n: "utf8 n" "n \<noteq> []" and occ: "take (length n) (drop p s) = n" and
    len: "p + length n \<le> length s"
  shows "is_char_boundary s p" "is_char_boundary s (p + length n)"
proof -
  have eq: "drop p s = n @ drop (p + length n) s"
    using occ by (metis append_take_drop_id drop_drop add.commute)
  from len n(2) have p: "p < length s" by (cases n) auto
  with eq n(2) have "s ! p = hd n" by (metis hd_append2 hd_drop_conv_nth)
  with utf8_hd [OF n(1)] n(2) p show b: "is_char_boundary s p" by (simp add: is_char_boundary_def)
  from utf8_split [OF s b] eq have "utf8 (n @ drop (p + length n) s)" by simp
  from utf8_after [OF n(1) this] len show "is_char_boundary s (p + length n)"
    by (auto simp: is_char_boundary_def hd_drop_conv_nth)
qed

text \<open>The boundaries are the sums of character lengths.\<close>

lemma boundary_sum:
  assumes "utf8 s"
  shows "is_char_boundary s i \<longleftrightarrow> (\<exists>k \<le> length (chars s). i = sum_list (map length (take k (chars s))))"
proof
  assume b: "is_char_boundary s i"
  have "sum_list (map length (chars (take i s))) = length (concat (chars (take i s)))"
    by (simp add: length_concat del: concat_chars)
  with boundary_le [OF b] have "i = sum_list (map length (chars (take i s)))" by simp
  with chars_split [OF b] show "\<exists>k \<le> length (chars s). i = sum_list (map length (take k (chars s)))"
    by (intro exI [of _ "length (chars (take i s))"]) simp
next
  assume "\<exists>k \<le> length (chars s). i = sum_list (map length (take k (chars s)))"
  then obtain k where k: "k \<le> length (chars s)" and i: "i = length (concat (take k (chars s)))"
    by (auto simp: length_concat)
  have s: "s = concat (take k (chars s)) @ concat (drop k (chars s))"
    by (metis append_take_drop_id concat_append concat_chars)
  from assms have "list_all utf8_char (drop k (chars s))"
    by (metis append_take_drop_id list_all_append utf8_def)
  from concat_hd [OF this] show "is_char_boundary s i"
  proof
    assume "concat (drop k (chars s)) = []"
    with s i have "i = length s" by simp
    then show ?thesis by (simp add: is_char_boundary_def)
  next
    assume h: "\<not> is_cont (hd (concat (drop k (chars s))))"
    show ?thesis
    proof (cases "concat (drop k (chars s)) = []")
      case True
      with s i have "i = length s" by simp
      then show ?thesis by (simp add: is_char_boundary_def)
    next
      case False
      then have "i < length s" using s i by (metis length_append length_greater_0_conv less_add_same_cancel1)
      moreover have "s ! i = hd (concat (drop k (chars s)))"
        using s i False by (metis hd_conv_nth nth_append_length_plus add_0_right)
      ultimately show ?thesis using h by (simp add: is_char_boundary_def)
    qed
  qed
qed

lemma same_boundaries:
  assumes "utf8 s" "utf8 t" "map length (chars s) = map length (chars t)"
  shows "is_char_boundary s i = is_char_boundary t i" "length s = length t"
proof -
  from assms(3) have "length (chars s) = length (chars t)" by (metis length_map)
  with assms show "is_char_boundary s i = is_char_boundary t i"
    by (simp add: boundary_sum take_map [symmetric])
  have "length s = sum_list (map length (chars s))" "length t = sum_list (map length (chars t))"
    by (metis concat_chars length_concat)+
  with assms(3) show "length s = length t" by simp
qed

end
