(* ===== verification/Vp_Dedup.thy ===== *)
theory Vp_Dedup
  imports Utf8
begin

text \<open>
  The duplicate-entity check that runs before an ingestion (\<open>mcp/tools/handlers.rs\<close>): the
  byte-alignment guard, the word-boundary scan over a lowercased text, the rewriting of a known
  name to its canonical spelling, and the decision per message. A slice at an offset that is not a
  character boundary panics, so the loops return a sum whose left side is the panic; the theorems
  show the guard rules it out. Unicode's case mapping and alphabetic property are parameters:
  \<open>lower_char\<close> is \<open>char::to_lowercase\<close> (the characters it yields), \<open>lower\<close> is
  \<open>str::to_lowercase\<close>, \<open>alnum\<close> is \<open>char::is_alphanumeric\<close>.
\<close>

section \<open>The source's functions\<close>

definition slice :: "string \<Rightarrow> nat \<Rightarrow> nat \<Rightarrow> panic + string" where
  "slice s i j = (if i \<le> j \<and> j \<le> length s \<and> is_char_boundary s i \<and> is_char_boundary s j
     then Inr (take (j - i) (drop i s)) else Inl BadSlice)"

definition normalize_entity_key :: "(string \<Rightarrow> string) \<Rightarrow> string \<Rightarrow> string" where
  "normalize_entity_key lower s = lower (trim s)"

definition is_lowercase_byte_aligned :: "(rchar \<Rightarrow> rchar list) \<Rightarrow> string \<Rightarrow> bool" where
  "is_lowercase_byte_aligned lower_char tx =
     list_all (\<lambda>c. case lower_char c of [lc] \<Rightarrow> length lc = length c | _ \<Rightarrow> False) (chars tx)"

definition is_word_char :: "(rchar \<Rightarrow> bool) \<Rightarrow> rchar \<Rightarrow> bool" where
  "is_word_char alnum c \<longleftrightarrow> alnum c \<or> c = ''_''"

text \<open>The two tests around a match, and the length of the character at an offset (1 at the end).\<close>

definition at_word_boundary :: "(rchar \<Rightarrow> bool) \<Rightarrow> string \<Rightarrow> nat \<Rightarrow> nat \<Rightarrow> panic + bool" where
  "at_word_boundary alnum lc b e =
     bindE (slice lc 0 b) (\<lambda>before.
     bindE (slice lc e (length lc)) (\<lambda>after.
     Inr ((chars before = [] \<or> \<not> is_word_char alnum (last (chars before)))
          \<and> (chars after = [] \<or> \<not> is_word_char alnum (hd (chars after))))))"

definition char_len_at :: "string \<Rightarrow> nat \<Rightarrow> panic + nat" where
  "char_len_at lc i = bindE (slice lc i (length lc))
     (\<lambda>r. Inr (case chars r of [] \<Rightarrow> 1 | c # _ \<Rightarrow> length c))"

definition find_from :: "string \<Rightarrow> string \<Rightarrow> nat \<Rightarrow> panic + nat option" where
  "find_from lc needle start = bindE (slice lc start (length lc))
     (\<lambda>r. Inr (map_option (\<lambda>rel. start + rel) (find_sub r needle)))"

lemma slice_Inr: "slice s i j = Inr r \<Longrightarrow>
    i \<le> j \<and> j \<le> length s \<and> is_char_boundary s i \<and> is_char_boundary s j \<and> r = take (j - i) (drop i s)"
  by (auto simp: slice_def split: if_splits)

lemma find_from_bounds:
  assumes "find_from lc needle start = Inr (Some p)"
  shows "start \<le> p" "p + length needle \<le> length lc" "take (length needle) (drop p lc) = needle"
  using assms by (auto simp: find_from_def dest!: slice_Inr find_sub_Some)
     (auto simp: add.commute)

lemma char_len_pos: "char_len_at lc i = Inr n \<Longrightarrow> 0 < n"
proof -
  assume "char_len_at lc i = Inr n"
  then obtain r where r: "n = (case chars r of [] \<Rightarrow> 1 | c # _ \<Rightarrow> length c)" by (auto simp: char_len_at_def)
  show "0 < n"
  proof (cases "chars r")
    case (Cons c cs)
    with chars_nonempty [of c r] r show ?thesis by simp
  qed (simp add: r)
qed

text \<open>
  The loop of \<open>word_boundary_contains_in_lowercased\<close>; the test for the empty needle is the
  function's first line and is repeated here only because the recursion needs it to end.
\<close>

function contains_loop :: "(rchar \<Rightarrow> bool) \<Rightarrow> string \<Rightarrow> string \<Rightarrow> nat \<Rightarrow> panic + bool" where
  "contains_loop alnum lc needle start =
     (if needle = [] then Inr False
      else case find_from lc needle start of
        Inl e \<Rightarrow> Inl e
      | Inr None \<Rightarrow> Inr False
      | Inr (Some p) \<Rightarrow>
          (case at_word_boundary alnum lc p (p + length needle) of
             Inl e \<Rightarrow> Inl e
           | Inr True \<Rightarrow> Inr True
           | Inr False \<Rightarrow> (case char_len_at lc p of Inl e \<Rightarrow> Inl e
                           | Inr n \<Rightarrow> contains_loop alnum lc needle (p + n))))"
  by pat_completeness auto
termination
proof (relation "measure (\<lambda>(alnum, lc, needle, start). length lc - start)")
  fix lc needle :: string and start p n :: nat and alnum :: "rchar \<Rightarrow> bool" and x2 x2a x2b
  assume "needle \<noteq> []" "find_from lc needle start = Inr x2" "x2 = Some p" "char_len_at lc p = Inr n"
  then have "start \<le> p" "p + length needle \<le> length lc" "0 < n" "0 < length needle"
    using find_from_bounds char_len_pos by auto
  then have "start < length lc" "p + n > start" by linarith+
  then show "((alnum, lc, needle, p + n), alnum, lc, needle, start)
      \<in> measure (\<lambda>(alnum, lc, needle, start). length lc - start)" by simp
qed simp_all

definition word_boundary_contains_in_lowercased ::
  "(rchar \<Rightarrow> bool) \<Rightarrow> string \<Rightarrow> string \<Rightarrow> panic + bool" where
  "word_boundary_contains_in_lowercased alnum lc needle = contains_loop alnum lc needle 0"

text \<open>
  \<open>replace_word_case_insensitive_with_lc\<close>: \<open>out\<close> stays \<open>None\<close> until the first match whose spelling
  differs from the canonical one.
\<close>

definition finish_rewrite :: "string \<Rightarrow> string option \<Rightarrow> nat \<Rightarrow> panic + string option" where
  "finish_rewrite tx out cursor = (case out of
       None \<Rightarrow> Inr None
     | Some buf \<Rightarrow> bindE (slice tx cursor (length tx)) (\<lambda>r. Inr (Some (buf @ r))))"

text \<open>What one accepted match does to the buffer and the cursor.\<close>

definition rewrite_match ::
  "string \<Rightarrow> string \<Rightarrow> string option \<Rightarrow> nat \<Rightarrow> nat \<Rightarrow> nat \<Rightarrow> panic + (string option \<times> nat)" where
  "rewrite_match tx canonical out cursor b e =
     bindE (slice tx b e) (\<lambda>span.
       if span \<noteq> canonical
       then bindE (slice tx cursor b) (\<lambda>pre.
              Inr (Some ((case out of None \<Rightarrow> [] | Some buf \<Rightarrow> buf) @ pre @ canonical), e))
       else (case out of
               Some buf \<Rightarrow> bindE (slice tx cursor e) (\<lambda>r. Inr (Some (buf @ r), e))
             | None \<Rightarrow> Inr (None, cursor)))"

function replace_loop ::
  "(rchar \<Rightarrow> bool) \<Rightarrow> string \<Rightarrow> string \<Rightarrow> string \<Rightarrow> string \<Rightarrow> string option \<Rightarrow> nat \<Rightarrow> nat
     \<Rightarrow> panic + string option" where
  "replace_loop alnum tx lc needle canonical out cursor start =
     (if needle = [] then Inr None
      else case find_from lc needle start of
        Inl e \<Rightarrow> Inl e
      | Inr None \<Rightarrow> finish_rewrite tx out cursor
      | Inr (Some p) \<Rightarrow>
          (case at_word_boundary alnum lc p (p + length needle) of
             Inl e \<Rightarrow> Inl e
           | Inr True \<Rightarrow> (case rewrite_match tx canonical out cursor p (p + length needle) of
                 Inl e \<Rightarrow> Inl e
               | Inr (out', cursor') \<Rightarrow>
                   replace_loop alnum tx lc needle canonical out' cursor' (p + length needle))
           | Inr False \<Rightarrow> (case char_len_at lc p of Inl e \<Rightarrow> Inl e
                 | Inr n \<Rightarrow> replace_loop alnum tx lc needle canonical out cursor (p + n))))"
  by pat_completeness auto
termination
proof (relation "measure (\<lambda>(alnum, tx, lc, needle, canonical, out, cursor, st). length lc - st)")
  fix tx lc needle canonical :: string and out :: "string option" and cursor sf p n :: nat
    and alnum :: "rchar \<Rightarrow> bool" and x2 x2a x2b
  assume "needle \<noteq> []" "find_from lc needle sf = Inr x2" "x2 = Some p" "char_len_at lc p = Inr n"
  then have "sf \<le> p" "p + length needle \<le> length lc" "0 < n" "0 < length needle"
    using find_from_bounds char_len_pos by auto
  then have "sf < length lc" "p + n > sf" by linarith+
  then show "((alnum, tx, lc, needle, canonical, out, cursor, p + n), alnum, tx, lc, needle, canonical, out, cursor, sf)
      \<in> measure (\<lambda>(alnum, tx, lc, needle, canonical, out, cursor, st). length lc - st)" by simp
next
  fix tx lc needle canonical :: string and out x :: "string option" and cursor y sf p :: nat
    and alnum :: "rchar \<Rightarrow> bool" and x2 x2a x2b z
  assume "needle \<noteq> []" "find_from lc needle sf = Inr x2" "x2 = Some p"
  then have "sf \<le> p" "p + length needle \<le> length lc" "0 < length needle"
    using find_from_bounds by auto
  then have "sf < length lc" "p + length needle > sf" by linarith+
  then show "((alnum, tx, lc, needle, canonical, x, y, p + length needle), alnum, tx, lc, needle, canonical, out, cursor, sf)
      \<in> measure (\<lambda>(alnum, tx, lc, needle, canonical, out, cursor, st). length lc - st)" by simp
qed simp_all

declare contains_loop.simps [simp del] replace_loop.simps [simp del]

definition replace_word_case_insensitive_with_lc ::
  "(rchar \<Rightarrow> bool) \<Rightarrow> string \<Rightarrow> string \<Rightarrow> string \<Rightarrow> string \<Rightarrow> panic + string option" where
  "replace_word_case_insensitive_with_lc alnum tx lc needle canonical =
     replace_loop alnum tx lc needle canonical None 0 0"

section \<open>The decision for one text\<close>

record entity_ref =
  er_name :: string
  er_node_type :: string
  er_schema :: string
  er_key :: string

definition entity_new :: "(string \<Rightarrow> string) \<Rightarrow> string \<Rightarrow> string \<Rightarrow> string \<Rightarrow> entity_ref" where
  "entity_new lower name node_type schema = \<lparr>er_name = name, er_node_type = node_type, er_schema = schema,
     er_key = normalize_entity_key lower name\<rparr>"

datatype pre_check =
    BlockedByShared entity_ref
  | Rewritten string "entity_ref list"
  | Proceed

record dedup_catalogue =
  dc_shared :: "entity_ref list"
  dc_personal :: "entity_ref list"

fun shared_scan :: "(rchar \<Rightarrow> bool) \<Rightarrow> string \<Rightarrow> entity_ref list \<Rightarrow> panic + entity_ref option" where
  "shared_scan alnum lc [] = Inr None"
| "shared_scan alnum lc (e # es) =
     bindE (word_boundary_contains_in_lowercased alnum lc (er_key e)) (\<lambda>hit.
       if hit then Inr (Some e) else shared_scan alnum lc es)"

text \<open>The loop over the personal entities; it stops early when a rewrite loses the alignment.\<close>

fun personal_scan ::
  "(rchar \<Rightarrow> bool) \<Rightarrow> (rchar \<Rightarrow> rchar list) \<Rightarrow> (string \<Rightarrow> string) \<Rightarrow> string \<Rightarrow> string option \<Rightarrow> string
     \<Rightarrow> entity_ref list \<Rightarrow> entity_ref list \<Rightarrow> panic + (string option \<times> entity_ref list)" where
  "personal_scan alnum lower_char lower tx owned lc rewrites [] = Inr (owned, rewrites)"
| "personal_scan alnum lower_char lower tx owned lc rewrites (e # es) =
     bindE (replace_word_case_insensitive_with_lc alnum (case owned of None \<Rightarrow> tx | Some s \<Rightarrow> s) lc
              (er_key e) (er_name e)) (\<lambda>updated.
       case updated of
         None \<Rightarrow> personal_scan alnum lower_char lower tx owned lc rewrites es
       | Some u \<Rightarrow>
           if \<not> is_lowercase_byte_aligned lower_char u then Inr (Some u, rewrites @ [e])
           else personal_scan alnum lower_char lower tx (Some u) (lower u) (rewrites @ [e]) es)"

definition scan_text_with_catalogue ::
  "(rchar \<Rightarrow> bool) \<Rightarrow> (rchar \<Rightarrow> rchar list) \<Rightarrow> (string \<Rightarrow> string) \<Rightarrow> dedup_catalogue \<Rightarrow> string
     \<Rightarrow> panic + pre_check" where
  "scan_text_with_catalogue alnum lower_char lower catalogue tx =
     (if \<not> is_lowercase_byte_aligned lower_char tx then Inr Proceed
      else let lc = lower tx in
        bindE (shared_scan alnum lc (dc_shared catalogue)) (\<lambda>hit.
          case hit of
            Some e \<Rightarrow> Inr (BlockedByShared e)
          | None \<Rightarrow>
              bindE (personal_scan alnum lower_char lower tx None lc [] (dc_personal catalogue)) (\<lambda>(owned, rewrites).
                case owned of
                  Some new_text \<Rightarrow> if rewrites \<noteq> [] then Inr (Rewritten new_text rewrites) else Inr Proceed
                | None \<Rightarrow> Inr Proceed)))"

section \<open>The matches, without slices\<close>

definition word_at :: "(rchar \<Rightarrow> bool) \<Rightarrow> string \<Rightarrow> nat \<Rightarrow> nat \<Rightarrow> bool" where
  "word_at alnum lc b e \<longleftrightarrow>
     (take b lc = [] \<or> \<not> is_word_char alnum (last (chars (take b lc))))
     \<and> (drop e lc = [] \<or> \<not> is_word_char alnum (hd (chars (drop e lc))))"

definition first_char_len :: "string \<Rightarrow> nat" where
  "first_char_len s = (case chars s of [] \<Rightarrow> 1 | c # _ \<Rightarrow> length c)"

lemma first_char_len_pos: "0 < first_char_len s"
proof (cases "chars s")
  case (Cons c cs)
  with chars_nonempty [of c s] show ?thesis by (simp add: first_char_len_def)
qed (simp add: first_char_len_def)

lemma find_sub_room: "find_sub (drop start lc) needle = Some rel \<Longrightarrow> needle \<noteq> [] \<Longrightarrow>
    start < length lc \<and> start + rel + length needle \<le> length lc"
  by (drule find_sub_Some) (cases needle, auto)

text \<open>The offsets of the matches a left-to-right scan accepts; an accepted match is skipped over.\<close>

function word_matches :: "(rchar \<Rightarrow> bool) \<Rightarrow> string \<Rightarrow> string \<Rightarrow> nat \<Rightarrow> nat list" where
  "word_matches alnum lc needle start =
     (if needle = [] then []
      else case find_sub (drop start lc) needle of
        None \<Rightarrow> []
      | Some rel \<Rightarrow>
          if word_at alnum lc (start + rel) (start + rel + length needle)
          then (start + rel) # word_matches alnum lc needle (start + rel + length needle)
          else word_matches alnum lc needle (start + rel + first_char_len (drop (start + rel) lc)))"
  by pat_completeness auto

termination
proof (relation "measure (\<lambda>(alnum, lc, needle, start). length lc - start)")
  fix lc needle :: string and start rel :: nat and alnum :: "rchar \<Rightarrow> bool"
  assume a: "needle \<noteq> []" "find_sub (drop start lc) needle = Some rel"
  from a(1) have "0 < length needle" by simp
  with find_sub_room [OF a(2,1)] have "start < length lc" "start < start + rel + length needle" by linarith+
  then show "((alnum, lc, needle, start + rel + length needle), alnum, lc, needle, start)
      \<in> measure (\<lambda>(alnum, lc, needle, start). length lc - start)"
    by (simp only: in_measure prod.case diff_less_mono2)
  from find_sub_room [OF a(2,1)] first_char_len_pos [of "drop (start + rel) lc"]
  have "start < length lc" "start < start + rel + first_char_len (drop (start + rel) lc)" by linarith+
  then show "((alnum, lc, needle, start + rel + first_char_len (drop (start + rel) lc)), alnum, lc, needle, start)
      \<in> measure (\<lambda>(alnum, lc, needle, start). length lc - start)"
    by (simp only: in_measure prod.case diff_less_mono2)
qed simp

declare word_matches.simps [simp del]

fun splice :: "string \<Rightarrow> nat \<Rightarrow> string \<Rightarrow> nat \<Rightarrow> nat list \<Rightarrow> string" where
  "splice tx n canonical cursor [] = drop cursor tx"
| "splice tx n canonical cursor (p # ps) =
     take (p - cursor) (drop cursor tx) @ canonical @ splice tx n canonical (p + n) ps"

text \<open>What the rewriting of one name yields: \<open>None\<close> when every match is spelled canonically.\<close>

definition rewritten :: "string \<Rightarrow> nat \<Rightarrow> string \<Rightarrow> nat list \<Rightarrow> string option" where
  "rewritten tx n canonical ps =
     (if \<forall>p \<in> set ps. take n (drop p tx) = canonical then None else Some (splice tx n canonical 0 ps))"

lemma matches_ge: "p \<in> set (word_matches alnum lc needle start) \<Longrightarrow> start \<le> p \<and> p + length needle \<le> length lc"
proof (induction alnum lc needle start rule: word_matches.induct)
  case (1 alnum lc needle start)
  show ?case
  proof (cases "needle = [] \<or> find_sub (drop start lc) needle = None")
    case True
    with 1(3) show ?thesis
      by (auto simp: word_matches.simps [of alnum lc needle start] split: if_splits option.splits)
  next
    case False
    then obtain rel where f: "find_sub (drop start lc) needle = Some rel" and n: "needle \<noteq> []" by blast
    note ih = "1.IH" [OF n f] and room = find_sub_room [OF f n]
    show ?thesis
    proof (cases "word_at alnum lc (start + rel) (start + rel + length needle)")
      case True
      with 1(3) f n room ih(1) [OF True] show ?thesis
        by (auto simp: word_matches.simps [of alnum lc needle start])
    next
      case False
      with 1(3) f n ih(2) [OF False] show ?thesis
        by (auto simp: word_matches.simps [of alnum lc needle start])
    qed
  qed
qed

lemma splice_from:
  assumes "c \<le> e" "e \<le> length tx" "\<forall>p \<in> set ps. e \<le> p"
  shows "splice tx n canonical c ps = take (e - c) (drop c tx) @ splice tx n canonical e ps"
proof (cases ps)
  case Nil
  have "drop c tx = take (e - c) (drop c tx) @ drop (e - c) (drop c tx)"
    by (rule append_take_drop_id [symmetric])
  then have "drop c tx = take (e - c) (drop c tx) @ drop e tx" using assms(1) by (simp del: append_take_drop_id)
  with Nil show ?thesis by simp
next
  case (Cons p qs)
  with assms have p: "e \<le> p" by simp
  with assms(1) have eq: "p - c = (e - c) + (p - e)" by simp
  have "take (p - c) (drop c tx) = take (e - c) (drop c tx) @ take (p - e) (drop e tx)"
    unfolding eq take_add using assms(1) by simp
  with Cons show ?thesis by simp
qed

section \<open>The loops compute it and never panic\<close>

definition scan_ok :: "string \<Rightarrow> string \<Rightarrow> nat \<Rightarrow> bool" where
  "scan_ok lc needle start \<longleftrightarrow> utf8 lc \<and> utf8 needle \<and> needle \<noteq> [] \<and> is_char_boundary lc start"

lemma slice_tail: "is_char_boundary s i \<Longrightarrow> slice s i (length s) = Inr (drop i s)"
  by (auto simp: slice_def is_char_boundary_def)

lemma slice_head: "is_char_boundary s i \<Longrightarrow> slice s 0 i = Inr (take i s)"
  by (auto simp: slice_def is_char_boundary_def)

lemma find_from_ok:
  "scan_ok lc needle start \<Longrightarrow> find_from lc needle start = Inr (map_option (\<lambda>rel. start + rel) (find_sub (drop start lc) needle))"
  by (simp add: find_from_def scan_ok_def slice_tail)

lemma match_boundaries:
  assumes "scan_ok lc needle start" "find_sub (drop start lc) needle = Some rel"
  shows "is_char_boundary lc (start + rel)" "is_char_boundary lc (start + rel + length needle)"
proof -
  from assms(1) have a: "utf8 lc" "utf8 needle" "needle \<noteq> []" by (simp_all add: scan_ok_def)
  from find_sub_Some [OF assms(2)] have "take (length needle) (drop (start + rel) lc) = needle"
    by (simp add: add.commute)
  from occurrence_boundaries [OF a this] find_sub_room [OF assms(2) a(3)]
  show "is_char_boundary lc (start + rel)" "is_char_boundary lc (start + rel + length needle)" by simp_all
qed

lemma at_word_boundary_ok:
  "is_char_boundary lc b \<Longrightarrow> is_char_boundary lc e \<Longrightarrow> at_word_boundary alnum lc b e = Inr (word_at alnum lc b e)"
  by (simp add: at_word_boundary_def word_at_def slice_head slice_tail)

lemma char_len_ok: "is_char_boundary lc p \<Longrightarrow> char_len_at lc p = Inr (first_char_len (drop p lc))"
  by (simp add: char_len_at_def slice_tail first_char_len_def)

lemma next_char_boundary:
  assumes "utf8 lc" "is_char_boundary lc p" "p < length lc"
  shows "is_char_boundary lc (p + first_char_len (drop p lc))"
proof -
  from utf8_split [OF assms(1,2)] have u: "utf8 (drop p lc)" by simp
  from assms(3) obtain c cs where c: "chars (drop p lc) = c # cs" by (cases "chars (drop p lc)") auto
  with u have "utf8 c" by (simp add: utf8_def chars_char)
  moreover have "c \<noteq> []" using c chars_nonempty [of c "drop p lc"] by simp
  moreover have d: "drop p lc = c @ concat cs" using c by (metis concat.simps(2) concat_chars)
  moreover have "p + length c \<le> length lc"
    using d assms(3) by (metis add_le_cancel_left le_add1 le_add_diff_inverse length_append length_drop less_imp_le)
  ultimately have "is_char_boundary lc (p + length c)"
    by (intro occurrence_boundaries(2) [OF assms(1)]) simp_all
  with c show ?thesis by (simp add: first_char_len_def)
qed

lemma scan_ok_step:
  assumes "scan_ok lc needle start" "find_sub (drop start lc) needle = Some rel"
  shows "scan_ok lc needle (start + rel + length needle)"
    "scan_ok lc needle (start + rel + first_char_len (drop (start + rel) lc))"
proof -
  from assms(1) have n: "needle \<noteq> []" and u: "utf8 lc" by (simp_all add: scan_ok_def)
  from n have "0 < length needle" by simp
  with find_sub_room [OF assms(2) n] have "start + rel < length lc" by linarith
  with next_char_boundary [OF u match_boundaries(1) [OF assms]] match_boundaries(2) [OF assms] assms(1)
  show "scan_ok lc needle (start + rel + length needle)"
    "scan_ok lc needle (start + rel + first_char_len (drop (start + rel) lc))"
    by (simp_all add: scan_ok_def)
qed

lemma contains_loop_spec:
  "scan_ok lc needle start \<Longrightarrow> contains_loop alnum lc needle start = Inr (word_matches alnum lc needle start \<noteq> [])"
proof (induction alnum lc needle start rule: word_matches.induct)
  case (1 alnum lc needle start)
  then have n: "needle \<noteq> []" by (simp add: scan_ok_def)
  show ?case
  proof (cases "find_sub (drop start lc) needle")
    case None
    with 1(3) n show ?thesis
      by (simp add: contains_loop.simps [of alnum lc needle start] word_matches.simps [of alnum lc needle start] find_from_ok)
  next
    case (Some rel)
    note b = match_boundaries [OF 1(3) Some]
    show ?thesis
    proof (cases "word_at alnum lc (start + rel) (start + rel + length needle)")
      case True
      with Some n 1(3) b show ?thesis
        by (simp add: contains_loop.simps [of alnum lc needle start] word_matches.simps [of alnum lc needle start]
            find_from_ok at_word_boundary_ok)
    next
      case False
      with Some n 1(3) b "1.IH"(2) [OF n Some False scan_ok_step(2) [OF 1(3) Some]] show ?thesis
        by (simp add: contains_loop.simps [of alnum lc needle start] word_matches.simps [of alnum lc needle start]
            find_from_ok at_word_boundary_ok char_len_ok)
    qed
  qed
qed

text \<open>The two texts of a rewriting have the same length and the same boundaries.\<close>

definition aligned_with :: "string \<Rightarrow> string \<Rightarrow> bool" where
  "aligned_with tx lc \<longleftrightarrow> length tx = length lc \<and> (\<forall>i. is_char_boundary tx i = is_char_boundary lc i)"

lemma slice_ok: "is_char_boundary s i \<Longrightarrow> is_char_boundary s j \<Longrightarrow> i \<le> j \<Longrightarrow> slice s i j = Inr (take (j - i) (drop i s))"
  by (simp add: slice_def boundary_le)

definition loop_result :: "string \<Rightarrow> nat \<Rightarrow> string \<Rightarrow> string option \<Rightarrow> nat \<Rightarrow> nat list \<Rightarrow> string option" where
  "loop_result tx n canonical out cursor ps = (case out of
       None \<Rightarrow> rewritten tx n canonical ps
     | Some buf \<Rightarrow> Some (buf @ splice tx n canonical cursor ps))"

text \<open>One accepted match: the buffer and cursor it leaves account for it.\<close>

lemma rewrite_match_ok:
  assumes "is_char_boundary tx cursor" "is_char_boundary tx p" "is_char_boundary tx (p + n)" "cursor \<le> p"
    and "out = None \<Longrightarrow> cursor = 0" and ge: "\<forall>q \<in> set ps. p + n \<le> q"
  shows "\<exists>out' cursor'. rewrite_match tx canonical out cursor p (p + n) = Inr (out', cursor')
     \<and> is_char_boundary tx cursor' \<and> cursor' \<le> p + n \<and> (out' = None \<longrightarrow> cursor' = 0)
     \<and> loop_result tx n canonical out cursor (p # ps) = loop_result tx n canonical out' cursor' ps"
proof -
  have span: "slice tx p (p + n) = Inr (take n (drop p tx))"
    using slice_ok [OF assms(2,3)] by simp
  have pre: "slice tx cursor p = Inr (take (p - cursor) (drop cursor tx))"
    using slice_ok [OF assms(1,2,4)] .
  have le: "p + n \<le> length tx" using boundary_le [OF assms(3)] .
  show ?thesis
  proof (cases "take n (drop p tx) = canonical")
    case False
    with span pre assms show ?thesis
      by (cases out) (auto simp: rewrite_match_def loop_result_def rewritten_def)
  next
    case True
    have keep: "splice tx n canonical cursor (p # ps)
        = take (p + n - cursor) (drop cursor tx) @ splice tx n canonical (p + n) ps"
    proof -
      have eq: "p + n - cursor = (p - cursor) + n" using assms(4) by simp
      have "take (p + n - cursor) (drop cursor tx) = take (p - cursor) (drop cursor tx) @ canonical"
        unfolding eq take_add using True assms(4) by (simp add: add.commute)
      then show ?thesis by simp
    qed
    show ?thesis
    proof (cases out)
      case None
      have "splice tx n canonical 0 (p # ps) = splice tx n canonical 0 ps"
        using keep splice_from [of 0 "p + n" tx ps n canonical] None assms(5) le ge by simp
      with None True span assms(1,5) show ?thesis
        by (simp add: rewrite_match_def loop_result_def rewritten_def)
    next
      case (Some buf)
      have "slice tx cursor (p + n) = Inr (take (p + n - cursor) (drop cursor tx))"
        using slice_ok [OF assms(1,3)] assms(4) by simp
      with Some True span keep assms(3) show ?thesis
        by (simp add: rewrite_match_def loop_result_def)
    qed
  qed
qed

lemma replace_loop_spec:
  "scan_ok lc needle start \<Longrightarrow> aligned_with tx lc \<Longrightarrow> is_char_boundary tx cursor \<Longrightarrow> cursor \<le> start \<Longrightarrow>
     (out = None \<longrightarrow> cursor = 0) \<Longrightarrow>
     replace_loop alnum tx lc needle canonical out cursor start
       = Inr (loop_result tx (length needle) canonical out cursor (word_matches alnum lc needle start))"
proof (induction alnum lc needle start arbitrary: out cursor rule: word_matches.induct)
  case (1 alnum lc needle start)
  then have n: "needle \<noteq> []" by (simp add: scan_ok_def)
  show ?case
  proof (cases "find_sub (drop start lc) needle")
    case None
    with 1 n show ?thesis
      by (cases out) (simp_all add: replace_loop.simps [of alnum tx lc needle canonical] find_from_ok
          word_matches.simps [of alnum lc needle start] finish_rewrite_def loop_result_def rewritten_def slice_tail)
  next
    case (Some rel)
    note b = match_boundaries [OF 1(3) Some]
    from 1(4) have al: "\<And>i. is_char_boundary tx i = is_char_boundary lc i" by (simp add: aligned_with_def)
    show ?thesis
    proof (cases "word_at alnum lc (start + rel) (start + rel + length needle)")
      case True
      let ?e = "start + rel + length needle"
      have "\<forall>q \<in> set (word_matches alnum lc needle ?e). ?e \<le> q" using matches_ge by blast
      from rewrite_match_ok [OF 1(5) _ _ _ _ this, of out canonical] b 1(6,7)
      obtain out' cursor' where r: "rewrite_match tx canonical out cursor (start + rel) ?e = Inr (out', cursor')"
        "is_char_boundary tx cursor'" "cursor' \<le> ?e" "out' = None \<longrightarrow> cursor' = 0"
        "loop_result tx (length needle) canonical out cursor ((start + rel) # word_matches alnum lc needle ?e)
           = loop_result tx (length needle) canonical out' cursor' (word_matches alnum lc needle ?e)"
        by (auto simp: al)
      note ih = "1.IH"(1) [OF n Some True scan_ok_step(1) [OF 1(3) Some] 1(4) r(2,3,4)]
      from True Some n b 1(3) r(1,5) ih show ?thesis
        by (simp add: replace_loop.simps [of alnum tx lc needle canonical out cursor start] find_from_ok
            at_word_boundary_ok word_matches.simps [of alnum lc needle start])
    next
      case False
      have "cursor \<le> start + rel + first_char_len (drop (start + rel) lc)" using 1(6) by simp
      from "1.IH"(2) [OF n Some False scan_ok_step(2) [OF 1(3) Some] 1(4,5) this 1(7)] False Some n b 1(3)
      show ?thesis
        by (simp add: replace_loop.simps [of alnum tx lc needle canonical out cursor start] find_from_ok
            at_word_boundary_ok char_len_ok word_matches.simps [of alnum lc needle start])
    qed
  qed
qed

section \<open>The guard\<close>

text \<open>
  What the standard library documents of the two lowercasings: each character is replaced by what
  \<open>char::to_lowercase\<close> yields, except that a capital sigma may become the final small sigma.
\<close>

definition CAPITAL_SIGMA :: rchar where "CAPITAL_SIGMA = [CHR 0xCE, CHR 0xA3]"
definition FINAL_SIGMA :: rchar where "FINAL_SIGMA = [CHR 0xCF, CHR 0x82]"
definition SMALL_SIGMA :: rchar where "SMALL_SIGMA = [CHR 0xCF, CHR 0x83]"

definition lowercases :: "(string \<Rightarrow> string) \<Rightarrow> (rchar \<Rightarrow> rchar list) \<Rightarrow> bool" where
  "lowercases lower lower_char \<longleftrightarrow>
     (\<forall>s. utf8 s \<longrightarrow> (\<exists>ds. list_all2 (\<lambda>c d. d = concat (lower_char c) \<or> c = CAPITAL_SIGMA \<and> d = FINAL_SIGMA) (chars s) ds
         \<and> lower s = concat ds))
     \<and> (\<forall>c. utf8_char c \<longrightarrow> list_all utf8_char (lower_char c))
     \<and> lower_char CAPITAL_SIGMA = [SMALL_SIGMA]"

lemma final_sigma_char: "utf8_char FINAL_SIGMA"
  by (simp add: FINAL_SIGMA_def utf8_char_def is_cont_def cont_count_def)

lemma aligned_lower:
  assumes lw: "lowercases lower lower_char" and u: "utf8 s" and al: "is_lowercase_byte_aligned lower_char s"
  shows "aligned_with s (lower s)" "utf8 (lower s)"
proof -
  from lw u obtain ds where ds: "list_all2 (\<lambda>c d. d = concat (lower_char c) \<or> c = CAPITAL_SIGMA \<and> d = FINAL_SIGMA) (chars s) ds"
    and l: "lower s = concat ds" unfolding lowercases_def by blast
  have "list_all2 (\<lambda>c d. utf8_char d \<and> length d = length c) (chars s) ds"
  proof (rule list_all2_all_nthI)
    show "length (chars s) = length ds" using ds by (rule list_all2_lengthD)
    fix i assume i: "i < length (chars s)"
    let ?c = "chars s ! i"
    from u i have c: "utf8_char ?c" by (simp add: utf8_def list_all_length)
    with lw have lc: "list_all utf8_char (lower_char ?c)" by (simp add: lowercases_def)
    from al i have "case lower_char ?c of [lc] \<Rightarrow> length lc = length ?c | _ \<Rightarrow> False"
      by (simp add: is_lowercase_byte_aligned_def list_all_length)
    then obtain d where d: "lower_char ?c = [d]" "length d = length ?c" by (auto split: list.splits)
    from list_all2_nthD [OF ds i] show "utf8_char (ds ! i) \<and> length (ds ! i) = length ?c"
      using d lc final_sigma_char by (auto simp: CAPITAL_SIGMA_def FINAL_SIGMA_def)
  qed
  then have all: "list_all utf8_char ds" and len: "map length (chars s) = map length ds"
    by (auto simp: list_all2_conv_all_nth list_all_length intro: nth_equalityI)
  from chars_concat [OF all] l have cs: "chars (lower s) = ds" by simp
  with all show u': "utf8 (lower s)" by (simp add: utf8_def)
  from same_boundaries [OF u u'] len cs show "aligned_with s (lower s)" by (simp add: aligned_with_def)
qed

lemma utf8_between:
  assumes "utf8 s" "is_char_boundary s i" "is_char_boundary s j" "i \<le> j"
  shows "utf8 (take (j - i) (drop i s))"
proof -
  from assms have "utf8 (drop i s)" using utf8_split by blast
  moreover have "is_char_boundary (drop i s) (j - i)"
    using assms(3,4) boundary_le [OF assms(3)] by (auto simp: is_char_boundary_def)
  ultimately show ?thesis using utf8_split by blast
qed

lemma splice_utf8:
  "scan_ok lc needle start \<Longrightarrow> aligned_with tx lc \<Longrightarrow> utf8 tx \<Longrightarrow> utf8 canonical \<Longrightarrow> is_char_boundary tx cursor \<Longrightarrow>
     cursor \<le> start \<Longrightarrow> utf8 (splice tx (length needle) canonical cursor (word_matches alnum lc needle start))"
proof (induction alnum lc needle start arbitrary: cursor rule: word_matches.induct)
  case (1 alnum lc needle start)
  then have n: "needle \<noteq> []" by (simp add: scan_ok_def)
  show ?case
  proof (cases "find_sub (drop start lc) needle")
    case None
    with 1 n show ?thesis by (simp add: word_matches.simps [of alnum lc needle start] utf8_split)
  next
    case (Some rel)
    note b = match_boundaries [OF 1(3) Some]
    from 1(4) b have bt: "is_char_boundary tx (start + rel)" "is_char_boundary tx (start + rel + length needle)"
      by (simp_all add: aligned_with_def)
    show ?thesis
    proof (cases "word_at alnum lc (start + rel) (start + rel + length needle)")
      case True
      have "utf8 (take (start + rel - cursor) (drop cursor tx))"
        using utf8_between [OF 1(5,7) bt(1)] 1(8) by simp
      moreover note "1.IH"(1) [OF n Some True scan_ok_step(1) [OF 1(3) Some] 1(4,5,6) bt(2) order_refl]
      ultimately show ?thesis
        using True Some n 1(6) by (simp add: word_matches.simps [of alnum lc needle start] utf8_append)
    next
      case False
      have "cursor \<le> start + rel + first_char_len (drop (start + rel) lc)" using 1(8) by simp
      from "1.IH"(2) [OF n Some False scan_ok_step(2) [OF 1(3) Some] 1(4,5,6,7) this] False Some n show ?thesis
        by (simp add: word_matches.simps [of alnum lc needle start])
    qed
  qed
qed

section \<open>The decision, without loops\<close>

fun personal_rewrite ::
  "(rchar \<Rightarrow> bool) \<Rightarrow> (rchar \<Rightarrow> rchar list) \<Rightarrow> (string \<Rightarrow> string) \<Rightarrow> string \<Rightarrow> entity_ref list \<Rightarrow> string \<times> entity_ref list" where
  "personal_rewrite alnum lower_char lower cur [] = (cur, [])"
| "personal_rewrite alnum lower_char lower cur (e # es) =
     (case rewritten cur (length (er_key e)) (er_name e) (word_matches alnum (lower cur) (er_key e) 0) of
        None \<Rightarrow> personal_rewrite alnum lower_char lower cur es
      | Some u \<Rightarrow> if \<not> is_lowercase_byte_aligned lower_char u then (u, [e])
                  else (case personal_rewrite alnum lower_char lower u es of (v, rs) \<Rightarrow> (v, e # rs)))"

definition wf_entity :: "entity_ref \<Rightarrow> bool" where
  "wf_entity e \<longleftrightarrow> utf8 (er_name e) \<and> utf8 (er_key e)"

lemma contains_spec:
  "utf8 lc \<Longrightarrow> utf8 key \<Longrightarrow> word_boundary_contains_in_lowercased alnum lc key = Inr (word_matches alnum lc key 0 \<noteq> [])"
  by (cases "key = []")
     (simp_all add: word_boundary_contains_in_lowercased_def contains_loop.simps [of _ _ "[]"] word_matches.simps [of _ _ "[]"]
       contains_loop_spec scan_ok_def is_char_boundary_def)

lemma replace_spec:
  "utf8 lc \<Longrightarrow> utf8 key \<Longrightarrow> aligned_with tx lc \<Longrightarrow>
     replace_word_case_insensitive_with_lc alnum tx lc key canonical
       = Inr (rewritten tx (length key) canonical (word_matches alnum lc key 0))"
  by (cases "key = []")
     (simp_all add: replace_word_case_insensitive_with_lc_def replace_loop.simps [of _ _ _ "[]"] word_matches.simps [of _ _ "[]"]
       rewritten_def replace_loop_spec scan_ok_def is_char_boundary_def loop_result_def)

lemma rewritten_utf8:
  assumes "rewritten tx (length key) canonical (word_matches alnum lc key 0) = Some u"
    and "utf8 lc" "utf8 key" "aligned_with tx lc" "utf8 tx" "utf8 canonical"
  shows "utf8 u"
proof -
  from assms(1) have "key \<noteq> []" by (auto simp: rewritten_def word_matches.simps [of _ _ "[]"])
  with assms splice_utf8 [of lc key 0 tx canonical 0 alnum] show ?thesis
    by (auto simp: rewritten_def scan_ok_def is_char_boundary_def split: if_splits)
qed

lemma shared_scan_spec:
  "utf8 lc \<Longrightarrow> \<forall>e \<in> set es. wf_entity e \<Longrightarrow>
     shared_scan alnum lc es = Inr (find (\<lambda>e. word_matches alnum lc (er_key e) 0 \<noteq> []) es)"
  by (induction es) (simp_all add: contains_spec wf_entity_def)

lemma personal_rewrite_none: "personal_rewrite alnum lower_char lower cur es = (v, []) \<Longrightarrow> v = cur"
  by (induction es) (auto split: option.splits if_splits prod.splits)

lemma personal_scan_spec:
  assumes lw: "lowercases lower lower_char"
  shows "\<forall>e \<in> set es. wf_entity e \<Longrightarrow> utf8 cur \<Longrightarrow> is_lowercase_byte_aligned lower_char cur \<Longrightarrow>
     cur = (case owned of None \<Rightarrow> tx | Some s \<Rightarrow> s) \<Longrightarrow>
     personal_scan alnum lower_char lower tx owned (lower cur) rs es
       = (case personal_rewrite alnum lower_char lower cur es of
            (v, rs') \<Rightarrow> Inr (if rs' = [] then owned else Some v, rs @ rs'))"
proof (induction es arbitrary: cur owned rs)
  case Nil
  then show ?case by simp
next
  case (Cons e es)
  from aligned_lower [OF lw Cons.prems(2,3)] have al: "aligned_with cur (lower cur)" "utf8 (lower cur)" .
  from Cons.prems(1) have e: "utf8 (er_name e)" "utf8 (er_key e)" "\<forall>e \<in> set es. wf_entity e"
    by (simp_all add: wf_entity_def)
  note r = replace_spec [OF al(2) e(2) al(1), of alnum "er_name e"]
  show ?case
  proof (cases "rewritten cur (length (er_key e)) (er_name e) (word_matches alnum (lower cur) (er_key e) 0)")
    case None
    with r Cons.IH [OF e(3) Cons.prems(2,3,4)] Cons.prems(4) show ?thesis by (simp split: prod.splits)
  next
    case (Some u)
    have "utf8 u" by (rule rewritten_utf8 [OF Some al(2) e(2) al(1) Cons.prems(2) e(1)])
    with Some r Cons.IH [OF e(3) this, of "Some u" "rs @ [e]"] Cons.prems(4) show ?thesis
      by (auto split: prod.splits dest: personal_rewrite_none)
  qed
qed

lemma scan_text_spec:
  assumes "lowercases lower lower_char" "utf8 tx" "\<forall>e \<in> set (dc_shared cat) \<union> set (dc_personal cat). wf_entity e"
  shows "scan_text_with_catalogue alnum lower_char lower cat tx = Inr
    (if \<not> is_lowercase_byte_aligned lower_char tx then Proceed
     else case find (\<lambda>e. word_matches alnum (lower tx) (er_key e) 0 \<noteq> []) (dc_shared cat) of
       Some e \<Rightarrow> BlockedByShared e
     | None \<Rightarrow> (case personal_rewrite alnum lower_char lower tx (dc_personal cat) of
           (u, rs) \<Rightarrow> if rs = [] then Proceed else Rewritten u rs))"
proof (cases "is_lowercase_byte_aligned lower_char tx")
  case True
  from aligned_lower [OF assms(1,2) True] have "utf8 (lower tx)" by simp
  with shared_scan_spec [of "lower tx" "dc_shared cat" alnum] assms(3)
  have s: "shared_scan alnum (lower tx) (dc_shared cat)
      = Inr (find (\<lambda>e. word_matches alnum (lower tx) (er_key e) 0 \<noteq> []) (dc_shared cat))" by simp
  from personal_scan_spec [OF assms(1), of "dc_personal cat" tx tx None alnum "[]"] assms True
  have p: "personal_scan alnum lower_char lower tx None (lower tx) [] (dc_personal cat)
      = (case personal_rewrite alnum lower_char lower tx (dc_personal cat) of
           (v, rs) \<Rightarrow> Inr (if rs = [] then None else Some v, rs))" by simp
  from True s p show ?thesis
    by (auto simp: scan_text_with_catalogue_def Let_def split: option.splits prod.splits)
qed (simp add: scan_text_with_catalogue_def)

lemma scan_text_total:
  assumes "lowercases lower lower_char" "utf8 tx" "\<forall>e \<in> set (dc_shared cat) \<union> set (dc_personal cat). wf_entity e"
  shows "\<exists>r. scan_text_with_catalogue alnum lower_char lower cat tx = Inr r"
  using scan_text_spec [OF assms] by blast

section \<open>Properties\<close>

text \<open>C16. The duplicate check never panics, and decides by a specification without offsets or buffers: a
  text whose lowercasing does not keep byte lengths is let through; otherwise the first shared entity
  with a match at word boundaries blocks it; otherwise the personal entities are applied in order, each
  replacing exactly the accepted matches (the text between them is kept), and the result is a rewriting
  exactly when some match was spelled differently from its canonical name.\<close>

theorem scan_decides:
  assumes "lowercases lower lower_char" "utf8 tx" "\<forall>e \<in> set (dc_shared cat) \<union> set (dc_personal cat). wf_entity e"
  shows "scan_text_with_catalogue alnum lower_char lower cat tx = Inr
    (if \<not> is_lowercase_byte_aligned lower_char tx then Proceed
     else case find (\<lambda>e. word_matches alnum (lower tx) (er_key e) 0 \<noteq> []) (dc_shared cat) of
       Some e \<Rightarrow> BlockedByShared e
     | None \<Rightarrow> (case personal_rewrite alnum lower_char lower tx (dc_personal cat) of
           (u, rs) \<Rightarrow> if rs = [] then Proceed else Rewritten u rs))"
  using assms by (rule scan_text_spec)

text \<open>A lowercasing to compute with: ASCII, the sigma, the dotted capital I and the Kelvin sign.\<close>

definition sample_lower_char :: "rchar \<Rightarrow> rchar list" where
  "sample_lower_char c =
     (if c = CAPITAL_SIGMA then [SMALL_SIGMA]
      else if c = [CHR 0xC4, CHR 0xB0] then [''i'', [CHR 0xCC, CHR 0x87]]
      else if c = [CHR 0xE2, CHR 0x84, CHR 0xAA] then [''k'']
      else case c of [b] \<Rightarrow> (let n = (of_char b :: nat) in if 65 \<le> n \<and> n \<le> 90 then [[char_of (n + 32)]] else [c])
         | _ \<Rightarrow> [c])"

definition sample_lower :: "string \<Rightarrow> string" where
  "sample_lower s = concat (concat (map sample_lower_char (chars s)))"

definition ascii_letter :: "rchar \<Rightarrow> bool" where
  "ascii_letter c = (case c of [b] \<Rightarrow> (let n = (of_char b :: nat) in (65 \<le> n \<and> n \<le> 90) \<or> (97 \<le> n \<and> n \<le> 122))
     | _ \<Rightarrow> False)"

lemma sample_lowercases: "lowercases sample_lower sample_lower_char"
  unfolding lowercases_def
proof (intro conjI allI impI)
  fix s assume "utf8 s"
  have "concat (concat (map sample_lower_char cs)) = concat (map (\<lambda>c. concat (sample_lower_char c)) cs)" for cs
    by (induction cs) simp_all
  then show "\<exists>ds. list_all2 (\<lambda>c d. d = concat (sample_lower_char c) \<or> c = CAPITAL_SIGMA \<and> d = FINAL_SIGMA) (chars s) ds
      \<and> sample_lower s = concat ds"
    by (intro exI [of _ "map (\<lambda>c. concat (sample_lower_char c)) (chars s)"] conjI)
       (simp_all add: list_all2_map2 list_all2_same sample_lower_def)
next
  fix c assume c: "utf8_char c"
  have up: "utf8_char [char_of (n + 32)]" if "65 \<le> n" "n \<le> 90" for n :: nat
    using that by (simp add: utf8_char_def is_cont_def cont_count_def)
  show "list_all utf8_char (sample_lower_char c)"
    using c up by (auto simp: sample_lower_char_def SMALL_SIGMA_def utf8_char_def is_cont_def cont_count_def Let_def
        split: list.splits)
qed (simp add: sample_lower_char_def)

definition sample_catalogue :: dedup_catalogue where
  "sample_catalogue = \<lparr>dc_shared = [entity_new sample_lower ''Wiki'' ''Project'' ''shared''],
     dc_personal = [entity_new sample_lower ''Tea'' ''Topic'' ''u1'']\<rparr>"

lemma sample_keys:
  "entity_new sample_lower ''Wiki'' ''Project'' ''shared''
     = \<lparr>er_name = ''Wiki'', er_node_type = ''Project'', er_schema = ''shared'', er_key = ''wiki''\<rparr>"
  "entity_new sample_lower ''Tea'' ''Topic'' ''u1''
     = \<lparr>er_name = ''Tea'', er_node_type = ''Topic'', er_schema = ''u1'', er_key = ''tea''\<rparr>"
proof -
  have t: "trim ''Wiki'' = ''Wiki''" "trim ''Tea'' = ''Tea''"
    by (simp_all add: trim_def is_whitespace_def is_cont_def)
  have l: "sample_lower ''Wiki'' = ''wiki''" "sample_lower ''Tea'' = ''tea''"
    by (code_simp, code_simp)
  show "entity_new sample_lower ''Wiki'' ''Project'' ''shared''
     = \<lparr>er_name = ''Wiki'', er_node_type = ''Project'', er_schema = ''shared'', er_key = ''wiki''\<rparr>"
    "entity_new sample_lower ''Tea'' ''Topic'' ''u1''
     = \<lparr>er_name = ''Tea'', er_node_type = ''Topic'', er_schema = ''u1'', er_key = ''tea''\<rparr>"
    by (simp_all add: entity_new_def normalize_entity_key_def t l)
qed

lemma sample_scan_facts:
  "sample_lower ''a TEA'' = ''a tea''" "is_lowercase_byte_aligned sample_lower_char ''a TEA''"
  "is_lowercase_byte_aligned sample_lower_char ''a Tea''"
  "word_matches ascii_letter ''a tea'' ''wiki'' 0 = []" "word_matches ascii_letter ''a tea'' ''tea'' 0 = [2]"
  by (code_simp, code_simp, code_simp, code_simp, code_simp)

lemma scan_sample:
  "scan_text_with_catalogue ascii_letter sample_lower_char sample_lower sample_catalogue ''a TEA''
     = Inr (Rewritten ''a Tea'' (dc_personal sample_catalogue))"
proof -
  have u: "utf8 (sample_lower ''a TEA'')" "\<forall>e \<in> set (dc_shared sample_catalogue) \<union> set (dc_personal sample_catalogue). wf_entity e"
    by (simp_all add: sample_scan_facts sample_catalogue_def sample_keys wf_entity_def utf8_def utf8_char_def is_cont_def cont_count_def)
  have t: "utf8 ''a TEA''" by (simp add: utf8_def utf8_char_def is_cont_def cont_count_def)
  have s: "shared_scan ascii_letter (sample_lower ''a TEA'') (dc_shared sample_catalogue) = Inr None"
    using shared_scan_spec [OF u(1), of "dc_shared sample_catalogue" ascii_letter] u(2)
    by (simp add: sample_catalogue_def sample_keys sample_scan_facts)
  have p: "personal_scan ascii_letter sample_lower_char sample_lower ''a TEA'' None (sample_lower ''a TEA'') [] (dc_personal sample_catalogue)
      = Inr (Some ''a Tea'', dc_personal sample_catalogue)"
    using personal_scan_spec [OF sample_lowercases, of "dc_personal sample_catalogue" "''a TEA''" "''a TEA''" None ascii_letter "[]"] u(2) t
    by (simp add: sample_catalogue_def sample_keys sample_scan_facts rewritten_def)
  from s p show ?thesis
    by (simp add: scan_text_with_catalogue_def Let_def sample_scan_facts) (simp add: sample_catalogue_def)
qed

theorem scan_decides_witness:
  "scan_text_with_catalogue ascii_letter sample_lower_char sample_lower sample_catalogue ''a TEA''
     = Inr (Rewritten ''a Tea'' (dc_personal sample_catalogue))"
proof (subst scan_decides [OF sample_lowercases])
  show "utf8 ''a TEA''" by (simp add: utf8_def utf8_char_def is_cont_def cont_count_def)
  show "\<forall>e \<in> set (dc_shared sample_catalogue) \<union> set (dc_personal sample_catalogue). wf_entity e"
    by (simp add: sample_catalogue_def sample_keys wf_entity_def utf8_def utf8_char_def is_cont_def cont_count_def)
  show "Inr (if \<not> is_lowercase_byte_aligned sample_lower_char ''a TEA'' then Proceed
     else case find (\<lambda>e. word_matches ascii_letter (sample_lower ''a TEA'') (er_key e) 0 \<noteq> []) (dc_shared sample_catalogue) of
       Some e \<Rightarrow> BlockedByShared e
     | None \<Rightarrow> (case personal_rewrite ascii_letter sample_lower_char sample_lower ''a TEA'' (dc_personal sample_catalogue) of
           (u, rs) \<Rightarrow> if rs = [] then Proceed else Rewritten u rs))
    = Inr (Rewritten ''a Tea'' (dc_personal sample_catalogue))"
    by (simp add: sample_catalogue_def sample_keys sample_scan_facts rewritten_def)
qed

text \<open>The alignment guard is what keeps the slices inside characters, and comparing the total lengths
  would not do: for two dotted capital I and a Kelvin sign the lowercased text is as long as the text, yet
  the rewriting of the name \<open>K\<close> slices inside the Kelvin sign and panics; the guard rejects this text.\<close>

lemma length_guard_not_enough:
  "let tx = [CHR 0xC4, CHR 0xB0, CHR 0xC4, CHR 0xB0, CHR 0xE2, CHR 0x84, CHR 0xAA] in
     length (sample_lower tx) = length tx
     \<and> replace_word_case_insensitive_with_lc ascii_letter tx (sample_lower tx) ''k'' ''K'' = Inl BadSlice
     \<and> \<not> is_lowercase_byte_aligned sample_lower_char tx"
proof -
  let ?tx = "[CHR 0xC4, CHR 0xB0, CHR 0xC4, CHR 0xB0, CHR 0xE2, CHR 0x84, CHR 0xAA]"
  have "length (sample_lower ?tx) = length ?tx" by code_simp
  moreover have "replace_word_case_insensitive_with_lc ascii_letter ?tx (sample_lower ?tx) ''k'' ''K'' = Inl BadSlice"
    by code_simp
  moreover have "\<not> is_lowercase_byte_aligned sample_lower_char ?tx" by code_simp
  ultimately show ?thesis unfolding Let_def by blast
qed

end
