(* ===== verification/Vp_World.thy ===== *)
theory Vp_World
  imports Vp_Merge Vp_Dedup
begin

text \<open>
  The state a tool call acts on: the table \<open>tool_ownership\<close> with its database faults, the log of the
  requests sent to the services outside (the backend's gRPC methods and the Gemini API), and the
  clock in milliseconds. What a service answers is a parameter: a function of the request and of all
  requests before it, together with the time the call takes, so any service fits. \<open>tool_ownership.rs\<close>
  of \<open>vegapunk-memory-storage\<close> is modelled here too.
\<close>

section \<open>Requests and services\<close>

record list_jobs_request =
  lq_since_ms :: int
  lq_offset :: int
  lq_limit :: int

datatype request =
    RSearch search_request
  | RGetSchema string
  | RListSchemas
  | RIngest ingest_request
  | RIngestRaw ingest_raw_request
  | RQueryNodes query_nodes_request
  | RGetStats get_stats_request
  | RChain get_traceable_chain_request
  | RFeedback feedback_request
  | RJobStatus string
  | RListJobs list_jobs_request
  | RGemini string nat

type_synonym history = "request list"

datatype http_error = HttpFailed | HttpStatus nat | HttpNotJson

record services =
  sv_search :: "history \<Rightarrow> search_request \<Rightarrow> status + search_response"
  sv_get_schema :: "history \<Rightarrow> string \<Rightarrow> status + schema_item"
  sv_list_schemas :: "history \<Rightarrow> status + schema_item list"
  sv_ingest :: "history \<Rightarrow> ingest_request \<Rightarrow> status + ingest_response"
  sv_ingest_raw :: "history \<Rightarrow> ingest_raw_request \<Rightarrow> status + ingest_raw_response"
  sv_query_nodes :: "history \<Rightarrow> query_nodes_request \<Rightarrow> status + query_nodes_response"
  sv_get_stats :: "history \<Rightarrow> get_stats_request \<Rightarrow> status + stats_response"
  sv_chain :: "history \<Rightarrow> get_traceable_chain_request \<Rightarrow> status + chain_link list"
  sv_feedback :: "history \<Rightarrow> feedback_request \<Rightarrow> status + unit"
  sv_job_status :: "history \<Rightarrow> string \<Rightarrow> status + job_status_response"
  sv_list_jobs :: "history \<Rightarrow> list_jobs_request \<Rightarrow> status + list_jobs_response"
  sv_gemini :: "history \<Rightarrow> string \<Rightarrow> nat \<Rightarrow> http_error + json"
  sv_delay :: "history \<Rightarrow> nat"

record ownership =
  ow_kind :: string
  ow_foreign_id :: string
  ow_user :: string

record world =
  wd_owned :: "ownership list"
  wd_users :: "string list"
  wd_faults :: "bool list"
  wd_log :: history
  wd_time :: nat

type_synonym 'a run = "world \<Rightarrow> 'a \<times> world"

text \<open>One call: it is logged, takes its time and answers.\<close>

definition send :: "services \<Rightarrow> request \<Rightarrow> (history \<Rightarrow> 'a) \<Rightarrow> 'a run" where
  "send sv q f w = (let h = wd_log w in (f h, w\<lparr>wd_log := h @ [q], wd_time := wd_time w + sv_delay sv h\<rparr>))"

text \<open>\<open>tokio::time::timeout(limit, call)\<close>: the call is sent; \<open>None\<close> when it takes longer than the limit.\<close>

definition send_within :: "services \<Rightarrow> nat \<Rightarrow> request \<Rightarrow> (history \<Rightarrow> 'a) \<Rightarrow> 'a option run" where
  "send_within sv limit q f w =
     (let h = wd_log w; d = sv_delay sv h in
      (if d \<le> limit then Some (f h) else None, w\<lparr>wd_log := h @ [q], wd_time := wd_time w + min d limit\<rparr>))"

definition sleep :: "nat \<Rightarrow> unit run" where
  "sleep ms w = ((), w\<lparr>wd_time := wd_time w + ms\<rparr>)"

section \<open>tool_ownership.rs\<close>

datatype ownership_kind = Search | Msg

fun kind_as_str :: "ownership_kind \<Rightarrow> string" where
  "kind_as_str Search = ''search''"
| "kind_as_str Msg = ''msg''"

datatype sql_error = SqlFailed

definition sql :: "(world \<Rightarrow> (sql_error + 'a) \<times> world) \<Rightarrow> (sql_error + 'a) run" where
  "sql f w = (case wd_faults w of [] \<Rightarrow> f w
     | b # bs \<Rightarrow> (if b then (Inl SqlFailed, w\<lparr>wd_faults := bs\<rparr>) else f (w\<lparr>wd_faults := bs\<rparr>)))"

definition owner_row :: "ownership_kind \<Rightarrow> string \<Rightarrow> ownership \<Rightarrow> bool" where
  "owner_row k fid r \<longleftrightarrow> ow_kind r = kind_as_str k \<and> ow_foreign_id r = fid"

text \<open>\<open>INSERT OR IGNORE\<close>: the number of rows inserted; the foreign key on the user is not ignored.\<close>

definition insert_or_ignore :: "ownership_kind \<Rightarrow> string \<Rightarrow> string \<Rightarrow> (sql_error + nat) run" where
  "insert_or_ignore k fid u =
     sql (\<lambda>w. if \<exists>r \<in> set (wd_owned w). owner_row k fid r then (Inr 0, w)
              else if u \<notin> set (wd_users w) then (Inl SqlFailed, w)
              else (Inr 1, w\<lparr>wd_owned := wd_owned w @ [\<lparr>ow_kind = kind_as_str k, ow_foreign_id = fid, ow_user = u\<rparr>]\<rparr>))"

definition verify :: "ownership_kind \<Rightarrow> string \<Rightarrow> string \<Rightarrow> (sql_error + bool) run" where
  "verify k fid u =
     sql (\<lambda>w. (Inr (case find (owner_row k fid) (wd_owned w) of None \<Rightarrow> False | Some r \<Rightarrow> ow_user r = u), w))"

definition record_owner :: "ownership_kind \<Rightarrow> string \<Rightarrow> string \<Rightarrow> (sql_error + bool) run" where
  "record_owner k fid u =
     seqA (insert_or_ignore k fid u) (\<lambda>n. if n = 1 then okA True else verify k fid u)"

text \<open>The transaction of \<open>record_many\<close>: when a statement or the commit fails, the table is as before.\<close>

fun insert_all :: "ownership_kind \<Rightarrow> string list \<Rightarrow> string \<Rightarrow> (sql_error + unit) run" where
  "insert_all k [] u = okA ()"
| "insert_all k (fid # fids) u = seqA (insert_or_ignore k fid u) (\<lambda>_. insert_all k fids u)"

fun verify_all :: "ownership_kind \<Rightarrow> string list \<Rightarrow> string \<Rightarrow> (sql_error + bool) run" where
  "verify_all k [] u = okA True"
| "verify_all k (fid # fids) u = seqA (verify k fid u) (\<lambda>b. if b then verify_all k fids u else okA False)"

definition in_transaction :: "(sql_error + unit) run \<Rightarrow> (sql_error + unit) run" where
  "in_transaction body w =
     (case seqA (sql (\<lambda>w. (Inr (), w))) (\<lambda>_. seqA body (\<lambda>_. sql (\<lambda>w. (Inr (), w)))) w of
        (Inr x, w') \<Rightarrow> (Inr x, w')
      | (Inl e, w') \<Rightarrow> (Inl e, w'\<lparr>wd_owned := wd_owned w\<rparr>))"

definition record_many :: "ownership_kind \<Rightarrow> string list \<Rightarrow> string \<Rightarrow> (sql_error + bool) run" where
  "record_many k fids u =
     (if fids = [] then okA True
      else seqA (in_transaction (insert_all k fids u)) (\<lambda>_. verify_all k fids u))"

section \<open>Who owns an identifier\<close>

definition owned_by :: "world \<Rightarrow> ownership_kind \<Rightarrow> string \<Rightarrow> string \<Rightarrow> bool" where
  "owned_by w k fid u \<longleftrightarrow> (\<exists>r. find (owner_row k fid) (wd_owned w) = Some r \<and> ow_user r = u)"

lemma find_append_some: "find P xs = Some x \<Longrightarrow> find P (xs @ ys) = Some x"
  by (induction xs) auto

lemma kind_as_str_inj [simp]: "kind_as_str a = kind_as_str b \<longleftrightarrow> a = b"
  by (cases a; cases b) simp_all

text \<open>What later steps keep: rows are only added at the end of the table, requests at the end of the log.\<close>

definition extends :: "world \<Rightarrow> world \<Rightarrow> bool" where
  "extends w w' \<longleftrightarrow> (\<exists>xs. wd_owned w' = wd_owned w @ xs) \<and> (\<exists>ys. wd_log w' = wd_log w @ ys) \<and> wd_time w \<le> wd_time w'
     \<and> wd_users w' = wd_users w"

lemma extends_refl [simp]: "extends w w"
  by (simp add: extends_def)

lemma extends_trans: "extends w w' \<Longrightarrow> extends w' w'' \<Longrightarrow> extends w w''"
  by (fastforce simp: extends_def)

lemma owned_by_extends: "extends w w' \<Longrightarrow> owned_by w k fid u \<Longrightarrow> owned_by w' k fid u"
  by (auto simp: extends_def owned_by_def find_append_some)

lemma sql_cases:
  assumes "sql f w = (r, w')"
  obtains "r = Inl SqlFailed" "w' = w\<lparr>wd_faults := tl (wd_faults w)\<rparr>"
  | fs where "f (w\<lparr>wd_faults := fs\<rparr>) = (r, w')"
proof (cases "wd_faults w")
  case Nil
  then have "w\<lparr>wd_faults := []\<rparr> = w" by simp
  with assms Nil that(2) [of "[]"] show ?thesis by (simp add: sql_def)
next
  case (Cons b bs)
  show ?thesis
  proof (cases b)
    case True
    with assms Cons have "r = Inl SqlFailed" "w' = w\<lparr>wd_faults := tl (wd_faults w)\<rparr>" by (simp_all add: sql_def)
    then show ?thesis by (rule that(1))
  next
    case False
    with assms Cons have "f (w\<lparr>wd_faults := bs\<rparr>) = (r, w')" by (simp add: sql_def)
    then show ?thesis by (rule that(2))
  qed
qed

lemma verify_result: "verify k fid u w = (r, w') \<Longrightarrow>
    wd_owned w' = wd_owned w \<and> wd_log w' = wd_log w \<and> wd_time w' = wd_time w \<and> wd_users w' = wd_users w
    \<and> (r = Inl SqlFailed \<or> r = Inr (owned_by w k fid u))"
  unfolding verify_def by (erule sql_cases) (auto simp: owned_by_def split: option.splits)

lemma insert_result:
  assumes "insert_or_ignore k fid u w = (r, w')"
  shows "wd_log w' = wd_log w \<and> wd_time w' = wd_time w \<and> wd_users w' = wd_users w
    \<and> (r = Inl SqlFailed \<and> wd_owned w' = wd_owned w
       \<or> r = Inr 0 \<and> wd_owned w' = wd_owned w \<and> (\<exists>r \<in> set (wd_owned w). owner_row k fid r)
       \<or> r = Inr 1 \<and> (\<forall>r \<in> set (wd_owned w). \<not> owner_row k fid r) \<and> u \<in> set (wd_users w)
         \<and> wd_owned w' = wd_owned w @ [\<lparr>ow_kind = kind_as_str k, ow_foreign_id = fid, ow_user = u\<rparr>])"
  using assms unfolding insert_or_ignore_def by (elim sql_cases) (auto split: if_splits)

section \<open>Steps that only add\<close>

abbreviation grows :: "(world \<Rightarrow> 'r \<times> world) \<Rightarrow> bool" where
  "grows m \<equiv> (\<forall>w\<^sub>0. keeps (extends w\<^sub>0) m)"

lemma growsI: "(\<And>w r w'. m w = (r, w') \<Longrightarrow> extends w w') \<Longrightarrow> grows m"
  by (auto simp: keeps_def intro: extends_trans) (metis extends_trans prod.collapse)

lemma growsD: "grows m \<Longrightarrow> m w = (r, w') \<Longrightarrow> extends w w'"
  by (metis extends_refl keepsD)

lemma insert_grows: "grows (insert_or_ignore k fid u)"
  by (rule growsI, drule insert_result) (auto simp: extends_def)

lemma verify_grows: "grows (verify k fid u)"
  by (rule growsI, drule verify_result) (auto simp: extends_def)

lemma insert_all_grows: "grows (insert_all k fids u)"
  by (induction fids) (auto simp: insert_grows)

lemma verify_all_grows: "grows (verify_all k fids u)"
  by (induction fids) (auto simp: verify_grows)

lemma tick_grows: "grows (sql (\<lambda>w. (Inr (), w)))"
  by (rule growsI, erule sql_cases) (auto simp: extends_def)

lemma transaction_grows:
  assumes "grows body"
  shows "grows (in_transaction body)"
proof (rule growsI)
  fix w r w' assume r: "in_transaction body w = (r, w')"
  let ?m = "seqA (sql (\<lambda>w. (Inr (), w))) (\<lambda>_. seqA body (\<lambda>_. sql (\<lambda>w. (Inr (), w))))"
  obtain s v where s: "?m w = (s, v)" by fastforce
  have "grows ?m" using assms tick_grows by blast
  then have e: "extends w v" using s by (rule growsD)
  show "extends w w'"
  proof (cases s)
    case (Inl x)
    with r s have "w' = v\<lparr>wd_owned := wd_owned w\<rparr>" by (simp add: in_transaction_def)
    with e show ?thesis by (simp add: extends_def)
  next
    case (Inr x)
    with r s e show ?thesis by (simp add: in_transaction_def)
  qed
qed

lemma record_grows: "grows (record_owner k fid u)"
  unfolding record_owner_def using insert_grows verify_grows by auto

lemma record_many_grows: "grows (record_many k fids u)"
  unfolding record_many_def using transaction_grows [OF insert_all_grows] verify_all_grows by auto

text \<open>A recorder that answers \<open>true\<close> left the identifier with its user.\<close>

lemma find_append_none: "find P xs = None \<Longrightarrow> find P (xs @ ys) = find P ys"
  by (induction xs) auto

lemma record_true:
  assumes "record_owner k fid u w = (Inr True, w')"
  shows "owned_by w' k fid u"
  using assms unfolding record_owner_def
proof (elim seqA_cases)
  fix n w1
  assume i: "insert_or_ignore k fid u w = (Inr n, w1)"
    and v: "(if n = 1 then okA True else verify k fid u) w1 = (Inr True, w')"
  show "owned_by w' k fid u"
  proof (cases "n = 1")
    case True
    with insert_result [OF i] v have none: "find (owner_row k fid) (wd_owned w) = None"
      and own: "wd_owned w' = wd_owned w @ [\<lparr>ow_kind = kind_as_str k, ow_foreign_id = fid, ow_user = u\<rparr>]"
      by (auto simp: find_None_iff)
    show ?thesis by (simp add: owned_by_def own find_append_none [OF none] owner_row_def)
  next
    case False
    with v have "verify k fid u w1 = (Inr True, w')" by simp
    from verify_result [OF this] show ?thesis by (auto simp: owned_by_def)
  qed
qed simp

lemma verify_all_true:
  "verify_all k fids u w = (Inr True, w') \<Longrightarrow> \<forall>fid \<in> set fids. owned_by w' k fid u"
proof (induction fids arbitrary: w)
  case (Cons fid fids)
  from Cons.prems show ?case
    unfolding verify_all.simps
  proof (elim seqA_cases)
    fix b w1
    assume v: "verify k fid u w = (Inr b, w1)" and r: "(if b then verify_all k fids u else okA False) w1 = (Inr True, w')"
    from r have b: "b" by (cases b) simp_all
    with r have va: "verify_all k fids u w1 = (Inr True, w')" by simp
    from verify_result [OF v] b have "owned_by w1 k fid u" by (auto simp: owned_by_def)
    with Cons.IH [OF va] owned_by_extends [OF growsD [OF verify_all_grows va]] show ?thesis by simp
  qed simp
qed simp

lemma record_many_true:
  assumes "record_many k fids u w = (Inr True, w')"
  shows "\<forall>fid \<in> set fids. owned_by w' k fid u"
proof (cases "fids = []")
  case False
  with assms have "seqA (in_transaction (insert_all k fids u)) (\<lambda>_. verify_all k fids u) w = (Inr True, w')"
    by (simp add: record_many_def)
  then show ?thesis by (elim seqA_cases) (use verify_all_true in blast)+
qed simp

section \<open>The registry contract\<close>

text \<open>A registry gives each identifier to the first who claims it, for good.\<close>

locale registry =
  fixes step :: "'s \<Rightarrow> 'op \<Rightarrow> 'r \<times> 's"
    and owner :: "'s \<Rightarrow> 'k \<Rightarrow> 'u option"
    and claims :: "'op \<Rightarrow> 'k \<Rightarrow> 'u \<Rightarrow> bool"
    and granted :: "'r \<Rightarrow> bool"
  assumes owner_stays: "owner s k = Some u \<Longrightarrow> owner (snd (step s op)) k = Some u"
    and granted_owns: "granted (fst (step s op)) \<Longrightarrow> claims op k u \<Longrightarrow> owner (snd (step s op)) k = Some u"
begin

fun after :: "'s \<Rightarrow> 'op list \<Rightarrow> 's" where
  "after s [] = s"
| "after s (op # ops) = after (snd (step s op)) ops"

lemma owner_after: "owner s k = Some u \<Longrightarrow> owner (after s ops) k = Some u"
  by (induction ops arbitrary: s) (simp_all add: owner_stays)

lemma denied_to_others:
  "owner s k = Some u \<Longrightarrow> claims op k v \<Longrightarrow> granted (fst (step (after s ops) op)) \<Longrightarrow> v = u"
  using owner_stays [OF owner_after] granted_owns by (metis option.inject)

end

datatype own_op =
    Record ownership_kind string string
  | RecordMany ownership_kind "string list" string
  | Verify ownership_kind string string

fun own_step :: "world \<Rightarrow> own_op \<Rightarrow> (sql_error + bool) \<times> world" where
  "own_step w (Record k fid u) = record_owner k fid u w"
| "own_step w (RecordMany k fids u) = record_many k fids u w"
| "own_step w (Verify k fid u) = verify k fid u w"

definition owner_of :: "world \<Rightarrow> ownership_kind \<times> string \<Rightarrow> string option" where
  "owner_of w key = map_option ow_user (find (owner_row (fst key) (snd key)) (wd_owned w))"

definition own_claims :: "own_op \<Rightarrow> ownership_kind \<times> string \<Rightarrow> string \<Rightarrow> bool" where
  "own_claims op key u = (case op of
       Record k fid v \<Rightarrow> key = (k, fid) \<and> u = v
     | RecordMany k fids v \<Rightarrow> fst key = k \<and> snd key \<in> set fids \<and> u = v
     | Verify k fid v \<Rightarrow> key = (k, fid) \<and> u = v)"

lemma owner_of_owned: "owner_of w (k, fid) = Some u \<longleftrightarrow> owned_by w k fid u"
  by (auto simp: owner_of_def owned_by_def)

lemma own_step_extends: "extends w (snd (own_step w op))"
  by (cases op) (auto intro: growsD [OF record_grows] growsD [OF record_many_grows] growsD [OF verify_grows] prod.collapse [symmetric])

interpretation own: registry own_step owner_of own_claims "\<lambda>r. r = Inr True"
proof
  fix w k u op assume "owner_of w k = Some u"
  then show "owner_of (snd (own_step w op)) k = Some u"
    using owned_by_extends [OF own_step_extends] by (cases k) (auto simp: owner_of_owned)
next
  fix w op key u assume g: "fst (own_step w op) = Inr True" and c: "own_claims op key u"
  obtain w' where w': "own_step w op = (Inr True, w')" using g by (metis prod.collapse)
  then show "owner_of (snd (own_step w op)) key = Some u"
    using c by (cases op; cases key)
      (auto simp: own_claims_def owner_of_owned dest: record_true record_many_true,
       auto simp: owned_by_def dest!: verify_result)
qed

definition own_run :: "world \<Rightarrow> own_op list \<Rightarrow> world" where
  "own_run w ops = foldl (\<lambda>w op. snd (own_step w op)) w ops"

lemma own_run_after: "own_run w ops = own.after w ops"
  by (induction ops arbitrary: w) (simp_all add: own_run_def)

section \<open>Property\<close>

text \<open>C12. The first user an identifier is recorded for keeps it whatever follows: after any sequence of recordings
  and checks by any users, with any database failures (a failed batch leaves the table as it was), a
  recording or check that answers \<open>true\<close> to some user can only have been that first user's, and a failed
  or refused recording never takes the identifier away.\<close>

theorem ownership_first_claim:
  assumes "own_step w op = (Inr True, w')" "own_claims op (k, fid) u"
  shows "owned_by (own_run w' ops) k fid u
    \<and> (\<forall>op' w'' v. own_step (own_run w' ops) op' = (Inr True, w'') \<and> own_claims op' (k, fid) v \<longrightarrow> v = u)"
proof -
  have o: "owner_of w' (k, fid) = Some u"
    using own.granted_owns [of w op "(k, fid)" u] assms by simp
  show ?thesis
    using own.owner_after [OF o, of ops] own.denied_to_others [OF o, of _ _ ops]
    by (auto simp: own_run_after owner_of_owned)
qed

theorem ownership_first_claim_witness:
  "owned_by (own_run \<lparr>wd_owned = [\<lparr>ow_kind = ''search'', ow_foreign_id = ''s1'', ow_user = ''u1''\<rparr>], wd_users = [''u1'', ''u2''],
       wd_faults = [], wd_log = [], wd_time = 0\<rparr> [Record Search ''s1'' ''u2'']) Search ''s1'' ''u1''"
  using ownership_first_claim [where w = "\<lparr>wd_owned = [], wd_users = [''u1'', ''u2''], wd_faults = [], wd_log = [], wd_time = 0\<rparr>"
      and op = "Record Search ''s1'' ''u1''" and k = Search and fid = "''s1''" and u = "''u1''"
      and ops = "[Record Search ''s1'' ''u2'']"]
  by (simp add: record_owner_def insert_or_ignore_def sql_def seqA_def own_claims_def)

end
