(* ===== verification/Vp_Serializer.thy ===== *)
theory Vp_Serializer
  imports Vp_World
begin

text \<open>
  \<open>ingest_serializer.rs\<close> and \<open>acquire_ingest_serializer\<close>: ingestions of one schema run one after the other.
  Any number of tasks (numbered) run the handler's prologue at once; the schema of task \<open>t\<close> is
  \<open>want t\<close>. \<open>tokio::sync::Mutex\<close> is documented to be fair: the tasks that called \<open>lock\<close> get it in that
  order, so a lock is the queue of its callers with the holder in front. A task may be cancelled
  anywhere before it holds the lock, and leaves the lock on every way out of the handler.
\<close>

section \<open>The serializer and its tasks\<close>

datatype phase = Arriving | HasArc nat | Queued nat | Inside nat | Gone

record serializer =
  sz_schemas :: "(string \<times> nat) list"
  sz_next :: nat
  sz_queues :: "nat \<Rightarrow> nat list"
  sz_phase :: "nat \<Rightarrow> phase"
  sz_log :: "(nat \<times> string) list"

definition new_serializer :: serializer where
  "new_serializer = \<lparr>sz_schemas = [], sz_next = 0, sz_queues = \<lambda>_. [], sz_phase = \<lambda>_. Arriving, sz_log = []\<rparr>"

definition lock_for :: "string \<Rightarrow> serializer \<Rightarrow> nat \<times> serializer" where
  "lock_for schema s = (case map_of (sz_schemas s) schema of
       Some existing \<Rightarrow> (existing, s)
     | None \<Rightarrow> (sz_next s, s\<lparr>sz_schemas := (schema, sz_next s) # sz_schemas s, sz_next := Suc (sz_next s)\<rparr>))"

definition set_phase :: "nat \<Rightarrow> phase \<Rightarrow> serializer \<Rightarrow> serializer" where
  "set_phase t p s = s\<lparr>sz_phase := (sz_phase s)(t := p)\<rparr>"

definition set_queue :: "nat \<Rightarrow> nat list \<Rightarrow> serializer \<Rightarrow> serializer" where
  "set_queue l q s = s\<lparr>sz_queues := (sz_queues s)(l := q)\<rparr>"

text \<open>
  The steps of \<open>acquire_ingest_serializer\<close>: fetch the lock, call \<open>lock_owned\<close>, get it; then the
  backend calls of the handler (each is logged), and the end of the guard's scope.
\<close>

inductive ser_step :: "(nat \<Rightarrow> string) \<Rightarrow> serializer \<Rightarrow> serializer \<Rightarrow> bool" for want where
  fetch: "sz_phase s t = Arriving \<Longrightarrow> lock_for (want t) s = (l, s1) \<Longrightarrow> ser_step want s (set_phase t (HasArc l) s1)"
| join: "sz_phase s t = HasArc l \<Longrightarrow> ser_step want s (set_phase t (Queued l) (set_queue l (sz_queues s l @ [t]) s))"
| enter: "sz_phase s t = Queued l \<Longrightarrow> sz_queues s l = t # q \<Longrightarrow> ser_step want s (set_phase t (Inside l) s)"
| act: "sz_phase s t = Inside l \<Longrightarrow> ser_step want s (s\<lparr>sz_log := sz_log s @ [(t, want t)]\<rparr>)"
| leave: "sz_phase s t = Inside l \<Longrightarrow> ser_step want s (set_phase t Gone (set_queue l (remove1 t (sz_queues s l)) s))"
| cancel: "sz_phase s t = Queued l \<Longrightarrow> ser_step want s (set_phase t Gone (set_queue l (remove1 t (sz_queues s l)) s))"
| give_up: "sz_phase s t = Arriving \<or> sz_phase s t = HasArc l \<Longrightarrow> ser_step want s (set_phase t Gone s)"

inductive_cases ser_stepE: "ser_step want s s'"

inductive ser_reach :: "(nat \<Rightarrow> string) \<Rightarrow> serializer \<Rightarrow> bool" for want where
  start: "ser_reach want new_serializer"
| step: "ser_reach want s \<Longrightarrow> ser_step want s s' \<Longrightarrow> ser_reach want s'"

section \<open>The abstract serializer: one queue per schema\<close>

text \<open>The specification knows no locks: a request joins the queue of its schema at the end, or leaves it.\<close>

definition queue_of :: "serializer \<Rightarrow> string \<Rightarrow> nat list" where
  "queue_of s k = (case map_of (sz_schemas s) k of None \<Rightarrow> [] | Some l \<Rightarrow> sz_queues s l)"

inductive queue_step :: "(nat \<Rightarrow> string) \<Rightarrow> (string \<Rightarrow> nat list) \<Rightarrow> (string \<Rightarrow> nat list) \<Rightarrow> bool" for want where
  joins: "t \<notin> set (Q (want t)) \<Longrightarrow> queue_step want Q (Q(want t := Q (want t) @ [t]))"
| leaves: "t \<in> set (Q (want t)) \<Longrightarrow> queue_step want Q (Q(want t := remove1 t (Q (want t))))"

section \<open>Invariants\<close>

definition locks_inv :: "serializer \<Rightarrow> bool" where
  "locks_inv s \<longleftrightarrow> distinct (map snd (sz_schemas s)) \<and> (\<forall>kl \<in> set (sz_schemas s). snd kl < sz_next s)
     \<and> (\<forall>l \<ge> sz_next s. sz_queues s l = [])"

definition queues_inv :: "(nat \<Rightarrow> string) \<Rightarrow> serializer \<Rightarrow> bool" where
  "queues_inv want s \<longleftrightarrow>
     (\<forall>t l. sz_phase s t \<in> {HasArc l, Queued l, Inside l} \<longrightarrow> map_of (sz_schemas s) (want t) = Some l)
     \<and> (\<forall>t l. t \<in> set (sz_queues s l) \<longleftrightarrow> sz_phase s t \<in> {Queued l, Inside l})
     \<and> (\<forall>l. distinct (sz_queues s l))
     \<and> (\<forall>t l. sz_phase s t = Inside l \<longrightarrow> (\<exists>q. sz_queues s l = t # q))"

lemma locks_injective:
  assumes "locks_inv s" "map_of (sz_schemas s) k = Some l" "map_of (sz_schemas s) k' = Some l"
  shows "k = k'"
proof -
  from assms(2,3) have "(k, l) \<in> set (sz_schemas s)" "(k', l) \<in> set (sz_schemas s)" by (auto dest: map_of_SomeD)
  with assms(1) show ?thesis unfolding locks_inv_def by (metis eq_key_imp_eq_value distinct_map inj_onD prod.inject snd_conv)
qed

lemma lock_for_result:
  assumes "lock_for k s = (l, s1)" "locks_inv s"
  shows "locks_inv s1" "map_of (sz_schemas s1) k = Some l" "sz_queues s1 = sz_queues s" "sz_phase s1 = sz_phase s"
    "sz_log s1 = sz_log s" "map_of (sz_schemas s) k' = Some l' \<Longrightarrow> map_of (sz_schemas s1) k' = Some l'"
    "queue_of s1 = queue_of s"
proof -
  have "locks_inv s1 \<and> map_of (sz_schemas s1) k = Some l \<and> sz_queues s1 = sz_queues s \<and> sz_phase s1 = sz_phase s
      \<and> sz_log s1 = sz_log s \<and> (map_of (sz_schemas s) k' = Some l' \<longrightarrow> map_of (sz_schemas s1) k' = Some l')
      \<and> queue_of s1 = queue_of s"
  proof (cases "map_of (sz_schemas s) k")
    case None
    with assms have e: "l = sz_next s" "s1 = s\<lparr>sz_schemas := (k, sz_next s) # sz_schemas s, sz_next := Suc (sz_next s)\<rparr>"
      by (auto simp: lock_for_def)
    have "locks_inv s1"
      using assms(2) unfolding e locks_inv_def by (auto simp: less_Suc_eq)
    moreover have "queue_of s1 = queue_of s"
      using None assms(2) unfolding e by (auto simp: queue_of_def locks_inv_def fun_eq_iff split: option.splits)
    ultimately show ?thesis using None e by auto
  next
    case (Some l0)
    with assms show ?thesis by (simp add: lock_for_def)
  qed
  then show "locks_inv s1" "map_of (sz_schemas s1) k = Some l" "sz_queues s1 = sz_queues s" "sz_phase s1 = sz_phase s"
    "sz_log s1 = sz_log s" "map_of (sz_schemas s) k' = Some l' \<Longrightarrow> map_of (sz_schemas s1) k' = Some l'"
    "queue_of s1 = queue_of s" by blast+
qed

lemma new_inv: "locks_inv new_serializer" "queues_inv want new_serializer"
  by (simp_all add: locks_inv_def queues_inv_def new_serializer_def)


lemma queue_of_set_queue:
  assumes "locks_inv s" "map_of (sz_schemas s) k = Some l"
  shows "queue_of (set_queue l q s) = (queue_of s)(k := q)"
proof
  fix k'
  show "queue_of (set_queue l q s) k' = ((queue_of s)(k := q)) k'"
  proof (cases "k' = k")
    case True
    with assms(2) show ?thesis by (simp add: queue_of_def set_queue_def)
  next
    case False
    then have "map_of (sz_schemas s) k' \<noteq> Some l" using locks_injective [OF assms] by blast
    with False show ?thesis by (simp add: queue_of_def set_queue_def split: option.splits)
  qed
qed

lemma queue_of_set_phase [simp]: "queue_of (set_phase t p s) = queue_of s"
  by (simp add: queue_of_def set_phase_def fun_eq_iff split: option.splits)

lemma locks_set_phase [simp]: "locks_inv (set_phase t p s) = locks_inv s"
  by (simp add: locks_inv_def set_phase_def)

lemma locks_set_queue: "locks_inv s \<Longrightarrow> map_of (sz_schemas s) k = Some l \<Longrightarrow> locks_inv (set_queue l q s)"
  by (fastforce simp: locks_inv_def set_queue_def dest: map_of_SomeD)

lemma queues_lockD:
  "queues_inv want s \<Longrightarrow> sz_phase s t = HasArc l \<or> sz_phase s t = Queued l \<or> sz_phase s t = Inside l \<Longrightarrow>
     map_of (sz_schemas s) (want t) = Some l"
  by (auto simp: queues_inv_def)

lemma queues_memD: "queues_inv want s \<Longrightarrow> t \<in> set (sz_queues s l) \<longleftrightarrow> sz_phase s t = Queued l \<or> sz_phase s t = Inside l"
  by (auto simp: queues_inv_def)

lemma queues_headD: "queues_inv want s \<Longrightarrow> sz_phase s t = Inside l \<Longrightarrow> \<exists>q. sz_queues s l = t # q"
  by (auto simp: queues_inv_def)

lemma queues_distinctD: "queues_inv want s \<Longrightarrow> distinct (sz_queues s l)"
  by (auto simp: queues_inv_def)

text \<open>Leaving a queue: nobody else is affected, and the head stays the head.\<close>

lemma queues_inv_removed:
  assumes i: "queues_inv want s" and p: "sz_phase s t = Queued l \<or> sz_phase s t = Inside l"
  shows "queues_inv want (set_phase t Gone (set_queue l (remove1 t (sz_queues s l)) s))" (is "queues_inv want ?s")
proof -
  have d: "distinct (sz_queues s l)" using queues_distinctD [OF i] .
  have ph: "sz_phase ?s x = (if x = t then Gone else sz_phase s x)"
    and qu: "sz_queues ?s l' = (if l' = l then remove1 t (sz_queues s l) else sz_queues s l')"
    and sc: "sz_schemas ?s = sz_schemas s" for x l'
    by (simp_all add: set_phase_def set_queue_def)
  have h: "\<exists>q. sz_queues ?s l' = x # q" if "sz_phase ?s x = Inside l'" for x l'
    using that queues_headD [OF i, of x l'] by (auto simp: ph qu split: if_splits)
  show ?thesis
    unfolding queues_inv_def
    using h d p queues_lockD [OF i] queues_memD [OF i] queues_distinctD [OF i]
    by (auto simp: ph qu sc distinct_remove1)
qed

lemma ser_step_inv:
  assumes "ser_step want s s'" "locks_inv s" "queues_inv want s"
  shows "locks_inv s' \<and> queues_inv want s'"
  using assms(1)
proof (cases rule: ser_step.cases)
  case (fetch t l s1)
  note r = lock_for_result [OF fetch(3) assms(2)]
  have "queues_inv want s'"
    using assms(3) r(2,6) fetch(2) unfolding fetch(1) queues_inv_def by (auto simp: set_phase_def r)
  with r(1) fetch(1) show ?thesis by simp
next
  case (join t l)
  have m: "map_of (sz_schemas s) (want t) = Some l" using queues_lockD [OF assms(3)] join(2) by blast
  have "t \<notin> set (sz_queues s l')" for l' using queues_memD [OF assms(3), of t l'] join(2) by simp
  then have "queues_inv want s'"
    using assms(3) m join(2) unfolding join(1) queues_inv_def
    by (auto simp: set_phase_def set_queue_def) (metis append_Cons)+
  with locks_set_queue [OF assms(2) m] join(1) show ?thesis by simp
next
  case (enter t l q)
  have m: "map_of (sz_schemas s) (want t) = Some l" using queues_lockD [OF assms(3)] enter(2) by blast
  then have "queues_inv want s'"
    using assms(3) enter(2,3) unfolding enter(1) queues_inv_def by (auto simp: set_phase_def)
  with assms(2) enter(1) show ?thesis by simp
next
  case (act t l)
  with assms(2,3) show ?thesis by (simp add: locks_inv_def queues_inv_def)
next
  case (leave t l)
  have m: "map_of (sz_schemas s) (want t) = Some l" using queues_lockD [OF assms(3)] leave(2) by blast
  with locks_set_queue [OF assms(2) m] queues_inv_removed [OF assms(3)] leave show ?thesis by simp
next
  case (cancel t l)
  have m: "map_of (sz_schemas s) (want t) = Some l" using queues_lockD [OF assms(3)] cancel(2) by blast
  with locks_set_queue [OF assms(2) m] queues_inv_removed [OF assms(3)] cancel show ?thesis by simp
next
  case (give_up t l)
  then have "queues_inv want s'"
    using assms(3) unfolding give_up(1) queues_inv_def by (auto simp: set_phase_def)
  with assms(2) give_up(1) show ?thesis by simp
qed

lemma ser_reach_inv: "ser_reach want s \<Longrightarrow> locks_inv s \<and> queues_inv want s"
  by (induction rule: ser_reach.induct) (auto simp: new_inv dest: ser_step_inv)

section \<open>The log of one schema\<close>

definition log_of :: "serializer \<Rightarrow> string \<Rightarrow> nat list" where
  "log_of s k = map fst (filter (\<lambda>x. snd x = k) (sz_log s))"

text \<open>A finished task never acts again; the one task inside acted last.\<close>

definition log_inv :: "(nat \<Rightarrow> string) \<Rightarrow> serializer \<Rightarrow> bool" where
  "log_inv want s \<longleftrightarrow> (\<forall>k. distinct (remdups_adj (log_of s k))
     \<and> (\<forall>t \<in> set (log_of s k). want t = k \<and> (sz_phase s t = Gone \<or> (\<exists>l. sz_phase s t = Inside l \<and> last (log_of s k) = t))))"

lemma remdups_adj_snoc:
  "remdups_adj (xs @ [t]) = (if xs \<noteq> [] \<and> last xs = t then remdups_adj xs else remdups_adj xs @ [t])"
  by (cases xs rule: rev_cases) (simp_all add: remdups_adj_append_two)

lemma log_inv_phase:
  assumes "log_inv want s" "sz_log s' = sz_log s"
    and "\<And>t l. sz_phase s t = Inside l \<Longrightarrow> sz_phase s' t = Inside l \<or> sz_phase s' t = Gone"
    and "\<And>t. sz_phase s t = Gone \<Longrightarrow> sz_phase s' t = Gone"
  shows "log_inv want s'"
proof -
  have "log_of s' = log_of s" by (simp add: log_of_def assms(2) fun_eq_iff)
  with assms(1,3,4) show ?thesis unfolding log_inv_def by metis
qed

lemma log_inv_act:
  assumes i: "log_inv want s" and q: "queues_inv want s" and t: "sz_phase s t = Inside l"
  shows "log_inv want (s\<lparr>sz_log := sz_log s @ [(t, want t)]\<rparr>)"
proof -
  let ?s = "s\<lparr>sz_log := sz_log s @ [(t, want t)]\<rparr>"
  have lo: "log_of ?s k = (if k = want t then log_of s k @ [t] else log_of s k)" for k
    by (simp add: log_of_def)
  have others: "sz_phase s x = Gone" if x: "x \<in> set (log_of s (want t))" "x \<noteq> t" for x
  proof (rule ccontr)
    assume "sz_phase s x \<noteq> Gone"
    with i x(1) obtain l' where l': "sz_phase s x = Inside l'" "want x = want t" unfolding log_inv_def by blast
    then have "l' = l" using queues_lockD [OF q, of x l'] queues_lockD [OF q, of t l] t by simp
    with queues_headD [OF q t] queues_headD [OF q l'(1)] x(2) show False by auto
  qed
  have mine: "distinct (remdups_adj (log_of s k))" "\<forall>x \<in> set (log_of s k). want x = k" for k
    using i by (simp_all add: log_inv_def)
  have last: "last (log_of s (want t)) = t" if "t \<in> set (log_of s (want t))"
  proof -
    from i that have "sz_phase s t = Gone \<or> (\<exists>l. sz_phase s t = Inside l \<and> last (log_of s (want t)) = t)"
      unfolding log_inv_def by blast
    with t show ?thesis by simp
  qed
  have "distinct (remdups_adj (log_of s (want t) @ [t]))"
    using mine(1) [of "want t"] last by (auto simp: remdups_adj_snoc)
  then have "distinct (remdups_adj (log_of ?s k))" for k
    using mine(1) by (simp add: lo)
  moreover have "want x = k \<and> (sz_phase ?s x = Gone \<or> (\<exists>l. sz_phase ?s x = Inside l \<and> last (log_of ?s k) = x))"
    if x: "x \<in> set (log_of ?s k)" for k x
  proof (cases "k = want t")
    case True
    with x t others mine(2) [of k] show ?thesis by (cases "x = t") (auto simp: lo)
  next
    case False
    with x i show ?thesis by (simp add: lo log_inv_def)
  qed
  ultimately show ?thesis by (simp add: log_inv_def)
qed

lemma log_inv_step:
  assumes "ser_step want s s'" "locks_inv s" "queues_inv want s" "log_inv want s"
  shows "log_inv want s'"
  using assms(1)
proof (cases rule: ser_step.cases)
  case (fetch t l s1)
  note r = lock_for_result [OF fetch(3) assms(2)]
  show ?thesis using fetch by (intro log_inv_phase [OF assms(4)]) (auto simp: set_phase_def r)
next
  case (act t l)
  with log_inv_act [OF assms(4,3)] show ?thesis by simp
qed (auto intro!: log_inv_phase [OF assms(4)] simp: set_phase_def set_queue_def)

lemma ser_reach_log: "ser_reach want s \<Longrightarrow> log_inv want s"
proof (induction rule: ser_reach.induct)
  case start
  show ?case by (simp add: log_inv_def log_of_def new_serializer_def)
next
  case (step s s')
  with ser_reach_inv log_inv_step show ?case by blast
qed

section \<open>Property\<close>

text \<open>C33. The lock map refines one first-come-first-served queue per schema: from any reachable state, every step of any
  task leaves all queues alone, lets one task join the end of its own schema's queue, or lets one leave it
  (so no schema waits for another). A task inside the critical section is the first of its queue, and in the
  log of the backend calls of one schema the calls of one ingestion are never interrupted by another's.\<close>

theorem serializer_refines_queues:
  assumes "ser_reach want s" "ser_step want s s'"
  shows "(queue_of s' = queue_of s \<or> queue_step want (queue_of s) (queue_of s'))
    \<and> (\<forall>t l. sz_phase s' t = Inside l \<longrightarrow> (\<exists>q. queue_of s' (want t) = t # q))
    \<and> (\<forall>k. distinct (remdups_adj (log_of s' k)))"
proof (intro conjI)
  have i: "locks_inv s" "queues_inv want s" using ser_reach_inv [OF assms(1)] by auto
  have r: "ser_reach want s'" using assms by (rule ser_reach.step)
  then have q: "queues_inv want s'" using ser_reach_inv by blast
  show "\<forall>k. distinct (remdups_adj (log_of s' k))" using ser_reach_log [OF r] by (simp add: log_inv_def)
  show "\<forall>t l. sz_phase s' t = Inside l \<longrightarrow> (\<exists>q. queue_of s' (want t) = t # q)"
    using queues_headD [OF q] queues_lockD [OF q] by (fastforce simp: queue_of_def)
  have leaves: "queue_step want (queue_of s) (queue_of (set_queue l (remove1 t (sz_queues s l)) s))"
    if "sz_phase s t = Queued l \<or> sz_phase s t = Inside l" for t l
  proof -
    have m: "map_of (sz_schemas s) (want t) = Some l" using queues_lockD [OF i(2)] that by blast
    moreover have "t \<in> set (queue_of s (want t))" using queues_memD [OF i(2)] that m by (simp add: queue_of_def)
    ultimately show ?thesis
      using queue_step.leaves [of t "queue_of s" want] by (simp add: queue_of_set_queue [OF i(1) m] queue_of_def [of s "want t"])
  qed
  from assms(2) show "queue_of s' = queue_of s \<or> queue_step want (queue_of s) (queue_of s')"
  proof (cases rule: ser_step.cases)
    case (fetch t l s1)
    with lock_for_result(7) [OF fetch(3) i(1)] show ?thesis by simp
  next
    case (join t l)
    have m: "map_of (sz_schemas s) (want t) = Some l" using queues_lockD [OF i(2)] join(2) by blast
    have "t \<notin> set (queue_of s (want t))" using queues_memD [OF i(2), of t l] join(2) m by (simp add: queue_of_def)
    with queue_step.joins [of t "queue_of s" want] show ?thesis
      by (simp add: join(1) queue_of_set_queue [OF i(1) m]) (simp add: queue_of_def m)
  next
    case (act t l)
    then have "queue_of s' = queue_of s" by (simp add: queue_of_def fun_eq_iff split: option.splits)
    then show ?thesis ..
  qed (auto simp: leaves)
qed


theorem serializer_refines_queues_witness:
  "queue_step (\<lambda>_. ''a'') (\<lambda>_. []) ((\<lambda>_. [])(''a'' := [0]))"
proof -
  let ?w = "\<lambda>_ :: nat. ''a''"
  let ?n = "new_serializer\<lparr>sz_schemas := [(''a'', 0)], sz_next := 1\<rparr>"
  let ?s = "set_phase 0 (HasArc 0) ?n"
  let ?s' = "set_phase 0 (Queued 0) (set_queue 0 (sz_queues ?s 0 @ [0]) ?s)"
  have l: "lock_for ''a'' new_serializer = (0, ?n)" by (simp add: lock_for_def new_serializer_def)
  have "ser_step ?w new_serializer ?s" by (rule ser_step.fetch [OF _ l]) (simp add: new_serializer_def)
  then have r: "ser_reach ?w ?s" using ser_reach.step [OF ser_reach.start] by blast
  have j: "ser_step ?w ?s ?s'" by (rule ser_step.join) (simp add: set_phase_def)
  have q: "queue_of ?s = (\<lambda>_. [])" "queue_of ?s' = (\<lambda>_. [])(''a'' := [0])"
    by (auto simp: queue_of_def set_phase_def set_queue_def new_serializer_def fun_eq_iff)
  from serializer_refines_queues [OF r j] have "queue_of ?s' = queue_of ?s \<or> queue_step ?w (queue_of ?s) (queue_of ?s')"
    by blast
  moreover have "queue_of ?s' \<noteq> queue_of ?s" unfolding q by (metis fun_upd_same list.distinct(1))
  ultimately show ?thesis unfolding q by blast
qed

end
