(* ===== verification/Core_Ids.thy ===== *)
theory Core_Ids
  imports Json
begin

text \<open>
  The crate \<open>llm-memory-core\<close>: concept names (\<open>concept.rs\<close>), the validated identifier of a
  shared memory (\<open>id.rs\<close>), scopes and owner keys (\<open>scope.rs\<close>). Both regular expressions are
  anchored and match ASCII characters only, so they are conditions on the bytes.
\<close>

definition is_lower_alnum :: "char \<Rightarrow> bool" where
  "is_lower_alnum c \<longleftrightarrow> (let n = (of_char c :: nat) in (97 \<le> n \<and> n \<le> 122) \<or> (48 \<le> n \<and> n \<le> 57))"

definition is_slug_char :: "char \<Rightarrow> bool" where
  "is_slug_char c \<longleftrightarrow> is_lower_alnum c \<or> c = CHR ''-''"

text \<open>The regular expression \<open>^[a-z0-9][a-z0-9-]{lo,63}$\<close>.\<close>

definition slug_re :: "nat \<Rightarrow> string \<Rightarrow> bool" where
  "slug_re lo s = (case s of [] \<Rightarrow> False
     | c # cs \<Rightarrow> is_lower_alnum c \<and> list_all is_slug_char cs \<and> lo \<le> length cs \<and> length cs \<le> 63)"

definition is_valid :: "string \<Rightarrow> bool" where
  "is_valid s = slug_re 1 s"

datatype id_error = InvalidSharedMemoryId string

datatype shared_memory_id = SharedMemoryId string

fun sm_as_str :: "shared_memory_id \<Rightarrow> string" where
  "sm_as_str (SharedMemoryId s) = s"

definition sm_parse :: "string \<Rightarrow> id_error + shared_memory_id" where
  "sm_parse s = (if slug_re 0 s then Inr (SharedMemoryId s) else Inl (InvalidSharedMemoryId s))"

text \<open>The hand-written \<open>Deserialize\<close>: a JSON string, passed through \<open>parse\<close>.\<close>

datatype de_error = NotAString | Custom id_error

definition sm_deserialize :: "json \<Rightarrow> de_error + shared_memory_id" where
  "sm_deserialize v = (case as_str v of None \<Rightarrow> Inl NotAString
     | Some raw \<Rightarrow> (case sm_parse raw of Inl e \<Rightarrow> Inl (Custom e) | Inr i \<Rightarrow> Inr i))"

definition sm_serialize :: "shared_memory_id \<Rightarrow> json" where
  "sm_serialize i = JStr (sm_as_str i)"

datatype scope = Personal | Shared

fun scope_as_str :: "scope \<Rightarrow> string" where
  "scope_as_str Personal = ''personal''"
| "scope_as_str Shared = ''shared''"

record owner_key =
  ok_scope :: scope
  ok_owner :: string

definition owner_personal :: "string \<Rightarrow> owner_key" where
  "owner_personal u = \<lparr>ok_scope = Personal, ok_owner = u\<rparr>"

definition owner_shared :: "shared_memory_id \<Rightarrow> owner_key" where
  "owner_shared i = \<lparr>ok_scope = Shared, ok_owner = sm_as_str i\<rparr>"

section \<open>Facts\<close>

lemma scope_as_str_inj [simp]: "scope_as_str a = scope_as_str b \<longleftrightarrow> a = b"
  by (cases a; cases b) simp_all

lemma owner_personal_inj [simp]: "owner_personal u = owner_personal v \<longleftrightarrow> u = v"
  by (simp add: owner_personal_def)

lemma owner_personal_not_shared [simp]: "owner_personal u \<noteq> owner_shared i"
  by (simp add: owner_personal_def owner_shared_def)

lemma is_lower_alnum_slug [simp]: "is_lower_alnum c \<Longrightarrow> is_slug_char c"
  by (simp add: is_slug_char_def)

lemma slug_re_mono: "slug_re lo s \<Longrightarrow> lo' \<le> lo \<Longrightarrow> slug_re lo' s"
  by (auto simp: slug_re_def split: list.splits)

lemma is_valid_length: "is_valid s \<Longrightarrow> 2 \<le> length s \<and> length s \<le> 64"
  by (auto simp: is_valid_def slug_re_def split: list.splits)

lemma is_valid_chars: "is_valid s \<Longrightarrow> \<forall>c\<in>set s. is_slug_char c"
  by (auto simp: is_valid_def slug_re_def list_all_iff split: list.splits)

text \<open>The identifier of a shared memory can only be made by the validating parser, and that
  also holds at the serialisation boundary: what \<open>Deserialize\<close> accepts is exactly what
  \<open>parse\<close> accepts, a value always serialises back to the string it came from, and a concept
  name (2 to 64 characters) is always a valid identifier while the converse fails on one-character
  names only.\<close>

lemma sm_deserialize_validates:
  "(sm_deserialize v = Inr i \<longleftrightarrow> (\<exists>s. v = JStr s \<and> sm_parse s = Inr i))
   \<and> (sm_deserialize v = Inr i \<longrightarrow> sm_serialize i = v)
   \<and> (sm_parse s = Inr i \<longrightarrow> slug_re 0 (sm_as_str i) \<and> length (sm_as_str i) \<in> {1..64})
   \<and> (is_valid s \<longleftrightarrow> (\<exists>i. sm_parse s = Inr i) \<and> length s \<noteq> 1)"
proof (intro conjI impI)
  show "sm_deserialize v = Inr i \<longleftrightarrow> (\<exists>s. v = JStr s \<and> sm_parse s = Inr i)"
    by (auto simp: sm_deserialize_def split: option.splits sum.splits)
  show "sm_serialize i = v" if "sm_deserialize v = Inr i"
    using that by (auto simp: sm_deserialize_def sm_parse_def sm_serialize_def
        split: option.splits sum.splits if_splits)
  show "slug_re 0 (sm_as_str i)" "length (sm_as_str i) \<in> {1..64}" if "sm_parse s = Inr i"
    using that by (auto simp: sm_parse_def slug_re_def split: if_splits list.splits)
  show "is_valid s \<longleftrightarrow> (\<exists>i. sm_parse s = Inr i) \<and> length s \<noteq> 1"
    by (auto simp: is_valid_def sm_parse_def slug_re_def Suc_le_eq split: list.splits)
qed

end
