(* ===== verification/One_Shot.thy ===== *)
theory One_Shot
  imports Prelude
begin

text \<open>
  The contract of a credential that works once: a presentation that is granted spends it, and a
  spent credential stays spent and is never granted again, whatever other operations come
  between. Refresh tokens and authorization codes are instances.
\<close>

fun outcomes :: "('s \<Rightarrow> 'op \<Rightarrow> 'r \<times> 's) \<Rightarrow> 's \<Rightarrow> 'op list \<Rightarrow> 'r list" where
  "outcomes step s [] = []"
| "outcomes step s (op # ops) = (let (r, s') = step s op in r # outcomes step s' ops)"

locale one_shot =
  fixes step :: "'s \<Rightarrow> 'op \<Rightarrow> 'r \<times> 's"
    and grant :: "'op \<Rightarrow> 'r \<Rightarrow> bool"
    and spent :: "'s \<Rightarrow> bool"
    and inv :: "'s \<Rightarrow> bool"
  assumes inv_stays: "inv s \<Longrightarrow> inv (snd (step s op))"
    and grant_spends: "inv s \<Longrightarrow> grant op (fst (step s op)) \<Longrightarrow> spent (snd (step s op))"
    and spent_stays: "spent s \<Longrightarrow> spent (snd (step s op))"
    and spent_denied: "spent s \<Longrightarrow> \<not> grant op (fst (step s op))"
begin

definition grants_of :: "'s \<Rightarrow> 'op list \<Rightarrow> nat" where
  "grants_of s ops = length (filter (\<lambda>(op, r). grant op r) (zip ops (outcomes step s ops)))"

lemma grants_Cons:
  "grants_of s (op # ops)
     = (if grant op (fst (step s op)) then 1 else 0) + grants_of (snd (step s op)) ops"
  by (simp add: grants_of_def split: prod.splits)

lemma spent_none: "spent s \<Longrightarrow> grants_of s ops = 0"
proof (induction ops arbitrary: s)
  case (Cons op ops)
  then show ?case by (simp add: grants_Cons spent_denied spent_stays)
qed (simp add: grants_of_def)

lemma at_most_once: "inv s \<Longrightarrow> grants_of s ops \<le> 1"
proof (induction ops arbitrary: s)
  case (Cons op ops)
  show ?case
  proof (cases "grant op (fst (step s op))")
    case True
    with Cons.prems show ?thesis by (simp add: grants_Cons spent_none grant_spends)
  next
    case False
    with Cons.IH [OF inv_stays [OF Cons.prems]] show ?thesis by (simp add: grants_Cons)
  qed
qed (simp add: grants_of_def)

lemmas at_most_once_list = at_most_once [unfolded grants_of_def]

end

end
