(* ===== verification/Storage.thy ===== *)
theory Storage
  imports Core_Ids One_Shot "HOL-Library.List_Lexorder" "HOL-Library.Char_ord" "HOL-Library.Product_Lexorder"
begin

text \<open>
  The crate \<open>llm-memory-storage\<close>. A table is the list of its rows in insertion order; every SQL
  statement of the code is one definition with its \<open>WHERE\<close>, \<open>ORDER BY\<close>, conflict clause and
  \<open>RETURNING\<close> written out. \<open>faults\<close> says of the statements to come which ones the database fails
  (busy, I/O), so that every early return on a storage error is a branch of the model. The
  ranking of a full-text query is SQLite's: \<open>fts\<close> maps the table and the MATCH expression to the
  matching rows, best first.
\<close>

record raw =
  r_id :: string
  r_scope :: string
  r_owner :: string
  r_title :: string
  r_content :: string
  r_source :: string
  r_tags :: "string option"
  r_created_by :: "string option"
  r_created_at :: int

record wiki =
  w_scope :: string
  w_owner :: string
  w_concept :: string
  w_content :: string
  w_source_refs :: string
  w_last_rebuilt_at :: int

record schema_row =
  sc_scope :: string
  sc_owner :: string
  sc_content :: string
  sc_updated_at :: int

record shared_memory =
  smr_id :: string
  smr_name :: string
  smr_created_at :: int

record user =
  u_id :: string
  u_provider :: string
  u_subject :: string
  u_email :: "string option"
  u_created_at :: int

record token_row =
  t_hash :: string
  t_user :: string
  t_client :: string
  t_expires_at :: int
  t_revoked_at :: "int option"

record oauth_client =
  oc_id :: string
  oc_redirect_uris :: string
  oc_grant_types :: string
  oc_auth_method :: string
  oc_client_name :: "string option"
  oc_created_at :: int
  oc_last_seen_at :: "int option"
  oc_revoked_at :: "int option"

record db =
  t_raws :: "raw list"
  t_wikis :: "wiki list"
  t_schemas :: "schema_row list"
  t_shared :: "shared_memory list"
  t_users :: "user list"
  t_tokens :: "token_row list"
  t_clients :: "oauth_client list"
  faults :: "bool list"

datatype storage_error = Sqlx | Migrate | StJson | NotFound

type_synonym 'a dbop = "(db, storage_error, 'a) act"

definition empty_db :: db where
  "empty_db = \<lparr>t_raws = [], t_wikis = [], t_schemas = [], t_shared = [], t_users = [],
     t_tokens = [], t_clients = [], faults = []\<rparr>"

text \<open>One statement: it fails as the schedule says, otherwise it runs.\<close>

definition stmt :: "'a dbop \<Rightarrow> 'a dbop" where
  "stmt f d = (case faults d of [] \<Rightarrow> f d
     | b # bs \<Rightarrow> (if b then (Inl Sqlx, d\<lparr>faults := bs\<rparr>) else f (d\<lparr>faults := bs\<rparr>)))"

definition query :: "(db \<Rightarrow> 'a) \<Rightarrow> 'a dbop" where
  "query f = stmt (\<lambda>d. (Inr (f d), d))"

section \<open>raws.rs\<close>

record new_raw =
  nr_scope :: scope
  nr_owner :: string
  nr_title :: string
  nr_content :: string
  nr_source :: string
  nr_tags :: "string option"
  nr_created_by :: "string option"

definition raws_insert :: "string \<Rightarrow> int \<Rightarrow> new_raw \<Rightarrow> raw dbop" where
  "raws_insert ulid now r =
     (let row = \<lparr>r_id = ulid, r_scope = scope_as_str (nr_scope r), r_owner = nr_owner r,
                 r_title = nr_title r, r_content = nr_content r, r_source = nr_source r,
                 r_tags = nr_tags r, r_created_by = nr_created_by r, r_created_at = now\<rparr>
      in stmt (\<lambda>d. if ulid \<in> r_id ` set (t_raws d) then (Inl Sqlx, d)
                   else (Inr row, d\<lparr>t_raws := t_raws d @ [row]\<rparr>)))"

definition raws_get :: "string \<Rightarrow> raw option dbop" where
  "raws_get rid = query (\<lambda>d. find (\<lambda>r. r_id r = rid) (t_raws d))"

definition raws_between :: "scope \<Rightarrow> string \<Rightarrow> int \<Rightarrow> int \<Rightarrow> db \<Rightarrow> raw list" where
  "raws_between sc owner since until d =
     sort_key (\<lambda>r. (r_created_at r, r_id r))
       (filter (\<lambda>r. r_scope r = scope_as_str sc \<and> r_owner r = owner
                    \<and> r_created_at r > since \<and> r_created_at r \<le> until) (t_raws d))"

definition raws_list_since :: "scope \<Rightarrow> string \<Rightarrow> int \<Rightarrow> int \<Rightarrow> raw list dbop" where
  "raws_list_since sc owner since until = query (raws_between sc owner since until)"

section \<open>wikis.rs\<close>

definition wiki_at :: "scope \<Rightarrow> string \<Rightarrow> string \<Rightarrow> wiki \<Rightarrow> bool" where
  "wiki_at sc owner concept w \<longleftrightarrow> w_scope w = scope_as_str sc \<and> w_owner w = owner \<and> w_concept w = concept"

definition owner_wikis :: "scope \<Rightarrow> string \<Rightarrow> db \<Rightarrow> wiki list" where
  "owner_wikis sc owner d = filter (\<lambda>w. w_scope w = scope_as_str sc \<and> w_owner w = owner) (t_wikis d)"

definition wiki_put ::
  "scope \<Rightarrow> string \<Rightarrow> string \<Rightarrow> string \<Rightarrow> string \<Rightarrow> int \<Rightarrow> wiki list \<Rightarrow> wiki list" where
  "wiki_put sc owner concept content refs at' ws =
     (if \<exists>w \<in> set ws. wiki_at sc owner concept w
      then map (\<lambda>w. if wiki_at sc owner concept w
                   then w\<lparr>w_content := content, w_source_refs := refs, w_last_rebuilt_at := at'\<rparr>
                   else w) ws
      else ws @ [\<lparr>w_scope = scope_as_str sc, w_owner = owner, w_concept = concept,
             w_content = content, w_source_refs = refs, w_last_rebuilt_at = at'\<rparr>])"

definition wikis_upsert ::
  "scope \<Rightarrow> string \<Rightarrow> string \<Rightarrow> string \<Rightarrow> string \<Rightarrow> int \<Rightarrow> unit dbop" where
  "wikis_upsert sc owner concept content refs at' =
     stmt (\<lambda>d. (Inr (), d\<lparr>t_wikis := wiki_put sc owner concept content refs at' (t_wikis d)\<rparr>))"

definition wikis_get :: "scope \<Rightarrow> string \<Rightarrow> string \<Rightarrow> wiki option dbop" where
  "wikis_get sc owner concept = query (\<lambda>d. find (wiki_at sc owner concept) (t_wikis d))"

definition wikis_list_concepts :: "scope \<Rightarrow> string \<Rightarrow> string list dbop" where
  "wikis_list_concepts sc owner = query (\<lambda>d. sort (map w_concept (owner_wikis sc owner d)))"

definition watermark :: "scope \<Rightarrow> string \<Rightarrow> db \<Rightarrow> int" where
  "watermark sc owner d = (case map w_last_rebuilt_at (owner_wikis sc owner d) of
     [] \<Rightarrow> 0 | t # ts \<Rightarrow> fold max ts t)"

definition wikis_max_last_rebuilt_at :: "scope \<Rightarrow> string \<Rightarrow> int dbop" where
  "wikis_max_last_rebuilt_at sc owner = query (watermark sc owner)"

definition wikis_count_concepts :: "scope \<Rightarrow> string \<Rightarrow> int dbop" where
  "wikis_count_concepts sc owner = query (\<lambda>d. int (length (owner_wikis sc owner d)))"

definition wikis_list_for_owner :: "scope \<Rightarrow> string \<Rightarrow> wiki list dbop" where
  "wikis_list_for_owner sc owner = query (\<lambda>d. sort_key w_concept (owner_wikis sc owner d))"

section \<open>schemas.rs and shared_memories.rs\<close>

definition schema_at :: "scope \<Rightarrow> string \<Rightarrow> schema_row \<Rightarrow> bool" where
  "schema_at sc owner s \<longleftrightarrow> sc_scope s = scope_as_str sc \<and> sc_owner s = owner"

definition schemas_upsert :: "int \<Rightarrow> scope \<Rightarrow> string \<Rightarrow> string \<Rightarrow> unit dbop" where
  "schemas_upsert now sc owner content =
     stmt (\<lambda>d. (Inr (), d\<lparr>t_schemas :=
       (if \<exists>s \<in> set (t_schemas d). schema_at sc owner s
        then map (\<lambda>s. if schema_at sc owner s then s\<lparr>sc_content := content, sc_updated_at := now\<rparr> else s)
               (t_schemas d)
        else t_schemas d @ [\<lparr>sc_scope = scope_as_str sc, sc_owner = owner, sc_content = content,
               sc_updated_at = now\<rparr>])\<rparr>))"

definition schemas_get :: "scope \<Rightarrow> string \<Rightarrow> string option dbop" where
  "schemas_get sc owner = query (\<lambda>d. map_option sc_content (find (schema_at sc owner) (t_schemas d)))"

definition shared_create :: "int \<Rightarrow> shared_memory_id \<Rightarrow> string \<Rightarrow> shared_memory dbop" where
  "shared_create now i name =
     (let row = \<lparr>smr_id = sm_as_str i, smr_name = name, smr_created_at = now\<rparr> in
      stmt (\<lambda>d. if sm_as_str i \<in> smr_id ` set (t_shared d) then (Inl Sqlx, d)
                else (Inr row, d\<lparr>t_shared := t_shared d @ [row]\<rparr>)))"

definition shared_list_all :: "shared_memory list dbop" where
  "shared_list_all = query (\<lambda>d. sort_key smr_id (t_shared d))"

definition shared_exists :: "string \<Rightarrow> bool dbop" where
  "shared_exists i = query (\<lambda>d. length (filter (\<lambda>s. smr_id s = i) (t_shared d)) > 0)"

section \<open>users.rs\<close>

text \<open>
  The conflict clause names \<open>(provider, subject)\<close>: a clash of the primary key is an error.
\<close>

definition user_for :: "string \<Rightarrow> string \<Rightarrow> user \<Rightarrow> bool" where
  "user_for p s u \<longleftrightarrow> u_provider u = p \<and> u_subject u = s"

definition users_upsert :: "int \<Rightarrow> string \<Rightarrow> string \<Rightarrow> string \<Rightarrow> string option \<Rightarrow> user dbop" where
  "users_upsert now uid p s email =
     seqA (stmt (\<lambda>d.
         if uid \<in> u_id ` set (t_users d) then (Inl Sqlx, d)
         else if \<exists>u \<in> set (t_users d). user_for p s u
         then (Inr (), d\<lparr>t_users := map (\<lambda>u. if user_for p s u then u\<lparr>u_email := email\<rparr> else u) (t_users d)\<rparr>)
         else (Inr (), d\<lparr>t_users := t_users d @ [\<lparr>u_id = uid, u_provider = p, u_subject = s,
                          u_email = email, u_created_at = now\<rparr>]\<rparr>)))
       (\<lambda>_. stmt (\<lambda>d. (of_option Sqlx (find (user_for p s) (t_users d)), d)))"

definition users_find_by_id :: "string \<Rightarrow> user option dbop" where
  "users_find_by_id i = query (\<lambda>d. find (\<lambda>u. u_id u = i) (t_users d))"

text \<open>
  \<open>delete_cascade\<close> in one transaction: five deletions between \<open>begin\<close> and \<open>commit\<close>; any failure
  drops the transaction, which rolls back. The deletion of a user a token still refers to would
  violate the foreign key.
\<close>

definition transaction :: "'a dbop \<Rightarrow> 'a dbop" where
  "transaction body d =
     (case seqA (query (\<lambda>_. ())) (\<lambda>_. seqA body (\<lambda>x. seqA (query (\<lambda>_. ())) (\<lambda>_. okA x))) d of
        (Inr x, d') \<Rightarrow> (Inr x, d')
      | (Inl e, d') \<Rightarrow> (Inl e, d\<lparr>faults := faults d'\<rparr>))"

definition delete_stmts :: "string \<Rightarrow> unit dbop" where
  "delete_stmts i =
     seqA (stmt (\<lambda>d. (Inr (), d\<lparr>t_raws := filter (\<lambda>r. \<not> (r_scope r = ''personal'' \<and> r_owner r = i)) (t_raws d)\<rparr>)))
     (\<lambda>_. seqA (stmt (\<lambda>d. (Inr (), d\<lparr>t_wikis := filter (\<lambda>w. \<not> (w_scope w = ''personal'' \<and> w_owner w = i)) (t_wikis d)\<rparr>)))
     (\<lambda>_. seqA (stmt (\<lambda>d. (Inr (), d\<lparr>t_schemas := filter (\<lambda>s. \<not> (sc_scope s = ''personal'' \<and> sc_owner s = i)) (t_schemas d)\<rparr>)))
     (\<lambda>_. seqA (stmt (\<lambda>d. (Inr (), d\<lparr>t_tokens := filter (\<lambda>t. t_user t \<noteq> i) (t_tokens d)\<rparr>)))
     (\<lambda>_. stmt (\<lambda>d. if (\<exists>u \<in> set (t_users d). u_id u = i) \<and> (\<exists>t \<in> set (t_tokens d). t_user t = i)
                      then (Inl Sqlx, d)
                      else (Inr (), d\<lparr>t_users := filter (\<lambda>u. u_id u \<noteq> i) (t_users d)\<rparr>))))))"

definition delete_cascade :: "string \<Rightarrow> unit dbop" where
  "delete_cascade i = transaction (delete_stmts i)"

section \<open>tokens.rs\<close>

text \<open>\<open>sha\<close> is SHA-256, the library's. Two foreign keys and the primary key guard an insertion.\<close>

definition create_refresh :: "(string \<Rightarrow> string) \<Rightarrow> string \<Rightarrow> string \<Rightarrow> string \<Rightarrow> int \<Rightarrow> unit dbop" where
  "create_refresh sha tok uid cid exp =
     stmt (\<lambda>d. if sha tok \<in> t_hash ` set (t_tokens d) \<or> uid \<notin> u_id ` set (t_users d)
                  \<or> cid \<notin> oc_id ` set (t_clients d)
               then (Inl Sqlx, d)
               else (Inr (), d\<lparr>t_tokens := t_tokens d @ [\<lparr>t_hash = sha tok, t_user = uid, t_client = cid,
                      t_expires_at = exp, t_revoked_at = None\<rparr>]\<rparr>))"

definition validate_refresh ::
  "(string \<Rightarrow> string) \<Rightarrow> string \<Rightarrow> int \<Rightarrow> (string \<times> string) option dbop" where
  "validate_refresh sha tok now = query (\<lambda>d.
     Option.bind (find (\<lambda>t. t_hash t = sha tok) (t_tokens d))
       (\<lambda>t. if t_revoked_at t \<noteq> None \<or> t_expires_at t \<le> now then None else Some (t_user t, t_client t)))"

definition token_revoke :: "(string \<Rightarrow> string) \<Rightarrow> string \<Rightarrow> int \<Rightarrow> unit dbop" where
  "token_revoke sha tok now = stmt (\<lambda>d. (Inr (), d\<lparr>t_tokens :=
     map (\<lambda>t. if t_hash t = sha tok then t\<lparr>t_revoked_at := Some now\<rparr> else t) (t_tokens d)\<rparr>))"

definition token_live :: "string \<Rightarrow> int \<Rightarrow> token_row \<Rightarrow> bool" where
  "token_live h now t \<longleftrightarrow> t_hash t = h \<and> t_revoked_at t = None \<and> t_expires_at t > now"

definition validate_and_revoke ::
  "(string \<Rightarrow> string) \<Rightarrow> string \<Rightarrow> int \<Rightarrow> (string \<times> string) option dbop" where
  "validate_and_revoke sha tok now = stmt (\<lambda>d.
     (Inr (map_option (\<lambda>t. (t_user t, t_client t)) (find (token_live (sha tok) now) (t_tokens d))),
      d\<lparr>t_tokens := map (\<lambda>t. if token_live (sha tok) now t then t\<lparr>t_revoked_at := Some now\<rparr> else t)
                        (t_tokens d)\<rparr>))"

section \<open>oauth_clients.rs\<close>

definition client_register ::
  "string \<Rightarrow> int \<Rightarrow> string \<Rightarrow> string \<Rightarrow> string \<Rightarrow> string option \<Rightarrow> oauth_client dbop" where
  "client_register ulid now uris grants auth name =
     (let row = \<lparr>oc_id = ulid, oc_redirect_uris = uris, oc_grant_types = grants, oc_auth_method = auth,
                 oc_client_name = name, oc_created_at = now, oc_last_seen_at = None, oc_revoked_at = None\<rparr>
      in stmt (\<lambda>d. if ulid \<in> oc_id ` set (t_clients d) then (Inl Sqlx, d)
                   else (Inr row, d\<lparr>t_clients := t_clients d @ [row]\<rparr>)))"

definition client_get :: "string \<Rightarrow> oauth_client option dbop" where
  "client_get i = query (\<lambda>d. find (\<lambda>c. oc_id c = i) (t_clients d))"

definition client_touch_last_seen :: "int \<Rightarrow> string \<Rightarrow> unit dbop" where
  "client_touch_last_seen now i = stmt (\<lambda>d. (Inr (), d\<lparr>t_clients :=
     map (\<lambda>c. if oc_id c = i then c\<lparr>oc_last_seen_at := Some now\<rparr> else c) (t_clients d)\<rparr>))"

section \<open>search.rs\<close>

type_synonym fts = "raw list \<Rightarrow> string \<Rightarrow> raw list"

record search_query =
  sq_query :: string
  sq_scope :: "scope option"
  sq_owner :: "string option"
  sq_limit :: int

definition clamp :: "int \<Rightarrow> int \<Rightarrow> int \<Rightarrow> int" where
  "clamp n lo hi = (if n < lo then lo else if n > hi then hi else n)"

definition quote_token :: "string \<Rightarrow> string" where
  "quote_token tok = CHR 0x22 # replace_char (CHR 0x22) [CHR 0x22, CHR 0x22] tok @ [CHR 0x22]"

definition fts5_escape :: "string \<Rightarrow> string" where
  "fts5_escape s = (let tokens = map quote_token (split_whitespace s)
     in if tokens = [] then [CHR 0x22, CHR 0x22] else join_with '' '' tokens)"

text \<open>What is relied on of the full-text index: the rows it names are rows of the table.\<close>

definition fts_ok :: "fts \<Rightarrow> bool" where
  "fts_ok fts \<longleftrightarrow> (\<forall>rs q. set (fts rs q) \<subseteq> set rs)"

definition search_raws :: "fts \<Rightarrow> search_query \<Rightarrow> raw list dbop" where
  "search_raws fts q =
     (let limit = clamp (sq_limit q) 1 100 in
      query (\<lambda>d. take (nat limit) (filter
        (\<lambda>r. (case sq_scope q of None \<Rightarrow> True | Some s \<Rightarrow> r_scope r = scope_as_str s)
             \<and> (case sq_owner q of None \<Rightarrow> True | Some ow \<Rightarrow> r_owner r = ow))
        (fts (t_raws d) (fts5_escape (sq_query q))))))"

section \<open>Facts of the statements\<close>

lemma stmt_cases:
  obtains (fault) fs where "faults d = True # fs" "stmt f d = (Inl Sqlx, d\<lparr>faults := fs\<rparr>)"
  | (run) fs where "stmt f d = f (d\<lparr>faults := fs\<rparr>)"
proof (cases "faults d")
  case Nil
  then have "stmt f d = f (d\<lparr>faults := []\<rparr>)" by (cases d) (simp add: stmt_def)
  then show ?thesis by (rule run)
next
  case (Cons b bs)
  then show ?thesis by (cases b) (auto simp: stmt_def intro: fault run)
qed

lemma stmt_Inr:
  assumes "stmt f d = (Inr x, d')"
  obtains fs where "f (d\<lparr>faults := fs\<rparr>) = (Inr x, d')"
  using stmt_cases [of d f] assms by (metis Inl_Inr_False prod.inject)

lemma query_Inr:
  assumes "query f d = (Inr x, d')"
  obtains fs where "d' = d\<lparr>faults := fs\<rparr>" "x = f (d\<lparr>faults := fs\<rparr>)"
  using assms unfolding query_def by (auto elim!: stmt_Inr)

lemma query_frame: "\<exists>fs. snd (query f d) = d\<lparr>faults := fs\<rparr>"
  by (cases rule: stmt_cases [of d "\<lambda>d. (Inr (f d), d)"]) (auto simp: query_def)

text \<open>An invariant of the tables ignores the schedule.\<close>

definition ignores_faults :: "(db \<Rightarrow> bool) \<Rightarrow> bool" where
  "ignores_faults I \<longleftrightarrow> (\<forall>d fs. I (d\<lparr>faults := fs\<rparr>) = I d)"

lemma keeps_stmt:
  assumes "ignores_faults I" "\<And>d. I d \<Longrightarrow> I (snd (f d))"
  shows "keeps I (stmt f)"
  unfolding keeps_def
proof (intro allI impI)
  fix d assume "I d"
  with assms show "I (snd (stmt f d))"
    by (cases rule: stmt_cases [of d f]) (auto simp: ignores_faults_def)
qed

lemma keeps_query: "ignores_faults I \<Longrightarrow> keeps I (query f)"
  unfolding query_def by (rule keeps_stmt) simp_all

section \<open>Deletion of an account\<close>

definition same_tables :: "db \<Rightarrow> db \<Rightarrow> bool" where
  "same_tables d d' \<longleftrightarrow> (\<exists>fs. d' = d\<lparr>faults := fs\<rparr>)"

lemma transaction_Inl: "transaction body d = (Inl e, d') \<Longrightarrow> same_tables d d'"
  by (auto simp: transaction_def same_tables_def split: prod.splits sum.splits)

lemma transaction_Inr:
  assumes "transaction body d = (Inr x, d')"
  obtains fs d1 fs' where "body (d\<lparr>faults := fs\<rparr>) = (Inr x, d1)" "d' = d1\<lparr>faults := fs'\<rparr>"
proof -
  from assms obtain a d0 d1 b where
    q: "query (\<lambda>_. ()) d = (Inr a, d0)" "body d0 = (Inr x, d1)" "query (\<lambda>_. ()) d1 = (Inr b, d')"
    by (auto simp: transaction_def seqA_Inr_iff split: prod.splits sum.splits)
  from q(1) obtain fs where "d0 = d\<lparr>faults := fs\<rparr>" by (auto elim!: query_Inr)
  moreover from q(3) obtain fs' where "d' = d1\<lparr>faults := fs'\<rparr>" by (auto elim!: query_Inr)
  ultimately show ?thesis using q(2) that by blast
qed

text \<open>What an account leaves behind: everything but its personal rows, its tokens and itself.\<close>

definition without_account :: "string \<Rightarrow> db \<Rightarrow> db" where
  "without_account i d = d\<lparr>
     t_raws := filter (\<lambda>r. \<not> (r_scope r = ''personal'' \<and> r_owner r = i)) (t_raws d),
     t_wikis := filter (\<lambda>w. \<not> (w_scope w = ''personal'' \<and> w_owner w = i)) (t_wikis d),
     t_schemas := filter (\<lambda>s. \<not> (sc_scope s = ''personal'' \<and> sc_owner s = i)) (t_schemas d),
     t_tokens := filter (\<lambda>t. t_user t \<noteq> i) (t_tokens d),
     t_users := filter (\<lambda>u. u_id u \<noteq> i) (t_users d)\<rparr>"

lemma delete_stmts_Inr:
  "delete_stmts i d = (Inr x, d') \<Longrightarrow> \<exists>fs. d' = (without_account i d)\<lparr>faults := fs\<rparr>"
  unfolding delete_stmts_def seqA_Inr_iff
  by (cases d) (auto elim!: stmt_Inr simp: without_account_def split: if_splits)

definition healthy :: "db \<Rightarrow> bool" where
  "healthy d \<longleftrightarrow> True \<notin> set (faults d)"

lemma stmt_healthy: "healthy d \<Longrightarrow> stmt f d = f (d\<lparr>faults := tl (faults d)\<rparr>)"
  by (cases d; cases "faults d") (auto simp: stmt_def healthy_def)

lemma healthy_tl [simp]: "healthy d \<Longrightarrow> healthy (d\<lparr>faults := tl (faults d)\<rparr>)"
  by (cases "faults d") (auto simp: healthy_def)

lemma healthy_tl_list: "True \<notin> set fs \<Longrightarrow> True \<notin> set (tl fs)"
  by (cases fs) auto

lemma delete_cascade_healthy: "healthy d \<Longrightarrow> \<exists>d'. delete_cascade i d = (Inr (), d')"
  unfolding delete_cascade_def transaction_def delete_stmts_def seqA_def query_def
  by (auto simp: stmt_healthy healthy_def healthy_tl_list)

text \<open>
  C22. Deleting an account is atomic and confined: a success removes exactly the account's
  personal raws, wikis and schema, its refresh tokens and its user row, leaving every other
  owner's rows and all shared rows as they were; a failure changes no table; and with a healthy
  database it succeeds, the foreign key being satisfied by the order of the deletions.
\<close>
theorem delete_cascade_atomic:
  "case delete_cascade i d of
     (Inr _, d') \<Rightarrow> same_tables (without_account i d) d'
   | (Inl _, d') \<Rightarrow> same_tables d d' \<and> True \<in> set (faults d)"
proof -
  obtain r d' where r: "delete_cascade i d = (r, d')" by fastforce
  show ?thesis
  proof (cases r)
    case (Inl e)
    with r have "same_tables d d'" by (auto simp: delete_cascade_def intro: transaction_Inl)
    moreover have "\<not> healthy d"
      using delete_cascade_healthy [of d i] r Inl by auto
    ultimately show ?thesis using r Inl by (simp add: healthy_def)
  next
    case (Inr x)
    with r obtain fs d1 fs' where b: "delete_stmts i (d\<lparr>faults := fs\<rparr>) = (Inr x, d1)" "d' = d1\<lparr>faults := fs'\<rparr>"
      by (auto simp: delete_cascade_def elim!: transaction_Inr)
    from delete_stmts_Inr [OF b(1)] b(2) have "\<exists>fs. d' = (without_account i d)\<lparr>faults := fs\<rparr>"
      by (cases d) (auto simp: without_account_def)
    then show ?thesis using r Inr by (simp add: same_tables_def)
  qed
qed

theorem delete_cascade_atomic_witness:
  "let d = empty_db\<lparr>t_users := [\<lparr>u_id = ''u'', u_provider = ''google'', u_subject = ''s'',
             u_email = None, u_created_at = 1\<rparr>], faults := [False, True]\<rparr>
   in fst (delete_cascade ''u'' d) = Inl Sqlx \<and> same_tables d (snd (delete_cascade ''u'' d))"
  using delete_cascade_atomic [where i = "''u''" and d = "empty_db\<lparr>t_users := [\<lparr>u_id = ''u'', u_provider = ''google'',
      u_subject = ''s'', u_email = None, u_created_at = 1\<rparr>], faults := [False, True]\<rparr>"]
  by (simp add: delete_cascade_def transaction_def delete_stmts_def seqA_def query_def stmt_def
      empty_db_def)

section \<open>Single use of refresh tokens\<close>

datatype token_op =
    Issue string string string int
  | Check string int
  | Consume string int
  | Revoke string int

fun token_step :: "(string \<Rightarrow> string) \<Rightarrow> db \<Rightarrow> token_op
    \<Rightarrow> (storage_error + (string \<times> string) option) \<times> db" where
  "token_step sha d (Issue tok u c e) = seqA (create_refresh sha tok u c e) (\<lambda>_. okA None) d"
| "token_step sha d (Check tok now) = seqA (validate_refresh sha tok now) (\<lambda>_. okA None) d"
| "token_step sha d (Consume tok now) = validate_and_revoke sha tok now d"
| "token_step sha d (Revoke tok now) = seqA (token_revoke sha tok now) (\<lambda>_. okA None) d"

definition consumed :: "string \<Rightarrow> token_op \<Rightarrow> storage_error + (string \<times> string) option \<Rightarrow> bool" where
  "consumed tok op r \<longleftrightarrow> (\<exists>now uc. op = Consume tok now \<and> r = Inr (Some uc))"

definition token_spent :: "string \<Rightarrow> db \<Rightarrow> bool" where
  "token_spent h d \<longleftrightarrow> h \<in> set (map t_hash (t_tokens d))
     \<and> (\<forall>t \<in> set (t_tokens d). t_hash t = h \<longrightarrow> t_revoked_at t \<noteq> None)"

definition token_keys :: "db \<Rightarrow> bool" where
  "token_keys d \<longleftrightarrow> distinct (map t_hash (t_tokens d))"

lemma ignores_faults_token [simp]: "ignores_faults (token_spent h)" "ignores_faults token_keys"
  by (simp_all add: ignores_faults_def token_spent_def token_keys_def)

lemma revoke_if_simps [simp]:
  "t_hash (if b then t\<lparr>t_revoked_at := x\<rparr> else t) = t_hash t"
  "t_revoked_at (if b then t\<lparr>t_revoked_at := x\<rparr> else t) = (if b then x else t_revoked_at t)"
  by simp_all

lemma map_revoke_hash [simp]:
  "map (t_hash \<circ> (\<lambda>t. if P t then t\<lparr>t_revoked_at := x\<rparr> else t)) ts = map t_hash ts"
  by simp

lemma token_spent_revoke:
  "token_spent h d \<Longrightarrow> token_spent h
     (d\<lparr>t_tokens := map (\<lambda>t. if P t then t\<lparr>t_revoked_at := Some now\<rparr> else t) (t_tokens d)\<rparr>)"
  unfolding token_spent_def by (auto simp del: set_map) (auto simp: image_iff)

lemma keeps_spent:
  "keeps (token_spent h) (create_refresh sha tok u c e)"
  "keeps (token_spent h) (validate_refresh sha tok now)"
  "keeps (token_spent h) (token_revoke sha tok now)"
  "keeps (token_spent h) (validate_and_revoke sha tok now)"
  unfolding create_refresh_def validate_refresh_def token_revoke_def validate_and_revoke_def
     apply (rule keeps_stmt, simp, auto simp: token_spent_def)[1]
    apply (rule keeps_query, simp)
   apply (rule keeps_stmt, simp, simp add: token_spent_revoke)
  apply (rule keeps_stmt, simp, simp add: token_spent_revoke)
  done

lemma keeps_token_keys:
  "keeps token_keys (create_refresh sha tok u c e)"
  "keeps token_keys (validate_refresh sha tok now)"
  "keeps token_keys (token_revoke sha tok now)"
  "keeps token_keys (validate_and_revoke sha tok now)"
  unfolding create_refresh_def validate_refresh_def token_revoke_def validate_and_revoke_def
     apply (rule keeps_stmt, simp, auto simp: token_keys_def)[1]
    apply (rule keeps_query, simp)
   apply (rule keeps_stmt, simp, simp add: token_keys_def)
  apply (rule keeps_stmt, simp, simp add: token_keys_def)
  done

lemma keeps_token_step:
  "keeps (token_spent h) (\<lambda>d. token_step sha d op)" "keeps token_keys (\<lambda>d. token_step sha d op)"
  by (cases op; auto simp: keeps_spent keeps_token_keys intro!: keeps_seqA)+

lemma consumed_stepD:
  "consumed tok op (fst (token_step sha s op)) \<Longrightarrow>
     \<exists>now uc d'. op = Consume tok now \<and> validate_and_revoke sha tok now s = (Inr (Some uc), d')"
  by (cases "token_step sha s op") (auto simp: consumed_def)

lemma consume_grants:
  assumes "validate_and_revoke sha tok now d = (Inr (Some uc), d')"
  obtains fs t where "t \<in> set (t_tokens d)" "token_live (sha tok) now t"
    "d' = d\<lparr>t_tokens := map (\<lambda>t. if token_live (sha tok) now t then t\<lparr>t_revoked_at := Some now\<rparr> else t)
                        (t_tokens d), faults := fs\<rparr>"
  using assms unfolding validate_and_revoke_def
  by (cases d) (auto elim!: stmt_Inr dest!: find_SomeD)

lemma same_hash: "token_keys d \<Longrightarrow> t \<in> set (t_tokens d) \<Longrightarrow> t' \<in> set (t_tokens d) \<Longrightarrow> t_hash t = t_hash t' \<Longrightarrow> t = t'"
  unfolding token_keys_def by (meson eq_key_imp_eq_value inj_on_eq_iff distinct_map)

lemma token_spent_consume:
  assumes keys: "token_keys d" and t: "t \<in> set (t_tokens d)" "token_live h now t"
  shows "token_spent h (d\<lparr>t_tokens := map (\<lambda>t. if token_live h now t then t\<lparr>t_revoked_at := Some now\<rparr> else t)
                        (t_tokens d), faults := fs\<rparr>)"
proof -
  let ?f = "\<lambda>t. if token_live h now t then t\<lparr>t_revoked_at := Some now\<rparr> else t"
  have only: "t' = t" if "t' \<in> set (t_tokens d)" "t_hash t' = h" for t'
    using that t same_hash [OF keys] by (auto simp: token_live_def)
  have rev: "t_revoked_at (?f t') \<noteq> None" if "t' \<in> set (t_tokens d)" "t_hash t' = h" for t'
    using only [OF that] t by simp
  have "h \<in> set (map t_hash (map ?f (t_tokens d)))"
    using t by (simp del: set_map) (auto simp: token_live_def)
  moreover have "\<forall>t' \<in> set (map ?f (t_tokens d)). t_hash t' = h \<longrightarrow> t_revoked_at t' \<noteq> None"
    unfolding set_map ball_simps using rev by (metis revoke_if_simps(1))
  ultimately show ?thesis unfolding token_spent_def by simp
qed

interpretation refresh: one_shot "token_step sha" "consumed tok" "token_spent (sha tok)" token_keys
  for sha :: "string \<Rightarrow> string" and tok :: string
proof unfold_locales
  fix op s
  assume keys: "token_keys s" and "consumed tok op (fst (token_step sha s op))"
  then obtain now uc d' where op: "op = Consume tok now"
    and g: "validate_and_revoke sha tok now s = (Inr (Some uc), d')"
    by (auto dest!: consumed_stepD)
  from g obtain fs t where t: "t \<in> set (t_tokens s)" "token_live (sha tok) now t"
    and d': "d' = s\<lparr>t_tokens := map (\<lambda>t. if token_live (sha tok) now t then t\<lparr>t_revoked_at := Some now\<rparr> else t)
                        (t_tokens s), faults := fs\<rparr>"
    by (rule consume_grants)
  with token_spent_consume [OF keys t] op g show "token_spent (sha tok) (snd (token_step sha s op))"
    by simp
next
  fix s op
  show "token_keys s \<Longrightarrow> token_keys (snd (token_step sha s op))"
    using keeps_token_step(2) [of sha op] by (simp add: keeps_def)
  show "token_spent (sha tok) s \<Longrightarrow> token_spent (sha tok) (snd (token_step sha s op))"
    using keeps_token_step(1) [of "sha tok" sha op] by (simp add: keeps_def)
  show "token_spent (sha tok) s \<Longrightarrow> \<not> consumed tok op (fst (token_step sha s op))"
  proof
    assume s: "token_spent (sha tok) s" and "consumed tok op (fst (token_step sha s op))"
    then obtain now uc d' where "validate_and_revoke sha tok now s = (Inr (Some uc), d')"
      by (auto dest!: consumed_stepD)
    then obtain t where "t \<in> set (t_tokens s)" "token_live (sha tok) now t" by (rule consume_grants)
    with s show False by (auto simp: token_spent_def token_live_def)
  qed
qed

text \<open>
  C21. Rotation is single use: over any sequence of issuing, checking, revoking and
  validate-and-revoke statements, with any failures of the database between them, at most one
  validate-and-revoke of a given refresh token yields its user and client.
\<close>
theorem refresh_token_single_use:
  assumes "distinct (map t_hash (t_tokens d))"
  shows "length (filter (\<lambda>(op, r). consumed tok op r) (zip ops (outcomes (token_step sha) d ops))) \<le> 1"
  by (rule refresh.at_most_once_list) (use assms in \<open>simp add: token_keys_def\<close>)

theorem refresh_token_single_use_witness:
  "let d = empty_db\<lparr>t_tokens := [\<lparr>t_hash = ''h'', t_user = ''u'', t_client = ''c'',
             t_expires_at = 100, t_revoked_at = None\<rparr>]\<rparr>
   in length (filter (\<lambda>(op, r). consumed ''h'' op r)
        (zip [Consume ''h'' 1, Consume ''h'' 2] (outcomes (token_step id) d [Consume ''h'' 1, Consume ''h'' 2]))) = 1"
  using refresh_token_single_use [where d = "empty_db\<lparr>t_tokens := [\<lparr>t_hash = ''h'', t_user = ''u'',
      t_client = ''c'', t_expires_at = 100, t_revoked_at = None\<rparr>]\<rparr>" and tok = "''h''" and sha = id
      and ops = "[Consume ''h'' 1, Consume ''h'' 2]"]
  by (simp add: consumed_def validate_and_revoke_def stmt_def empty_db_def token_live_def)

section \<open>Full-text queries\<close>

text \<open>
  FTS5's reading of a MATCH expression made of strings only: a string is quoted, a doubled quote
  inside stands for one, blanks separate strings. Anything else (a bare word, an operator, an
  unterminated string) has no reading here.
\<close>

fun fts_string :: "string \<Rightarrow> (string \<times> string) option" where
  "fts_string [] = None"
| "fts_string (c # cs) =
     (if c \<noteq> CHR 0x22 then map_option (\<lambda>(w, r). (c # w, r)) (fts_string cs)
      else case cs of [] \<Rightarrow> Some ([], [])
           | c' # cs' \<Rightarrow> if c' = CHR 0x22 then map_option (\<lambda>(w, r). (CHR 0x22 # w, r)) (fts_string cs')
                         else Some ([], cs))"

lemma fts_string_shorter: "fts_string s = Some (w, r) \<Longrightarrow> length r < length s"
  by (induction s arbitrary: w rule: fts_string.induct)
    (fastforce split: if_splits list.splits simp: less_Suc_eq)+

function fts_phrases :: "string \<Rightarrow> string list option" where
  "fts_phrases [] = Some []"
| "fts_phrases (c # cs) =
     (if c = CHR '' '' then fts_phrases cs
      else if c = CHR 0x22 then
        (case fts_string cs of None \<Rightarrow> None | Some (w, r) \<Rightarrow> map_option ((#) w) (fts_phrases r))
      else None)"
  by pat_completeness auto
termination
  by (relation "measure length") (auto dest: fts_string_shorter)

lemma fts_string_quoted:
  "rest = [] \<or> hd rest \<noteq> CHR 0x22 \<Longrightarrow>
     fts_string (replace_char (CHR 0x22) [CHR 0x22, CHR 0x22] w @ CHR 0x22 # rest) = Some (w, rest)"
  by (induction w) (auto simp: replace_char_def split: list.splits)

lemma fts_phrases_quote:
  "rest = [] \<or> hd rest \<noteq> CHR 0x22 \<Longrightarrow>
     fts_phrases (quote_token w @ rest) = map_option ((#) w) (fts_phrases rest)"
  by (simp add: quote_token_def fts_string_quoted)

lemma fts_phrases_join: "fts_phrases (join_with '' '' (map quote_token ws)) = Some ws"
proof (induction ws rule: induct_list012)
  case (2 w)
  then show ?case using fts_phrases_quote [of "[]" w] by simp
next
  case (3 a b us)
  then show ?case
    using fts_phrases_quote [of "CHR '' '' # join_with '' '' (map quote_token (b # us))" a] by simp
qed simp

text \<open>
  C24. A user's search text can never act as FTS5 syntax: the MATCH expression the code builds
  reads back as the conjunction of exactly the whitespace-separated words of the text, quotes
  and operators included as literals, and as one empty phrase when there is no word.
\<close>
theorem fts5_escape_literal:
  "fts_phrases (fts5_escape s) = Some (if split_whitespace s = [] then [[]] else split_whitespace s)"
proof (cases "split_whitespace s")
  case Nil
  then show ?thesis by (simp add: fts5_escape_def)
next
  case (Cons w ws)
  then show ?thesis using fts_phrases_join [of "split_whitespace s"] by (simp add: fts5_escape_def)
qed

text \<open>
  A search of raws returns at most its clamped limit of rows (1 to 100 for any requested
  number), each of them a match that belongs to the scope and the owner asked for.
\<close>
lemma search_raws_scoped:
  assumes "search_raws fts q d = (Inr rows, d')"
  shows "length rows \<le> nat (clamp (sq_limit q) 1 100) \<and> length rows \<le> 100
     \<and> (\<forall>r \<in> set rows. r \<in> set (fts (t_raws d) (fts5_escape (sq_query q)))
          \<and> (\<forall>s. sq_scope q = Some s \<longrightarrow> r_scope r = scope_as_str s)
          \<and> (\<forall>ow. sq_owner q = Some ow \<longrightarrow> r_owner r = ow))"
proof -
  from assms obtain fs where rows: "rows = take (nat (clamp (sq_limit q) 1 100)) (filter
        (\<lambda>r. (case sq_scope q of None \<Rightarrow> True | Some s \<Rightarrow> r_scope r = scope_as_str s)
             \<and> (case sq_owner q of None \<Rightarrow> True | Some ow \<Rightarrow> r_owner r = ow))
        (fts (t_raws d) (fts5_escape (sq_query q))))"
    by (auto simp: search_raws_def Let_def elim!: query_Inr)
  have "nat (clamp (sq_limit q) 1 100) \<le> 100" by (auto simp: clamp_def)
  then show ?thesis unfolding rows by (auto dest!: set_take_subset_iff split: option.splits)
qed

section \<open>Read-only statements and the wiki table\<close>

lemma same_tables_refl [simp]: "same_tables d d"
  unfolding same_tables_def by (rule exI [of _ "faults d"]) simp

lemma same_tables_trans: "same_tables a b \<Longrightarrow> same_tables b c \<Longrightarrow> same_tables a c"
  by (auto simp: same_tables_def)

lemma same_tables_faults [simp]: "same_tables d (d\<lparr>faults := fs\<rparr>)"
  by (auto simp: same_tables_def)

lemma same_tablesD:
  assumes "same_tables d d'"
  shows "t_raws d' = t_raws d" "t_wikis d' = t_wikis d" "t_users d' = t_users d"
    "t_tokens d' = t_tokens d" "t_clients d' = t_clients d" "t_schemas d' = t_schemas d" "t_shared d' = t_shared d"
  using assms by (auto simp: same_tables_def)

definition read_only :: "'a dbop \<Rightarrow> bool" where
  "read_only m \<longleftrightarrow> (\<forall>d. same_tables d (snd (m d)))"

lemma read_only_query [intro, simp]: "read_only (query f)"
  unfolding read_only_def same_tables_def using query_frame by blast

lemma read_only_okA [intro, simp]: "read_only (okA x)"
  by (simp add: read_only_def)

lemma read_only_seqA [intro]:
  assumes "read_only m" "\<And>x. read_only (f x)"
  shows "read_only (seqA m f)"
  unfolding read_only_def
proof
  fix d
  obtain r d' where m: "m d = (r, d')" by fastforce
  with assms(1) have "same_tables d d'" by (metis read_only_def snd_conv)
  moreover have "same_tables d' (snd (f x d'))" for x using assms(2) by (simp add: read_only_def)
  ultimately show "same_tables d (snd (seqA m f d))"
    using m by (cases r) (auto intro: same_tables_trans)
qed

lemma read_onlyD: "read_only m \<Longrightarrow> m d = (r, d') \<Longrightarrow> same_tables d d'"
  by (metis read_only_def snd_conv)

lemma read_only_stmts [intro, simp]:
  "read_only (raws_get i)" "read_only (raws_list_since sc ow a b)" "read_only (wikis_get sc ow c)"
  "read_only (wikis_list_concepts sc ow)" "read_only (wikis_max_last_rebuilt_at sc ow)"
  "read_only (wikis_count_concepts sc ow)" "read_only (search_raws fts q)"
  by (simp_all add: raws_get_def raws_list_since_def wikis_get_def wikis_list_concepts_def
      wikis_max_last_rebuilt_at_def wikis_count_concepts_def search_raws_def Let_def)

definition owner_concepts :: "scope \<Rightarrow> string \<Rightarrow> wiki list \<Rightarrow> string list" where
  "owner_concepts sc ow ws = map w_concept (filter (\<lambda>w. w_scope w = scope_as_str sc \<and> w_owner w = ow) ws)"

definition others :: "scope \<Rightarrow> string \<Rightarrow> wiki list \<Rightarrow> wiki list" where
  "others sc ow ws = filter (\<lambda>w. \<not> (w_scope w = scope_as_str sc \<and> w_owner w = ow)) ws"

lemma owner_concepts_wikis: "map w_concept (owner_wikis sc ow d) = owner_concepts sc ow (t_wikis d)"
  by (simp add: owner_wikis_def owner_concepts_def)

lemma wiki_at_iff: "(\<exists>w \<in> set ws. wiki_at sc ow c w) \<longleftrightarrow> c \<in> set (owner_concepts sc ow ws)"
  by (auto simp: wiki_at_def owner_concepts_def)

lemma owner_concepts_map:
  "(\<And>w. w_scope (f w) = w_scope w \<and> w_owner (f w) = w_owner w \<and> w_concept (f w) = w_concept w) \<Longrightarrow>
     owner_concepts sc ow (map f ws) = owner_concepts sc ow ws"
  by (induction ws) (auto simp: owner_concepts_def)

lemma owner_concepts_put:
  "owner_concepts sc ow (wiki_put sc ow c x r a ws)
     = (if c \<in> set (owner_concepts sc ow ws) then owner_concepts sc ow ws else owner_concepts sc ow ws @ [c])"
proof (cases "c \<in> set (owner_concepts sc ow ws)")
  case True
  then show ?thesis unfolding wiki_put_def wiki_at_iff by (simp add: owner_concepts_map)
next
  case False
  then show ?thesis unfolding wiki_put_def wiki_at_iff by (simp add: owner_concepts_def)
qed

lemma others_put: "others sc ow (wiki_put sc ow c x r a ws) = others sc ow ws"
proof -
  have "others sc ow (map (\<lambda>w. if wiki_at sc ow c w then f w else w) ws) = others sc ow ws"
    if "\<And>w. w_scope (f w) = w_scope w \<and> w_owner (f w) = w_owner w" for f
    using that by (induction ws) (auto simp: others_def wiki_at_def)
  then show ?thesis by (simp add: wiki_put_def) (simp add: others_def)
qed

lemma wiki_put_set:
  "w \<in> set (wiki_put sc ow c x r a ws) \<Longrightarrow> w \<in> set ws \<or> (wiki_at sc ow c w \<and> w_content w = x
      \<and> w_source_refs w = r \<and> w_last_rebuilt_at w = a)"
  by (auto simp: wiki_put_def wiki_at_def split: if_splits)

end
