(* ===== verification/Vp_Store.thy ===== *)
theory Vp_Store
  imports Storage
begin

text \<open>
  \<open>vegapunk-memory-storage\<close>: users with the name of their graph schema, shared memories, OAuth clients and
  refresh tokens. The statements on the last two tables are those of \<open>llm-memory-storage\<close>, word for
  word; \<open>on_auth_tables\<close> runs them on this database.
\<close>

section \<open>The database\<close>

record vp_user =
  vu_id :: string
  vu_provider :: string
  vu_subject :: string
  vu_email :: "string option"
  vu_schema :: string
  vu_created_at :: int

record vp_shared =
  vm_id :: string
  vm_name :: string
  vm_schema :: string
  vm_created_at :: int

record vstore =
  vs_users :: "vp_user list"
  vs_shared :: "vp_shared list"
  vs_clients :: "oauth_client list"
  vs_tokens :: "token_row list"
  vs_faults :: "bool list"

type_synonym 'a vop = "(vstore, storage_error, 'a) act"

definition vstmt :: "'a vop \<Rightarrow> 'a vop" where
  "vstmt f s = (case vs_faults s of [] \<Rightarrow> f s
     | b # bs \<Rightarrow> (if b then (Inl Sqlx, s\<lparr>vs_faults := bs\<rparr>) else f (s\<lparr>vs_faults := bs\<rparr>)))"

definition vquery :: "(vstore \<Rightarrow> 'a) \<Rightarrow> 'a vop" where
  "vquery f = vstmt (\<lambda>s. (Inr (f s), s))"

definition auth_tables :: "vstore \<Rightarrow> db" where
  "auth_tables s = empty_db\<lparr>t_users := map (\<lambda>u. \<lparr>u_id = vu_id u, u_provider = vu_provider u, u_subject = vu_subject u,
       u_email = vu_email u, u_created_at = vu_created_at u\<rparr>) (vs_users s),
     t_clients := vs_clients s, t_tokens := vs_tokens s, faults := vs_faults s\<rparr>"

definition on_auth_tables :: "'a dbop \<Rightarrow> 'a vop" where
  "on_auth_tables f s = (case f (auth_tables s) of
     (r, d) \<Rightarrow> (r, s\<lparr>vs_clients := t_clients d, vs_tokens := t_tokens d, vs_faults := faults d\<rparr>))"

section \<open>users.rs\<close>

definition vp_user_for :: "string \<Rightarrow> string \<Rightarrow> vp_user \<Rightarrow> bool" where
  "vp_user_for provider subject u \<longleftrightarrow> vu_provider u = provider \<and> vu_subject u = subject"

definition find_by_provider_subject :: "string \<Rightarrow> string \<Rightarrow> vp_user option vop" where
  "find_by_provider_subject provider subject = vquery (\<lambda>s. find (vp_user_for provider subject) (vs_users s))"

definition vp_find_by_id :: "string \<Rightarrow> vp_user option vop" where
  "vp_find_by_id i = vquery (\<lambda>s. find (\<lambda>u. vu_id u = i) (vs_users s))"

definition new_user :: "string \<Rightarrow> string \<Rightarrow> string \<Rightarrow> string option \<Rightarrow> string \<Rightarrow> int \<Rightarrow> vp_user" where
  "new_user i provider subject email schema now = \<lparr>vu_id = i, vu_provider = provider, vu_subject = subject,
     vu_email = email, vu_schema = schema, vu_created_at = now\<rparr>"

definition vp_user_insert :: "string \<Rightarrow> string \<Rightarrow> string \<Rightarrow> string option \<Rightarrow> string \<Rightarrow> int \<Rightarrow> vp_user vop" where
  "vp_user_insert i provider subject email schema now =
     vstmt (\<lambda>s. if (\<exists>u \<in> set (vs_users s). vp_user_for provider subject u \<or> vu_id u = i) then (Inl Sqlx, s)
       else (Inr (new_user i provider subject email schema now),
             s\<lparr>vs_users := vs_users s @ [new_user i provider subject email schema now]\<rparr>))"

text \<open>\<open>INSERT ... ON CONFLICT(provider, subject) DO NOTHING\<close>: a clash of the id is still an error.\<close>

definition vp_user_insert_or_ignore :: "string \<Rightarrow> string \<Rightarrow> string \<Rightarrow> string option \<Rightarrow> string \<Rightarrow> int \<Rightarrow> unit vop" where
  "vp_user_insert_or_ignore i provider subject email schema now =
     vstmt (\<lambda>s. if \<exists>u \<in> set (vs_users s). vp_user_for provider subject u then (Inr (), s)
       else if \<exists>u \<in> set (vs_users s). vu_id u = i then (Inl Sqlx, s)
       else (Inr (), s\<lparr>vs_users := vs_users s @ [new_user i provider subject email schema now]\<rparr>))"

definition find_or_provision :: "string \<Rightarrow> string \<Rightarrow> string \<Rightarrow> string option \<Rightarrow> string \<Rightarrow> int \<Rightarrow> vp_user vop" where
  "find_or_provision new_id provider subject email new_schema now =
     seqA (find_by_provider_subject provider subject) (\<lambda>existing.
       case existing of
         Some u \<Rightarrow> okA u
       | None \<Rightarrow> seqA (vp_user_insert_or_ignore new_id provider subject email new_schema now) (\<lambda>_.
                 seqA (find_by_provider_subject provider subject) (\<lambda>r. liftE (of_option NotFound r))))"

section \<open>shared_memories.rs\<close>

definition vp_shared_create :: "string \<Rightarrow> string \<Rightarrow> string \<Rightarrow> int \<Rightarrow> vp_shared vop" where
  "vp_shared_create i name schema now =
     (let row = \<lparr>vm_id = i, vm_name = name, vm_schema = schema, vm_created_at = now\<rparr> in
      vstmt (\<lambda>s. if i \<in> vm_id ` set (vs_shared s) then (Inl Sqlx, s) else (Inr row, s\<lparr>vs_shared := vs_shared s @ [row]\<rparr>)))"

definition vp_shared_list_all :: "vp_shared list vop" where
  "vp_shared_list_all = vquery (\<lambda>s. sort_key vm_id (vs_shared s))"

definition vp_shared_find_by_id :: "string \<Rightarrow> vp_shared option vop" where
  "vp_shared_find_by_id i = vquery (\<lambda>s. find (\<lambda>m. vm_id m = i) (vs_shared s))"

section \<open>oauth_clients.rs and tokens.rs\<close>

definition vp_client_register :: "string \<Rightarrow> int \<Rightarrow> string \<Rightarrow> string \<Rightarrow> string \<Rightarrow> string option \<Rightarrow> oauth_client vop" where
  "vp_client_register ulid now uris grants auth name = on_auth_tables (client_register ulid now uris grants auth name)"

definition vp_client_get :: "string \<Rightarrow> oauth_client option vop" where
  "vp_client_get i = on_auth_tables (client_get i)"

definition vp_client_touch :: "int \<Rightarrow> string \<Rightarrow> unit vop" where
  "vp_client_touch now i = on_auth_tables (client_touch_last_seen now i)"

definition vp_create_refresh :: "(string \<Rightarrow> string) \<Rightarrow> string \<Rightarrow> string \<Rightarrow> string \<Rightarrow> int \<Rightarrow> unit vop" where
  "vp_create_refresh sha tok uid cid exp = on_auth_tables (create_refresh sha tok uid cid exp)"

definition vp_validate_refresh :: "(string \<Rightarrow> string) \<Rightarrow> string \<Rightarrow> int \<Rightarrow> (string \<times> string) option vop" where
  "vp_validate_refresh sha tok now = on_auth_tables (validate_refresh sha tok now)"

definition vp_revoke :: "(string \<Rightarrow> string) \<Rightarrow> string \<Rightarrow> int \<Rightarrow> unit vop" where
  "vp_revoke sha tok now = on_auth_tables (token_revoke sha tok now)"

definition vp_validate_and_revoke :: "(string \<Rightarrow> string) \<Rightarrow> string \<Rightarrow> int \<Rightarrow> (string \<times> string) option vop" where
  "vp_validate_and_revoke sha tok now = on_auth_tables (validate_and_revoke sha tok now)"

lemmas vp_token_defs = vp_create_refresh_def vp_validate_refresh_def vp_revoke_def vp_validate_and_revoke_def
lemmas vp_client_defs = vp_client_register_def vp_client_get_def vp_client_touch_def

section \<open>What lasts\<close>

text \<open>User rows are only ever added; a client keeps its identifier, redirect URIs and grants.\<close>

definition client_terms :: "oauth_client \<Rightarrow> string \<times> string \<times> string" where
  "client_terms c = (oc_id c, oc_redirect_uris c, oc_grant_types c)"

definition lasts :: "vstore \<Rightarrow> vstore \<Rightarrow> bool" where
  "lasts s s' \<longleftrightarrow> (\<exists>us. vs_users s' = vs_users s @ us) \<and> client_terms ` set (vs_clients s) \<subseteq> client_terms ` set (vs_clients s')"

definition users_inv :: "vstore \<Rightarrow> bool" where
  "users_inv s \<longleftrightarrow> distinct (map vu_id (vs_users s)) \<and> distinct (map (\<lambda>u. (vu_provider u, vu_subject u)) (vs_users s))"

lemma lasts_refl: "lasts s s"
  by (simp add: lasts_def)

lemma lasts_trans:
  assumes "lasts s s'" "lasts s' s''"
  shows "lasts s s''"
proof -
  from assms obtain us us' where "vs_users s' = vs_users s @ us" "vs_users s'' = vs_users s' @ us'"
    by (auto simp: lasts_def)
  then have "vs_users s'' = vs_users s @ us @ us'" by simp
  moreover have "client_terms ` set (vs_clients s) \<subseteq> client_terms ` set (vs_clients s'')"
    using assms unfolding lasts_def by (meson subset_trans)
  ultimately show ?thesis unfolding lasts_def by blast
qed

lemma vstmt_cases:
  obtains (fault) fs where "vs_faults s = True # fs" "vstmt f s = (Inl Sqlx, s\<lparr>vs_faults := fs\<rparr>)"
  | (run) fs where "vstmt f s = f (s\<lparr>vs_faults := fs\<rparr>)"
proof (cases "vs_faults s")
  case Nil
  then have "vstmt f s = f (s\<lparr>vs_faults := []\<rparr>)" by (cases s) (simp add: vstmt_def)
  then show ?thesis by (rule run)
next
  case (Cons b bs)
  then show ?thesis by (cases b) (auto simp: vstmt_def intro: fault run)
qed

text \<open>An operation that lasts, and keeps the uniqueness of users.\<close>

definition lasting :: "(vstore \<Rightarrow> 'r \<times> vstore) \<Rightarrow> bool" where
  "lasting m \<longleftrightarrow> (\<forall>s. lasts s (snd (m s)) \<and> (users_inv s \<longrightarrow> users_inv (snd (m s))))"

lemma lasting_seqA: "lasting m \<Longrightarrow> (\<And>x. lasting (f x)) \<Longrightarrow> lasting (seqA m f)"
  unfolding lasting_def
proof
  fix s
  assume m: "\<forall>s. lasts s (snd (m s)) \<and> (users_inv s \<longrightarrow> users_inv (snd (m s)))"
    and f: "\<And>x. \<forall>s. lasts s (snd (f x s)) \<and> (users_inv s \<longrightarrow> users_inv (snd (f x s)))"
  obtain r s' where ms: "m s = (r, s')" by fastforce
  with m have s': "lasts s s'" "users_inv s \<longrightarrow> users_inv s'" by (metis snd_conv)+
  show "lasts s (snd (seqA m f s)) \<and> (users_inv s \<longrightarrow> users_inv (snd (seqA m f s)))"
    using ms s' f lasts_trans [OF s'(1)] by (cases r) auto
qed

lemma lasting_okA: "lasting (okA x)"
  by (simp add: lasting_def lasts_refl)

lemma lasting_liftE: "lasting (liftE x)"
  by (simp add: lasting_def lasts_refl)

lemma lasting_vstmt:
  assumes "\<And>s. lasts s (snd (f s))" "\<And>s. users_inv s \<Longrightarrow> users_inv (snd (f s))"
  shows "lasting (vstmt f)"
  unfolding lasting_def
proof
  fix s
  have f: "lasts s (s\<lparr>vs_faults := fs\<rparr>)" "users_inv (s\<lparr>vs_faults := fs\<rparr>) = users_inv s" for fs
    by (simp_all add: lasts_def users_inv_def)
  show "lasts s (snd (vstmt f s)) \<and> (users_inv s \<longrightarrow> users_inv (snd (vstmt f s)))"
    by (cases rule: vstmt_cases [of s f]) (use f assms(2) lasts_trans [OF f(1) assms(1)] in auto)
qed

lemma lasting_vquery: "lasting (vquery f)"
  unfolding vquery_def by (rule lasting_vstmt) (simp_all add: lasts_refl)

lemma lasting_insert: "lasting (vp_user_insert_or_ignore i provider subject email schema now)"
  unfolding vp_user_insert_or_ignore_def
  by (rule lasting_vstmt) (auto simp: lasts_def users_inv_def new_user_def vp_user_for_def)

lemma lasting_provision: "lasting (find_or_provision i provider subject email schema now)"
  unfolding find_or_provision_def find_by_provider_subject_def
  by (intro lasting_seqA lasting_vquery) (auto intro!: lasting_seqA lasting_vquery lasting_insert lasting_okA lasting_liftE split: option.splits)

lemma lasting_auth_tables:
  assumes "\<And>d. client_terms ` set (t_clients d) \<subseteq> client_terms ` set (t_clients (snd (f d)))"
  shows "lasting (on_auth_tables f)"
proof -
  have "client_terms ` set (vs_clients s) \<subseteq> client_terms ` set (t_clients (snd (f (auth_tables s))))" for s
    using assms [of "auth_tables s"] by (simp add: auth_tables_def)
  then show ?thesis
    by (simp add: lasting_def lasts_def users_inv_def on_auth_tables_def split_beta)
qed

lemma stmt_clients:
  assumes "\<And>d. client_terms ` set (t_clients d) \<subseteq> client_terms ` set (t_clients (snd (f d)))"
  shows "client_terms ` set (t_clients d) \<subseteq> client_terms ` set (t_clients (snd (stmt f d)))"
  by (cases rule: stmt_cases [of d f]) (use assms [of "d\<lparr>faults := fs\<rparr>" for fs] in auto)

lemma client_terms_touch:
  "client_terms ` set (map (\<lambda>c. if P c then c\<lparr>oc_last_seen_at := x\<rparr> else c) cs) = client_terms ` set cs"
  by (induction cs) (simp_all add: client_terms_def)

lemma lasting_vp:
  "lasting (vp_client_register ulid now uris grants auth name)" "lasting (vp_client_get i)" "lasting (vp_client_touch now i)"
  "lasting (vp_create_refresh sha tok uid cid exp)" "lasting (vp_revoke sha tok now)"
  "lasting (vp_validate_and_revoke sha tok now)"
  unfolding vp_client_defs vp_token_defs client_register_def client_get_def client_touch_last_seen_def create_refresh_def
    token_revoke_def validate_and_revoke_def query_def Let_def
  by (rule lasting_auth_tables, rule stmt_clients, simp add: client_terms_touch image_mono subset_insertI2 del: set_map)+

end
