(* ===== verification/Vp_Race.thy ===== *)
theory Vp_Race
  imports Vp_Store
begin

text \<open>
  First logins at the same time: \<open>find_or_provision\<close> is three statements, and those of any number of logins
  interleave with one another and with every other use of the tables. Its comment promises that the loser of the
  race gets the winner's row.
\<close>

section \<open>A login statement by statement\<close>

datatype login_phase =
    Looking
  | Inserting
  | Rereading
  | Answered "storage_error + vp_user"

record login =
  lo_id :: string
  lo_provider :: string
  lo_subject :: string
  lo_email :: "string option"
  lo_schema :: string
  lo_now :: int
  lo_phase :: login_phase

definition new_login :: "string \<Rightarrow> string \<Rightarrow> string \<Rightarrow> string option \<Rightarrow> string \<Rightarrow> int \<Rightarrow> login" where
  "new_login i provider subject email schema now = \<lparr>lo_id = i, lo_provider = provider, lo_subject = subject,
     lo_email = email, lo_schema = schema, lo_now = now, lo_phase = Looking\<rparr>"

definition next_phase :: "login \<Rightarrow> vstore \<Rightarrow> login_phase \<times> vstore" where
  "next_phase l s = (case lo_phase l of
       Looking \<Rightarrow> (case find_by_provider_subject (lo_provider l) (lo_subject l) s of
           (Inl e, t) \<Rightarrow> (Answered (Inl e), t)
         | (Inr (Some u), t) \<Rightarrow> (Answered (Inr u), t)
         | (Inr None, t) \<Rightarrow> (Inserting, t))
     | Inserting \<Rightarrow> (case vp_user_insert_or_ignore (lo_id l) (lo_provider l) (lo_subject l) (lo_email l) (lo_schema l) (lo_now l) s of
           (Inl e, t) \<Rightarrow> (Answered (Inl e), t)
         | (Inr _, t) \<Rightarrow> (Rereading, t))
     | Rereading \<Rightarrow> (case find_by_provider_subject (lo_provider l) (lo_subject l) s of
           (Inl e, t) \<Rightarrow> (Answered (Inl e), t)
         | (Inr r, t) \<Rightarrow> (Answered (of_option NotFound r), t))
     | Answered r \<Rightarrow> (Answered r, s))"

definition login_step :: "login \<times> vstore \<Rightarrow> login \<times> vstore" where
  "login_step p = (case next_phase (fst p) (snd p) of (ph, t) \<Rightarrow> ((fst p)\<lparr>lo_phase := ph\<rparr>, t))"

text \<open>With nobody between its statements, a login is \<open>find_or_provision\<close>.\<close>

lemma login_alone:
  "(login_step ^^ 3) (new_login i provider subject email schema now, s)
     = (case find_or_provision i provider subject email schema now s of
          (r, t) \<Rightarrow> ((new_login i provider subject email schema now)\<lparr>lo_phase := Answered r\<rparr>, t))"
proof -
  obtain r1 s1 where 1: "find_by_provider_subject provider subject s = (r1, s1)" by fastforce
  obtain r2 s2 where 2: "vp_user_insert_or_ignore i provider subject email schema now s1 = (r2, s2)" by fastforce
  obtain r3 s3 where 3: "find_by_provider_subject provider subject s2 = (r3, s3)" by fastforce
  note defs = numeral_eq_Suc login_step_def next_phase_def new_login_def find_or_provision_def seqA_def okA_def liftE_def 1
  show ?thesis
  proof (cases r1)
    case (Inl e)
    then show ?thesis by (simp add: defs)
  next
    case (Inr x)
    show ?thesis
    proof (cases x)
      case None
      then show ?thesis using Inr by (cases r2; cases r3) (simp_all add: defs 2 3)
    next
      case (Some u)
      then show ?thesis using Inr by (simp add: defs)
    qed
  qed
qed

section \<open>Any interleaving\<close>

text \<open>
  A login begins, makes a statement, or something else uses the tables: any operation of the store that keeps the
  users there are, which all of them do (\<open>lasting\<close>).
\<close>

inductive race :: "vstore \<times> login list \<Rightarrow> vstore \<times> login list \<Rightarrow> bool" where
  begins: "race (s, ls) (s, ls @ [new_login i provider subject email schema now])"
| statement: "login_step (l, s) = (l', s') \<Longrightarrow> race (s, ks @ l # ls) (s', ks @ l' # ls)"
| elsewhere: "lasts s s' \<Longrightarrow> (users_inv s \<Longrightarrow> users_inv s') \<Longrightarrow> race (s, ls) (s', ls)"

lemma race_lasting: "lasting f \<Longrightarrow> race (s, ls) (snd (f s), ls)"
  by (rule race.elsewhere) (simp_all add: lasting_def)

inductive races :: "vstore \<times> login list \<Rightarrow> vstore \<times> login list \<Rightarrow> bool" where
  here: "races c c"
| more: "races c c' \<Longrightarrow> race c' c'' \<Longrightarrow> races c c''"

section \<open>What every login knows\<close>

definition knows :: "vstore \<Rightarrow> login \<Rightarrow> bool" where
  "knows s l \<longleftrightarrow> (case lo_phase l of
       Looking \<Rightarrow> True
     | Inserting \<Rightarrow> True
     | Rereading \<Rightarrow> \<exists>u \<in> set (vs_users s). vp_user_for (lo_provider l) (lo_subject l) u
     | Answered (Inr u) \<Rightarrow> u \<in> set (vs_users s) \<and> vp_user_for (lo_provider l) (lo_subject l) u
     | Answered (Inl e) \<Rightarrow> e = Sqlx)"

lemma knows_lasts: "knows s l \<Longrightarrow> lasts s s' \<Longrightarrow> knows s' l"
  by (auto simp: knows_def lasts_def split: login_phase.splits sum.splits)

lemma lookup_result:
  assumes "find_by_provider_subject provider subject s = (r, t)"
  shows "vs_users t = vs_users s \<and> (r = Inl Sqlx \<or> r = Inr (find (vp_user_for provider subject) (vs_users s)))"
  using assms by (auto simp: find_by_provider_subject_def vquery_def vstmt_def split: list.splits if_splits)

lemma provision_result:
  assumes "vp_user_insert_or_ignore i provider subject email schema now s = (r, t)"
  shows "r = Inl Sqlx \<or> r = Inr () \<and> (\<exists>u \<in> set (vs_users t). vp_user_for provider subject u)"
  using assms by (auto simp: vp_user_insert_or_ignore_def vstmt_def new_user_def vp_user_for_def split: list.splits if_splits)

lemma lasting_find: "lasting (find_by_provider_subject provider subject)"
  unfolding find_by_provider_subject_def by (rule lasting_vquery)

lemma lasting_next: "lasting (next_phase l)"
proof -
  have "lasting (find_by_provider_subject (lo_provider l) (lo_subject l))"
    "lasting (vp_user_insert_or_ignore (lo_id l) (lo_provider l) (lo_subject l) (lo_email l) (lo_schema l) (lo_now l))"
    by (rule lasting_find lasting_insert)+
  then show ?thesis
    by (auto simp: lasting_def next_phase_def lasts_refl split: login_phase.split prod.split sum.split option.split) (metis snd_conv)+
qed

lemma knows_next:
  assumes k: "knows s l" and n: "next_phase l s = (ph, t)"
  shows "knows t (l\<lparr>lo_phase := ph\<rparr>)"
proof (cases "lo_phase l")
  case Looking
  obtain r t' where f: "find_by_provider_subject (lo_provider l) (lo_subject l) s = (r, t')" by fastforce
  from lookup_result [OF f] show ?thesis using n f Looking
    by (auto simp: next_phase_def knows_def find_Some_iff split: option.splits)
next
  case Inserting
  obtain r t' where f: "vp_user_insert_or_ignore (lo_id l) (lo_provider l) (lo_subject l) (lo_email l) (lo_schema l) (lo_now l) s = (r, t')" by fastforce
  from provision_result [OF f] show ?thesis using n f Inserting by (cases r) (auto simp: next_phase_def knows_def)
next
  case Rereading
  obtain r t' where f: "find_by_provider_subject (lo_provider l) (lo_subject l) s = (r, t')" by fastforce
  have "\<exists>u \<in> set (vs_users s). vp_user_for (lo_provider l) (lo_subject l) u" using k Rereading by (simp add: knows_def)
  then obtain u where u: "find (vp_user_for (lo_provider l) (lo_subject l)) (vs_users s) = Some u"
    by (cases "find (vp_user_for (lo_provider l) (lo_subject l)) (vs_users s)") (auto simp: find_None_iff)
  then have m: "u \<in> set (vs_users s)" "vp_user_for (lo_provider l) (lo_subject l) u" by (auto simp: find_Some_iff)
  show ?thesis using lookup_result [OF f] n f Rereading m by (auto simp: next_phase_def knows_def u)
next
  case (Answered r)
  then have "ph = Answered r" "t = s" using n by (simp_all add: next_phase_def)
  then show ?thesis using k Answered by (cases r) (simp_all add: knows_def)
qed

definition race_inv :: "vstore \<times> login list \<Rightarrow> bool" where
  "race_inv c \<longleftrightarrow> users_inv (fst c) \<and> (\<forall>l \<in> set (snd c). knows (fst c) l)"

lemma race_inv_step: "race c c' \<Longrightarrow> race_inv c \<Longrightarrow> race_inv c'"
proof (induction rule: race.induct)
  case (begins s ls)
  then show ?case by (auto simp: race_inv_def knows_def new_login_def)
next
  case (statement l s l' s' ks ls)
  obtain ph where n: "next_phase l s = (ph, s')" and l': "l' = l\<lparr>lo_phase := ph\<rparr>"
    using statement(1) by (auto simp: login_step_def split: prod.splits)
  have "lasts s s'" "users_inv s'" using lasting_next [of l] n statement(2) by (auto simp: lasting_def race_inv_def dest: spec [of _ s])
  then show ?case using statement(2) knows_lasts knows_next [OF _ n] by (auto simp: race_inv_def l')
next
  case (elsewhere s s' ls)
  then show ?case using knows_lasts by (auto simp: race_inv_def)
qed

lemma race_inv_run: "races c c' \<Longrightarrow> race_inv c \<Longrightarrow> race_inv c'"
  by (induction rule: races.induct) (blast intro: race_inv_step)+

lemma race_users: "races c c' \<Longrightarrow> lasts (fst c) (fst c')"
proof (induction rule: races.induct)
  case (more c c' c'')
  from more(2) have "lasts (fst c') (fst c'')"
  proof (induction rule: race.induct)
    case (statement l s l' s' ks ls)
    then show ?case using lasting_next [of l] by (auto simp: login_step_def lasting_def split: prod.splits) (metis snd_conv)
  qed (auto simp: lasts_refl lasting_def)
  then show ?case using more(3) lasts_trans by blast
qed (rule lasts_refl)

section \<open>One user for one account\<close>

lemma one_row:
  assumes "users_inv s" "u \<in> set (vs_users s)" "u' \<in> set (vs_users s)" "vp_user_for p q u" "vp_user_for p q u'"
  shows "u = u'"
proof -
  have "inj_on (\<lambda>u. (vu_provider u, vu_subject u)) (set (vs_users s))" using assms(1) by (simp add: users_inv_def distinct_map)
  from inj_onD [OF this _ assms(2,3)] assms(4,5) show ?thesis by (simp add: vp_user_for_def)
qed

lemma one_id:
  assumes "users_inv s" "u \<in> set (vs_users s)" "u' \<in> set (vs_users s)" "vu_id u = vu_id u'"
  shows "u = u'"
proof -
  have "inj_on vu_id (set (vs_users s))" using assms(1) by (simp add: users_inv_def distinct_map)
  from inj_onD [OF this assms(4) assms(2,3)] show ?thesis .
qed

text \<open>A login that nobody disturbs from here on is answered with a user, unless a statement fails or its new identifier is another account's.\<close>

lemma login_finishes:
  assumes k: "knows s l" and s: "vs_faults s = []" "\<forall>u \<in> set (vs_users s). vu_id u = lo_id l \<longrightarrow> vp_user_for (lo_provider l) (lo_subject l) u"
    and n: "\<forall>e. lo_phase l \<noteq> Answered (Inl e)"
  shows "\<exists>u. lo_phase (fst ((login_step ^^ 3) (l, s))) = Answered (Inr u)"
proof -
  let ?p = "lo_provider l" and ?q = "lo_subject l"
  have find: "find_by_provider_subject ?p ?q t = (Inr (find (vp_user_for ?p ?q) (vs_users t)), t)" if "vs_faults t = []" for t
    using that by (simp add: find_by_provider_subject_def vquery_def vstmt_def)
  have stay: "login_step (l\<lparr>lo_phase := Answered r\<rparr>, t) = (l\<lparr>lo_phase := Answered r\<rparr>, t)" for r t
    by (simp add: login_step_def next_phase_def)
  have reread: "\<exists>u. login_step (l\<lparr>lo_phase := Rereading\<rparr>, t) = (l\<lparr>lo_phase := Answered (Inr u)\<rparr>, t)"
    if "vs_faults t = []" "\<exists>u \<in> set (vs_users t). vp_user_for ?p ?q u" for t
    using that find [OF that(1)] by (cases "find (vp_user_for ?p ?q) (vs_users t)") (auto simp: login_step_def next_phase_def find_None_iff)
  obtain t where ins: "login_step (l\<lparr>lo_phase := Inserting\<rparr>, s) = (l\<lparr>lo_phase := Rereading\<rparr>, t)"
    and t: "vs_faults t = []" "\<exists>u \<in> set (vs_users t). vp_user_for ?p ?q u"
  proof (cases "\<exists>u \<in> set (vs_users s). vp_user_for ?p ?q u")
    case True
    then show ?thesis using s that [of s] by (simp add: login_step_def next_phase_def vp_user_insert_or_ignore_def vstmt_def)
  next
    case False
    then have "vp_user_insert_or_ignore (lo_id l) ?p ?q (lo_email l) (lo_schema l) (lo_now l) s
        = (Inr (), s\<lparr>vs_users := vs_users s @ [new_user (lo_id l) ?p ?q (lo_email l) (lo_schema l) (lo_now l)]\<rparr>)"
      using s by (auto simp: vp_user_insert_or_ignore_def vstmt_def)
    then show ?thesis using s that [of "s\<lparr>vs_users := vs_users s @ [new_user (lo_id l) ?p ?q (lo_email l) (lo_schema l) (lo_now l)]\<rparr>"]
      by (simp add: login_step_def next_phase_def new_user_def vp_user_for_def)
  qed
  obtain u where u: "login_step (l\<lparr>lo_phase := Rereading\<rparr>, t) = (l\<lparr>lo_phase := Answered (Inr u)\<rparr>, t)" using reread [OF t] by blast
  have three: "(login_step ^^ 3) p = login_step (login_step (login_step p))" for p by (simp add: numeral_eq_Suc)
  have same: "l = l\<lparr>lo_phase := lo_phase l\<rparr>" by simp
  show ?thesis
  proof (cases "lo_phase l")
    case Looking
    show ?thesis
    proof (cases "find (vp_user_for ?p ?q) (vs_users s)")
      case None
      then have "login_step (l, s) = (l\<lparr>lo_phase := Inserting\<rparr>, s)" using Looking find [OF s(1)] by (simp add: login_step_def next_phase_def)
      then show ?thesis by (simp add: three ins u)
    next
      case (Some v)
      then have "login_step (l, s) = (l\<lparr>lo_phase := Answered (Inr v)\<rparr>, s)" using Looking find [OF s(1)] by (simp add: login_step_def next_phase_def)
      then show ?thesis by (simp add: three stay)
    qed
  next
    case Inserting
    then have "l = l\<lparr>lo_phase := Inserting\<rparr>" by simp
    then have "login_step (l, s) = (l\<lparr>lo_phase := Rereading\<rparr>, t)" using ins by metis
    then show ?thesis by (simp add: three u stay)
  next
    case Rereading
    then have "l = l\<lparr>lo_phase := Rereading\<rparr>" by simp
    moreover have "\<exists>u \<in> set (vs_users s). vp_user_for ?p ?q u" using k Rereading by (simp add: knows_def)
    ultimately obtain v where "login_step (l, s) = (l\<lparr>lo_phase := Answered (Inr v)\<rparr>, s)" using reread [OF s(1)] by metis
    then show ?thesis by (simp add: three stay)
  next
    case (Answered r)
    then obtain v where v: "lo_phase l = Answered (Inr v)" using n by (cases r) simp_all
    then have "login_step (l, s) = (l, s)" by (simp add: login_step_def next_phase_def)
    then show ?thesis using v by (simp add: three)
  qed
qed

text \<open>
  C8. However the statements of first logins interleave, with one another, with failing statements and with any other
  use of the tables, the loser of a race is answered with the winner's row: all logins of a Google account that
  are answered get the same user, now and later; logins of different accounts get different users; no
  login is told that its user is missing; and at every moment a login that has not failed is answered with a user
  after three more statements of its own, unless a statement fails or its new identifier is another account's.
\<close>
theorem first_login_race:
  assumes "races (s, []) (s1, ls1)" "races (s1, ls1) (s2, ls2)" "users_inv s"
    and "l1 \<in> set ls1" "lo_phase l1 = Answered r1" "l2 \<in> set ls2" "lo_phase l2 = Answered r2"
  shows "(\<forall>e. r1 = Inl e \<longrightarrow> e = Sqlx)
    \<and> (\<forall>u1 u2. r1 = Inr u1 \<longrightarrow> r2 = Inr u2 \<longrightarrow>
        u1 \<in> set (vs_users s2) \<and>
        (if lo_provider l1 = lo_provider l2 \<and> lo_subject l1 = lo_subject l2 then u1 = u2 else vu_id u1 \<noteq> vu_id u2))
    \<and> (\<forall>l \<in> set ls2. vs_faults s2 = [] \<longrightarrow> (\<forall>u \<in> set (vs_users s2). vu_id u = lo_id l \<longrightarrow> vp_user_for (lo_provider l) (lo_subject l) u) \<longrightarrow>
        (\<forall>e. lo_phase l \<noteq> Answered (Inl e)) \<longrightarrow>
        (\<exists>u. lo_phase (fst ((login_step ^^ 3) (l, s2))) = Answered (Inr u)))"
proof -
  have i1: "race_inv (s1, ls1)" using race_inv_run [OF assms(1)] assms(3) by (simp add: race_inv_def)
  have i2: "race_inv (s2, ls2)" by (rule race_inv_run [OF assms(2) i1])
  have k1: "knows s1 l1" and k2: "knows s2 l2" using i1 i2 assms(4,6) by (auto simp: race_inv_def)
  have "knows s2 l1" using knows_lasts [OF k1] race_users [OF assms(2)] by simp
  then have u1: "\<And>u. r1 = Inr u \<Longrightarrow> u \<in> set (vs_users s2) \<and> vp_user_for (lo_provider l1) (lo_subject l1) u"
    and e1: "\<And>e. r1 = Inl e \<Longrightarrow> e = Sqlx" using assms(5) by (simp_all add: knows_def)
  have u2: "\<And>u. r2 = Inr u \<Longrightarrow> u \<in> set (vs_users s2) \<and> vp_user_for (lo_provider l2) (lo_subject l2) u"
    using k2 assms(7) by (simp add: knows_def)
  have inv: "users_inv s2" using i2 by (simp add: race_inv_def)
  have "if lo_provider l1 = lo_provider l2 \<and> lo_subject l1 = lo_subject l2 then u = v else vu_id u \<noteq> vu_id v"
    if "r1 = Inr u" "r2 = Inr v" for u v
  proof (cases "lo_provider l1 = lo_provider l2 \<and> lo_subject l1 = lo_subject l2")
    case True
    then show ?thesis using one_row [OF inv] u1 [OF that(1)] u2 [OF that(2)] by auto
  next
    case False
    then have "u \<noteq> v" using u1 [OF that(1)] u2 [OF that(2)] by (auto simp: vp_user_for_def)
    then show ?thesis using one_id [OF inv] u1 [OF that(1)] u2 [OF that(2)] False by auto
  qed
  moreover have "\<forall>l \<in> set ls2. knows s2 l" using i2 by (simp add: race_inv_def)
  ultimately show ?thesis using u1 e1 login_finishes by blast
qed

text \<open>Two logins of one account: both look before either inserts.\<close>

definition no_users :: vstore where
  "no_users = \<lparr>vs_users = [], vs_shared = [], vs_clients = [], vs_tokens = [], vs_faults = []\<rparr>"

definition racer :: "string \<Rightarrow> login" where
  "racer i = new_login i ''google'' ''s'' None ''user-s'' 0"

definition winner :: vp_user where
  "winner = new_user ''a'' ''google'' ''s'' None ''user-s'' 0"

definition with_winner :: vstore where
  "with_winner = no_users\<lparr>vs_users := [winner]\<rparr>"

lemma raced:
  "races (no_users, []) (with_winner, [racer ''a''\<lparr>lo_phase := Answered (Inr winner)\<rparr>, racer ''b''\<lparr>lo_phase := Answered (Inr winner)\<rparr>])"
proof -
  let ?l = "\<lambda>i ph. racer i\<lparr>lo_phase := ph\<rparr>"
  have new: "racer i = ?l i Looking" for i by (simp add: racer_def new_login_def)
  have look: "login_step (?l i Looking, no_users) = (?l i Inserting, no_users)" for i
    by (simp add: login_step_def next_phase_def find_by_provider_subject_def vquery_def vstmt_def no_users_def)
  have ins: "login_step (?l ''a'' Inserting, no_users) = (?l ''a'' Rereading, with_winner)"
    by (simp add: login_step_def next_phase_def vp_user_insert_or_ignore_def vstmt_def no_users_def with_winner_def winner_def
      racer_def new_login_def)
  have ign: "login_step (?l ''b'' Inserting, with_winner) = (?l ''b'' Rereading, with_winner)"
    by (simp add: login_step_def next_phase_def vp_user_insert_or_ignore_def vstmt_def no_users_def with_winner_def winner_def
      racer_def new_login_def new_user_def vp_user_for_def)
  have rd: "login_step (?l i Rereading, with_winner) = (?l i (Answered (Inr winner)), with_winner)" for i
    by (simp add: login_step_def next_phase_def find_by_provider_subject_def vquery_def vstmt_def no_users_def with_winner_def winner_def
      racer_def new_login_def new_user_def vp_user_for_def)
  have st: "races c (s, [x, y]) \<Longrightarrow> login_step (x, s) = (x', s') \<Longrightarrow> races c (s', [x', y])"
    "races c (s, [x, y]) \<Longrightarrow> login_step (y, s) = (y', s') \<Longrightarrow> races c (s', [x, y'])" for c s s' x x' y y'
    using races.more race.statement [of x s x' s' "[]" "[y]"] race.statement [of y s y' s' "[x]" "[]"] by fastforce+
  have "race (no_users, []) (no_users, [racer ''a''])" "race (no_users, [racer ''a'']) (no_users, [racer ''a'', racer ''b''])"
    using race.begins [of no_users "[]"] race.begins [of no_users "[racer ''a'']"] by (simp_all add: racer_def)
  then have "races (no_users, []) (no_users, [?l ''a'' Looking, ?l ''b'' Looking])"
    unfolding new [symmetric] using races.here races.more by blast
  then have "races (no_users, []) (no_users, [?l ''a'' Inserting, ?l ''b'' Inserting])" by (rule st(2) [OF st(1) [OF _ look] look])
  then have "races (no_users, []) (with_winner, [?l ''a'' Rereading, ?l ''b'' Rereading])" by (rule st(2) [OF st(1) [OF _ ins] ign])
  then show ?thesis by (rule st(2) [OF st(1) [OF _ rd] rd])
qed

theorem first_login_race_witness:
  "\<exists>l1 l2. races (no_users, []) (with_winner, [l1, l2]) \<and> lo_id l1 \<noteq> lo_id l2
     \<and> lo_phase l1 = Answered (Inr winner) \<and> lo_phase l2 = Answered (Inr winner) \<and> winner \<in> set (vs_users with_winner)"
proof -
  have "users_inv no_users" by (simp add: users_inv_def no_users_def)
  from first_login_race [OF raced races.here this, where ?l1.0 = "racer ''a''\<lparr>lo_phase := Answered (Inr winner)\<rparr>"
      and ?l2.0 = "racer ''b''\<lparr>lo_phase := Answered (Inr winner)\<rparr>"]
  have "winner \<in> set (vs_users with_winner)" by simp
  moreover have "lo_id (racer ''a''\<lparr>lo_phase := x\<rparr>) \<noteq> lo_id (racer ''b''\<lparr>lo_phase := x\<rparr>)" for x
    by (simp add: racer_def new_login_def)
  ultimately show ?thesis using raced by force
qed

end
