(* ===== verification/Vp_Auth.thy ===== *)
theory Vp_Auth
  imports Vp_Store
begin

text \<open>
  The authorization server (\<open>vegapunk-memory-auth\<close>): client registration, the authorization request, the
  return from Google, the token endpoint with PKCE and rotating refresh tokens, and the check of the bearer
  token of a tool call. A handler is an action over the session maps, the database and the clock; its
  early returns are responses. Parameters: the identifier generator, SHA-256 and base64, the parsers of URLs
  and JSON lists, the JWT library, and everything Google answers. A clock reading may advance by anything;
  \<open>find_or_provision\<close> reads it once more than needed when the user exists, which no behaviour depends on.
\<close>

section \<open>State, parameters, responses\<close>

definition AUTH_CODE_TTL_SECS :: int where "AUTH_CODE_TTL_SECS = 60"
definition ACCESS_TOKEN_TTL_SECS :: int where "ACCESS_TOKEN_TTL_SECS = 3600"
definition REFRESH_TOKEN_TTL_SECS :: int where "REFRESH_TOKEN_TTL_SECS = 30 * 24 * 3600"
definition MAX_PENDING_AUTHS :: nat where "MAX_PENDING_AUTHS = 10000"
definition MAX_AUTH_CODES :: nat where "MAX_AUTH_CODES = 10000"

record pending_auth =
  pa_client_id :: string
  pa_redirect_uri :: string
  pa_client_state :: "string option"
  pa_code_challenge :: string
  pa_code_challenge_method :: string
  pa_google_csrf :: string
  pa_google_verifier :: string
  pa_expires_at :: int

record auth_code =
  ac_user_id :: string
  ac_client_id :: string
  ac_redirect_uri :: string
  ac_code_challenge :: string
  ac_code_challenge_method :: string
  ac_expires_at :: int

record auth =
  at_pending :: "(string \<times> pending_auth) list"
  at_codes :: "(string \<times> auth_code) list"
  at_store :: vstore
  at_ensured :: "string list"
  at_ulids :: nat
  at_now :: int
  at_ticks :: "int list"

record jwt_claims =
  jc_sub :: string
  jc_client_id :: string
  jc_iat :: int
  jc_exp :: int

record jwt_keys =
  jk_current :: string
  jk_keys :: "(string \<times> string) list"

record parsed_url =
  pu_scheme :: string
  pu_fragment :: "string option"

record auth_env =
  ae_ulid :: "nat \<Rightarrow> string"
  ae_sha :: "string \<Rightarrow> string"
  ae_s256 :: "string \<Rightarrow> string"
  ae_parse_strings :: "string \<Rightarrow> string list option"
  ae_strings_text :: "string list \<Rightarrow> string"
  ae_url :: "string \<Rightarrow> parsed_url option"
  ae_encode :: "string \<Rightarrow> jwt_claims \<Rightarrow> string \<Rightarrow> string option"
  ae_decode_kid :: "string \<Rightarrow> string option option"
  ae_decode :: "string \<Rightarrow> string \<Rightarrow> int \<Rightarrow> jwt_claims option"
  ae_keys :: jwt_keys
  ae_public_url :: string
  ae_shared_schema :: string

record dcr_request =
  dr_redirect_uris :: "string list"
  dr_grant_types :: "string list"
  dr_auth_method :: "string option"
  dr_client_name :: "string option"

record dcr_response =
  ds_client_id :: string
  ds_redirect_uris :: "string list"
  ds_grant_types :: "string list"
  ds_auth_method :: string
  ds_client_name :: "string option"

datatype dcr_error =
    RedirectUrisRequired
  | TooManyRedirectUris
  | InvalidRedirectUri string
  | RedirectUriNotHttps string
  | RedirectUriFragment string
  | GrantTypeNotAllowed string
  | AuthMethodNotAllowed string

record token_response =
  tr_access_token :: string
  tr_token_type :: string
  tr_expires_in :: int
  tr_refresh_token :: "string option"

datatype response =
    Redirect string
  | BadRequest string string
  | InvalidMetadata dcr_error
  | ServerError
  | ClientCreated dcr_response
  | Tokens token_response
  | Okay
  | Metadata json

type_synonym 'a web = "(auth, response, 'a) act"

section \<open>Steps of the handlers\<close>

definition clock_ms :: "int web" where
  "clock_ms s = (case at_ticks s of [] \<Rightarrow> (Inr (at_now s), s)
     | t # ts \<Rightarrow> (Inr (at_now s + t), s\<lparr>at_now := at_now s + t, at_ticks := ts\<rparr>))"

definition new_ulid :: "auth_env \<Rightarrow> string web" where
  "new_ulid env s = (Inr (ae_ulid env (at_ulids s)), s\<lparr>at_ulids := Suc (at_ulids s)\<rparr>)"

definition stored :: "'a vop \<Rightarrow> (storage_error + 'a) web" where
  "stored m s = (case m (at_store s) of (r, st) \<Rightarrow> (Inr r, s\<lparr>at_store := st\<rparr>))"

text \<open>A storage error becomes the fixed answer of \<open>server_error\<close>.\<close>

definition or_server_error :: "'a vop \<Rightarrow> 'a web" where
  "or_server_error m = seqA (stored m) (\<lambda>r. liftE (case r of Inl e \<Rightarrow> Inl ServerError | Inr x \<Rightarrow> Inr x))"

definition or_bad_request :: "string \<Rightarrow> string \<Rightarrow> 'a option \<Rightarrow> 'a web" where
  "or_bad_request err desc x = liftE (of_option (BadRequest err desc) x)"

definition require :: "bool \<Rightarrow> string \<Rightarrow> string \<Rightarrow> unit web" where
  "require b err desc = liftE (if b then Inr () else Inl (BadRequest err desc))"

section \<open>The session maps\<close>

definition retain :: "('v \<Rightarrow> int) \<Rightarrow> int \<Rightarrow> (string \<times> 'v) list \<Rightarrow> (string \<times> 'v) list" where
  "retain expires now m = filter (\<lambda>kv. expires (snd kv) > now) m"

definition remove_key :: "string \<Rightarrow> (string \<times> 'v) list \<Rightarrow> (string \<times> 'v) list" where
  "remove_key k m = filter (\<lambda>kv. fst kv \<noteq> k) m"

lemma map_of_remove_key: "map_of (remove_key k m) x = (if x = k then None else map_of m x)"
  by (induction m) (auto simp: remove_key_def)

text \<open>The key \<open>min_by_key\<close> picks: the first, in the map's order, of those that expire first.\<close>

fun oldest :: "('v \<Rightarrow> int) \<Rightarrow> (string \<times> 'v) list \<Rightarrow> string option" where
  "oldest expires [] = None"
| "oldest expires ((k, v) # m) =
     (if \<forall>kv \<in> set m. expires v \<le> expires (snd kv) then Some k else oldest expires m)"

definition put_session :: "nat \<Rightarrow> ('v \<Rightarrow> int) \<Rightarrow> string \<Rightarrow> 'v \<Rightarrow> int \<Rightarrow> (string \<times> 'v) list \<Rightarrow> (string \<times> 'v) list" where
  "put_session cap expires k v now m =
     (let m1 = retain expires now m;
          m2 = (if length m1 \<ge> cap then (case oldest expires m1 of None \<Rightarrow> m1 | Some o' \<Rightarrow> remove_key o' m1) else m1)
      in (k, v) # remove_key k m2)"

definition take_session :: "('v \<Rightarrow> int) \<Rightarrow> string \<Rightarrow> int \<Rightarrow> (string \<times> 'v) list \<Rightarrow> 'v option \<times> (string \<times> 'v) list" where
  "take_session expires k now m = (let m1 = retain expires now m in (map_of m1 k, remove_key k m1))"

definition put_pending :: "string \<Rightarrow> pending_auth \<Rightarrow> unit web" where
  "put_pending k p = seqA clock_ms (\<lambda>now s.
     (Inr (), s\<lparr>at_pending := put_session MAX_PENDING_AUTHS pa_expires_at k p now (at_pending s)\<rparr>))"

definition take_pending :: "string \<Rightarrow> pending_auth option web" where
  "take_pending k = seqA clock_ms (\<lambda>now s.
     (case take_session pa_expires_at k now (at_pending s) of (r, m) \<Rightarrow> (Inr r, s\<lparr>at_pending := m\<rparr>)))"

definition put_code :: "string \<Rightarrow> auth_code \<Rightarrow> unit web" where
  "put_code k c = seqA clock_ms (\<lambda>now s.
     (Inr (), s\<lparr>at_codes := put_session MAX_AUTH_CODES ac_expires_at k c now (at_codes s)\<rparr>))"

definition take_code :: "string \<Rightarrow> auth_code option web" where
  "take_code k = seqA clock_ms (\<lambda>now s.
     (case take_session ac_expires_at k now (at_codes s) of (r, m) \<Rightarrow> (Inr r, s\<lparr>at_codes := m\<rparr>)))"

section \<open>Registration\<close>

definition MAX_REDIRECT_URIS :: nat where "MAX_REDIRECT_URIS = 5"
definition ALLOWED_GRANT_TYPES :: "string list" where "ALLOWED_GRANT_TYPES = [''authorization_code'', ''refresh_token'']"
definition ALLOWED_AUTH_METHODS :: "string list" where "ALLOWED_AUTH_METHODS = [''none'']"

definition default_grant_types :: "string list" where
  "default_grant_types = [''authorization_code'', ''refresh_token'']"

fun check_redirect_uris :: "auth_env \<Rightarrow> string list \<Rightarrow> dcr_error + unit" where
  "check_redirect_uris env [] = Inr ()"
| "check_redirect_uris env (u # us) =
     bindE (of_option (InvalidRedirectUri u) (ae_url env u)) (\<lambda>parsed.
     bindE (guardE (pu_scheme parsed = ''https'') (RedirectUriNotHttps u)) (\<lambda>_.
     bindE (guardE (pu_fragment parsed = None) (RedirectUriFragment u)) (\<lambda>_.
     check_redirect_uris env us)))"

definition dcr_validate :: "auth_env \<Rightarrow> dcr_request \<Rightarrow> dcr_error + dcr_response" where
  "dcr_validate env req =
     bindE (guardE (dr_redirect_uris req \<noteq> []) RedirectUrisRequired) (\<lambda>_.
     bindE (guardE (length (dr_redirect_uris req) \<le> MAX_REDIRECT_URIS) TooManyRedirectUris) (\<lambda>_.
     bindE (check_redirect_uris env (dr_redirect_uris req)) (\<lambda>_.
     bindE (case find (\<lambda>g. g \<notin> set ALLOWED_GRANT_TYPES) (dr_grant_types req) of
              None \<Rightarrow> Inr () | Some g \<Rightarrow> Inl (GrantTypeNotAllowed g)) (\<lambda>_.
     let meth = (case dr_auth_method req of None \<Rightarrow> ''none'' | Some m \<Rightarrow> m) in
     bindE (guardE (meth \<in> set ALLOWED_AUTH_METHODS) (AuthMethodNotAllowed meth)) (\<lambda>_.
     Inr \<lparr>ds_client_id = [], ds_redirect_uris = dr_redirect_uris req, ds_grant_types = dr_grant_types req,
          ds_auth_method = meth, ds_client_name = dr_client_name req\<rparr>)))))"

definition register :: "auth_env \<Rightarrow> dcr_request \<Rightarrow> response web" where
  "register env body =
     seqA (liftE (case dcr_validate env body of Inl e \<Rightarrow> Inl (InvalidMetadata e) | Inr r \<Rightarrow> Inr r)) (\<lambda>resp.
     seqA (new_ulid env) (\<lambda>i.
     seqA clock_ms (\<lambda>now.
     seqA (or_server_error (vp_client_register i now (ae_strings_text env (ds_redirect_uris resp))
             (ae_strings_text env (ds_grant_types resp)) (ds_auth_method resp) (ds_client_name resp))) (\<lambda>client.
     okA (ClientCreated (resp\<lparr>ds_client_id := oc_id client\<rparr>))))))"

definition metadata :: "auth_env \<Rightarrow> json" where
  "metadata env = (let url = ae_public_url env in
     JObj [(''issuer'', JStr url), (''authorization_endpoint'', JStr (url @ ''/oauth/authorize'')),
       (''token_endpoint'', JStr (url @ ''/oauth/token'')), (''registration_endpoint'', JStr (url @ ''/oauth/register'')),
       (''revocation_endpoint'', JStr (url @ ''/oauth/revoke'')), (''response_types_supported'', JArr [JStr ''code'']),
       (''grant_types_supported'', JArr [JStr ''authorization_code'', JStr ''refresh_token'']),
       (''code_challenge_methods_supported'', JArr [JStr ''S256'']),
       (''token_endpoint_auth_methods_supported'', JArr [JStr ''none''])])"

section \<open>Authorization\<close>

record authorize_params =
  ap_response_type :: string
  ap_client_id :: string
  ap_redirect_uri :: string
  ap_code_challenge :: string
  ap_code_challenge_method :: string
  ap_state :: "string option"

text \<open>What \<open>GoogleClient::authorize_url\<close> makes up: the URL, the CSRF token and the PKCE verifier.\<close>

record google_url =
  gu_url :: string
  gu_csrf :: string
  gu_verifier :: string

definition parsed_list :: "auth_env \<Rightarrow> string \<Rightarrow> string list web" where
  "parsed_list env tx = liftE (of_option ServerError (ae_parse_strings env tx))"

text \<open>Everything before the session is stored.\<close>

definition authorize_checks :: "auth_env \<Rightarrow> authorize_params \<Rightarrow> unit web" where
  "authorize_checks env p =
     seqA (require (ap_response_type p = ''code'') ''unsupported_response_type'' ''only response_type=code supported'') (\<lambda>_.
     seqA (require (ap_code_challenge_method p = ''S256'') ''invalid_request'' ''code_challenge_method must be S256'') (\<lambda>_.
     seqA (or_server_error (vp_client_get (ap_client_id p))) (\<lambda>c.
     seqA (or_bad_request ''invalid_client'' ''unknown client_id'' c) (\<lambda>client.
     seqA (parsed_list env (oc_redirect_uris client)) (\<lambda>allowed.
     seqA (require (ap_redirect_uri p \<in> set allowed) ''invalid_request'' ''redirect_uri not registered'') (\<lambda>_.
     seqA (parsed_list env (oc_grant_types client)) (\<lambda>grants.
     seqA (require (''authorization_code'' \<in> set grants) ''unauthorized_client''
            ''client did not register the authorization_code grant'') (\<lambda>_.
     seqA clock_ms (\<lambda>t.
     seqA (stored (vp_client_touch t (ap_client_id p))) (\<lambda>_. okA ()))))))))))"

definition authorize :: "auth_env \<Rightarrow> authorize_params \<Rightarrow> google_url \<Rightarrow> response web" where
  "authorize env p g =
     seqA (authorize_checks env p) (\<lambda>_.
     seqA clock_ms (\<lambda>now.
     seqA (put_pending (gu_csrf g) \<lparr>pa_client_id = ap_client_id p, pa_redirect_uri = ap_redirect_uri p,
             pa_client_state = ap_state p, pa_code_challenge = ap_code_challenge p,
             pa_code_challenge_method = ap_code_challenge_method p, pa_google_csrf = gu_csrf g,
             pa_google_verifier = gu_verifier g, pa_expires_at = now + 10 * 60 * 1000\<rparr>) (\<lambda>_.
     okA (Redirect (gu_url g)))))"

section \<open>The return from Google\<close>

record callback_params =
  cb_code :: string
  cb_state :: string

text \<open>What Google answers: the access token for a code and verifier, and the subject and email for a token.\<close>

record google =
  go_exchange :: "string \<Rightarrow> string \<Rightarrow> string option"
  go_userinfo :: "string \<Rightarrow> (string \<times> string option) option"

definition unreserved :: "char \<Rightarrow> bool" where
  "unreserved c \<longleftrightarrow> (let n = (of_char c :: nat) in
     (48 \<le> n \<and> n \<le> 57) \<or> (65 \<le> n \<and> n \<le> 90) \<or> (97 \<le> n \<and> n \<le> 122)) \<or> c \<in> set ''-_.~''"

definition hex_digit :: "nat \<Rightarrow> char" where
  "hex_digit n = (if n < 10 then char_of (48 + n) else char_of (55 + n))"

definition encode_byte :: "char \<Rightarrow> string" where
  "encode_byte c = (if unreserved c then [c]
     else (let n = (of_char c :: nat) in [CHR 0x25, hex_digit (n div 16), hex_digit (n mod 16)]))"

definition urlencoding :: "string \<Rightarrow> string" where
  "urlencoding s = concat (map encode_byte s)"

definition callback_url :: "pending_auth \<Rightarrow> string \<Rightarrow> string" where
  "callback_url pending code =
     (let url = pa_redirect_uri pending; sep = (if CHR 0x3F \<in> set url then CHR 0x26 else CHR 0x3F) in
      url @ [sep] @ ''code='' @ code
        @ (case pa_client_state pending of None \<Rightarrow> [] | Some st \<Rightarrow> CHR 0x26 # ''state='' @ urlencoding st))"

definition ensure_user_and_shared_schemas :: "auth_env \<Rightarrow> string \<Rightarrow> unit web" where
  "ensure_user_and_shared_schemas env user_schema s =
     (Inr (), s\<lparr>at_ensured := at_ensured s @ [user_schema, ae_shared_schema env]\<rparr>)"

text \<open>From the session to the user's row: everything before the code is made.\<close>

definition callback_login :: "auth_env \<Rightarrow> google \<Rightarrow> callback_params \<Rightarrow> (pending_auth \<times> vp_user) web" where
  "callback_login env g p =
     seqA (take_pending (cb_state p)) (\<lambda>taken.
     seqA (or_bad_request ''invalid_state'' ''no matching session'' taken) (\<lambda>pending.
     seqA (or_bad_request ''google_exchange_failed'' ''google authorization code exchange failed''
             (go_exchange g (cb_code p) (pa_google_verifier pending))) (\<lambda>access_token.
     seqA (or_bad_request ''google_userinfo_failed'' ''google userinfo fetch failed''
             (go_userinfo g access_token)) (\<lambda>info.
     seqA (new_ulid env) (\<lambda>new_user_id.
     seqA clock_ms (\<lambda>t.
     seqA (or_server_error (find_or_provision new_user_id ''google'' (fst info) (snd info) (''user-'' @ fst info) t)) (\<lambda>u.
     seqA (ensure_user_and_shared_schemas env (vu_schema u)) (\<lambda>_.
     okA (pending, u)))))))))"

definition callback_google :: "auth_env \<Rightarrow> google \<Rightarrow> callback_params \<Rightarrow> response web" where
  "callback_google env g p =
     seqA (callback_login env g p) (\<lambda>pu.
     seqA (new_ulid env) (\<lambda>code.
     seqA clock_ms (\<lambda>now.
     seqA (put_code code \<lparr>ac_user_id = vu_id (snd pu), ac_client_id = pa_client_id (fst pu),
             ac_redirect_uri = pa_redirect_uri (fst pu), ac_code_challenge = pa_code_challenge (fst pu),
             ac_code_challenge_method = pa_code_challenge_method (fst pu),
             ac_expires_at = now + AUTH_CODE_TTL_SECS * 1000\<rparr>) (\<lambda>_.
     okA (Redirect (callback_url (fst pu) code))))))"

section \<open>Signing keys\<close>

datatype jwt_error = MissingKid | UnknownKid string | JwtLibrary

definition MIN_HS256_KEY_BYTES :: nat where "MIN_HS256_KEY_BYTES = 32"

datatype key_error = EmptyKid | InvalidBase64 string | ShortKey string nat | NoSigningKey

definition key_variable :: string where "key_variable = ''JWT_SIGNING_KEY_''"

text \<open>The loop over the environment, with the keys so far and the greatest kid so far; strings compare by bytes.\<close>

fun collect_keys :: "(string \<Rightarrow> string option) \<Rightarrow> (string \<times> string) list \<Rightarrow> jwt_keys \<Rightarrow> key_error + jwt_keys" where
  "collect_keys unbase64 [] ks = Inr ks"
| "collect_keys unbase64 ((k, v) # vars) ks =
     (if \<not> starts_with k key_variable then collect_keys unbase64 vars ks
      else let kid = drop (length key_variable) k in
          bindE (guardE (kid \<noteq> []) EmptyKid) (\<lambda>_.
          bindE (of_option (InvalidBase64 kid) (unbase64 v)) (\<lambda>bytes.
          bindE (guardE (length bytes \<ge> MIN_HS256_KEY_BYTES) (ShortKey kid (length bytes))) (\<lambda>_.
          collect_keys unbase64 vars
            \<lparr>jk_current = (if kid > jk_current ks then kid else jk_current ks),
             jk_keys = (kid, bytes) # remove_key kid (jk_keys ks)\<rparr>))))"

definition keys_from_env :: "(string \<Rightarrow> string option) \<Rightarrow> (string \<times> string) list \<Rightarrow> key_error + jwt_keys" where
  "keys_from_env unbase64 vars =
     bindE (collect_keys unbase64 vars \<lparr>jk_current = [], jk_keys = []\<rparr>) (\<lambda>ks.
     bindE (guardE (jk_keys ks \<noteq> []) NoSigningKey) (\<lambda>_. Inr ks))"

section \<open>Tokens\<close>

definition as_secs :: "int \<Rightarrow> int" where
  "as_secs ms = (if ms < 0 then - ((- ms) div 1000) else ms div 1000)"

definition jwt_issue :: "auth_env \<Rightarrow> string \<Rightarrow> string \<Rightarrow> int \<Rightarrow> int \<Rightarrow> jwt_error + string" where
  "jwt_issue env user_id client_id ttl now_ms =
     (let now = as_secs now_ms;
          claims = \<lparr>jc_sub = user_id, jc_client_id = client_id, jc_iat = now, jc_exp = now + ttl\<rparr> in
      bindE (of_option MissingKid (map_of (jk_keys (ae_keys env)) (jk_current (ae_keys env)))) (\<lambda>secret.
      of_option JwtLibrary (ae_encode env (jk_current (ae_keys env)) claims secret)))"

definition jwt_verify :: "auth_env \<Rightarrow> string \<Rightarrow> int \<Rightarrow> jwt_error + jwt_claims" where
  "jwt_verify env token now_ms =
     bindE (of_option JwtLibrary (ae_decode_kid env token)) (\<lambda>k.
     bindE (of_option MissingKid k) (\<lambda>kid.
     bindE (of_option (UnknownKid kid) (map_of (jk_keys (ae_keys env)) kid)) (\<lambda>secret.
     of_option JwtLibrary (ae_decode env token secret (as_secs now_ms)))))"

record token_form =
  tf_grant_type :: string
  tf_code :: "string option"
  tf_redirect_uri :: "string option"
  tf_client_id :: "string option"
  tf_code_verifier :: "string option"
  tf_refresh_token :: "string option"

definition client_grant_types :: "auth_env \<Rightarrow> string \<Rightarrow> string list web" where
  "client_grant_types env client_id =
     seqA (or_server_error (vp_client_get client_id)) (\<lambda>c.
     seqA (or_bad_request ''invalid_client'' ''unknown client_id'' c) (\<lambda>client.
     parsed_list env (oc_grant_types client)))"

definition issue_tokens :: "auth_env \<Rightarrow> string \<Rightarrow> string \<Rightarrow> bool \<Rightarrow> response web" where
  "issue_tokens env user_id client_id include_refresh =
     seqA clock_ms (\<lambda>now.
     seqA (liftE (case jwt_issue env user_id client_id ACCESS_TOKEN_TTL_SECS now of
              Inl e \<Rightarrow> Inl ServerError | Inr t \<Rightarrow> Inr t)) (\<lambda>access.
     seqA (if include_refresh
           then seqA (new_ulid env) (\<lambda>r. seqA clock_ms (\<lambda>now2.
                seqA (or_server_error (vp_create_refresh (ae_sha env) r user_id client_id (now2 + REFRESH_TOKEN_TTL_SECS * 1000))) (\<lambda>_.
                okA (Some r))))
           else okA None) (\<lambda>refresh.
     okA (Tokens \<lparr>tr_access_token = access, tr_token_type = ''Bearer'', tr_expires_in = ACCESS_TOKEN_TTL_SECS, tr_refresh_token = refresh\<rparr>))))"

text \<open>The code is used up before the verifier, the client and the redirect URI are compared with it.\<close>

definition redeem :: "token_form \<Rightarrow> auth_env \<Rightarrow> auth_code web" where
  "redeem body env =
     seqA (or_bad_request ''invalid_request'' ''code required'' (tf_code body)) (\<lambda>code.
     seqA (or_bad_request ''invalid_request'' ''code_verifier required (PKCE)'' (tf_code_verifier body)) (\<lambda>verifier.
     seqA (take_code code) (\<lambda>taken.
     seqA (or_bad_request ''invalid_grant'' ''code unknown or expired'' taken) (\<lambda>entry.
     seqA (require (ae_s256 env verifier = ac_code_challenge entry) ''invalid_grant'' ''PKCE verifier mismatch'') (\<lambda>_.
     seqA (or_bad_request ''invalid_request'' ''client_id is required'' (tf_client_id body)) (\<lambda>req_client.
     seqA (require (req_client = ac_client_id entry) ''invalid_grant'' ''client_id mismatch'') (\<lambda>_.
     seqA (or_bad_request ''invalid_request'' ''redirect_uri is required'' (tf_redirect_uri body)) (\<lambda>req_uri.
     seqA (require (req_uri = ac_redirect_uri entry) ''invalid_grant'' ''redirect_uri mismatch'') (\<lambda>_.
     okA entry)))))))))"

definition grant_auth_code :: "auth_env \<Rightarrow> token_form \<Rightarrow> response web" where
  "grant_auth_code env body =
     seqA (redeem body env) (\<lambda>entry.
     seqA (client_grant_types env (ac_client_id entry)) (\<lambda>grants.
     issue_tokens env (ac_user_id entry) (ac_client_id entry) (''refresh_token'' \<in> set grants)))"

definition grant_refresh :: "auth_env \<Rightarrow> token_form \<Rightarrow> response web" where
  "grant_refresh env body =
     seqA (or_bad_request ''invalid_request'' ''refresh_token required'' (tf_refresh_token body)) (\<lambda>tok.
     seqA clock_ms (\<lambda>now.
     seqA (or_server_error (vp_validate_and_revoke (ae_sha env) tok now)) (\<lambda>r.
     seqA (or_bad_request ''invalid_grant'' ''refresh_token unknown or expired'' r) (\<lambda>uc.
     seqA (client_grant_types env (snd uc)) (\<lambda>grants.
     seqA (require (''refresh_token'' \<in> set grants) ''unauthorized_client''
            ''client did not register the refresh_token grant'') (\<lambda>_.
     issue_tokens env (fst uc) (snd uc) True))))))"

definition token :: "auth_env \<Rightarrow> token_form \<Rightarrow> response web" where
  "token env body =
     (if tf_grant_type body = ''authorization_code'' then grant_auth_code env body
      else if tf_grant_type body = ''refresh_token'' then grant_refresh env body
      else errA (BadRequest ''unsupported_grant_type'' ''only authorization_code or refresh_token''))"

definition revoke :: "auth_env \<Rightarrow> string \<Rightarrow> response web" where
  "revoke env tok = seqA clock_ms (\<lambda>now. seqA (stored (vp_revoke (ae_sha env) tok now)) (\<lambda>_. okA Okay))"

section \<open>The endpoints, and the bearer check\<close>

datatype web_request =
    Register dcr_request
  | Authorize authorize_params google_url
  | Callback callback_params google
  | Token token_form
  | Revoke string
  | GetMetadata

definition endpoint :: "auth_env \<Rightarrow> web_request \<Rightarrow> response web" where
  "endpoint env q = (case q of
       Register body \<Rightarrow> register env body
     | Authorize p g \<Rightarrow> authorize env p g
     | Callback p g \<Rightarrow> callback_google env g p
     | Token body \<Rightarrow> token env body
     | Revoke tok \<Rightarrow> revoke env tok
     | GetMetadata \<Rightarrow> okA (Metadata (metadata env)))"

definition serve :: "auth_env \<Rightarrow> web_request \<Rightarrow> auth \<Rightarrow> response \<times> auth" where
  "serve env q s = (case endpoint env q s of (Inl r, s') \<Rightarrow> (r, s') | (Inr r, s') \<Rightarrow> (r, s'))"

datatype http_refusal = Unauthorized | InternalServerError

record authenticated_user =
  us_user_id :: string
  us_client_id :: string
  us_schema :: string

definition require_auth :: "auth_env \<Rightarrow> string option \<Rightarrow> int \<Rightarrow> vstore \<Rightarrow> (http_refusal + authenticated_user) \<times> vstore" where
  "require_auth env bearer now =
     seqA (liftE (of_option Unauthorized bearer)) (\<lambda>tok.
     seqA (liftE (case jwt_verify env tok now of Inl e \<Rightarrow> Inl Unauthorized | Inr c \<Rightarrow> Inr c)) (\<lambda>claims.
     seqA (\<lambda>s. case vp_find_by_id (jc_sub claims) s of
              (Inl e, s') \<Rightarrow> (Inl InternalServerError, s') | (Inr u, s') \<Rightarrow> (of_option Unauthorized u, s')) (\<lambda>user.
     okA \<lparr>us_user_id = vu_id user, us_client_id = jc_client_id claims, us_schema = vu_schema user\<rparr>)))"

end
