(* ===== verification/Vp_Login.thy ===== *)
theory Vp_Login
  imports Vp_Auth
begin

text \<open>
  What the authorization server grants, over any sequence of requests from anybody: where a token comes
  from, that codes and refresh tokens work once, and that users and their schemas stay apart.
\<close>

section \<open>Runs of the server\<close>

text \<open>A trace records each request with its response. The server starts with empty session maps on any database.\<close>

inductive served :: "auth_env \<Rightarrow> vstore \<Rightarrow> (web_request \<times> response) list \<Rightarrow> auth \<Rightarrow> bool" for env st0 where
  boot: "at_pending s = [] \<Longrightarrow> at_codes s = [] \<Longrightarrow> at_store s = st0 \<Longrightarrow> served env st0 [] s"
| answer: "served env st0 tr s \<Longrightarrow> serve env q s = (r, s') \<Longrightarrow> served env st0 (tr @ [(q, r)]) s'"

section \<open>Steps that open no session\<close>

definition shrinks :: "auth \<Rightarrow> auth \<Rightarrow> bool" where
  "shrinks s s' \<longleftrightarrow> set (at_pending s') \<subseteq> set (at_pending s) \<and> set (at_codes s') \<subseteq> set (at_codes s)
     \<and> lasts (at_store s) (at_store s') \<and> (users_inv (at_store s) \<longrightarrow> users_inv (at_store s')) \<and> at_ulids s \<le> at_ulids s'"

lemma shrinks_refl: "shrinks s s"
  by (simp add: shrinks_def lasts_refl)

lemma shrinks_trans: "shrinks s s' \<Longrightarrow> shrinks s' s'' \<Longrightarrow> shrinks s s''"
  unfolding shrinks_def by (meson lasts_trans order_trans)

definition shrinking :: "'a web \<Rightarrow> bool" where
  "shrinking m \<longleftrightarrow> (\<forall>s. shrinks s (snd (m s)))"

lemma shrinkingD: "shrinking m \<Longrightarrow> m s = (r, s') \<Longrightarrow> shrinks s s'"
  by (metis shrinking_def snd_conv)

lemma shrinking_seqA: "shrinking m \<Longrightarrow> (\<And>x. shrinking (f x)) \<Longrightarrow> shrinking (seqA m f)"
  unfolding shrinking_def
proof
  fix s
  assume m: "\<forall>s. shrinks s (snd (m s))" and f: "\<And>x. \<forall>s. shrinks s (snd (f x s))"
  obtain r s' where ms: "m s = (r, s')" by fastforce
  with m have s': "shrinks s s'" by (metis snd_conv)
  show "shrinks s (snd (seqA m f s))"
    using ms s' f shrinks_trans [OF s'] by (cases r) auto
qed

lemma shrinking_pure: "shrinking (okA x)" "shrinking (errA e)" "shrinking (liftE r)"
  by (simp_all add: shrinking_def shrinks_refl)

lemma shrinking_clock: "shrinking clock_ms"
  by (auto simp: shrinking_def clock_ms_def shrinks_def lasts_refl split: list.splits)

lemma shrinking_ulid: "shrinking (new_ulid env)"
  by (simp add: shrinking_def new_ulid_def shrinks_def lasts_refl)

lemma shrinking_stored: "lasting m \<Longrightarrow> shrinking (stored m)"
  by (auto simp: shrinking_def stored_def shrinks_def lasting_def split_beta)

lemma shrinking_db: "lasting m \<Longrightarrow> shrinking (or_server_error m)"
  unfolding or_server_error_def by (intro shrinking_seqA shrinking_stored shrinking_pure)

lemma shrinking_take:
  "shrinking (take_pending k)" "shrinking (take_code k)"
  unfolding take_pending_def take_code_def
  by (intro shrinking_seqA shrinking_clock;
      auto simp: shrinking_def shrinks_def lasts_refl take_session_def retain_def remove_key_def Let_def)+

lemma shrinking_ensure: "shrinking (ensure_user_and_shared_schemas env u)"
  by (simp add: shrinking_def shrinks_def lasts_refl ensure_user_and_shared_schemas_def)

lemma shrinking_if: "shrinking a \<Longrightarrow> shrinking b \<Longrightarrow> shrinking (if c then a else b)"
  by simp

lemmas shrinking_rules = shrinking_seqA shrinking_if shrinking_pure shrinking_clock shrinking_ulid shrinking_stored shrinking_db
  shrinking_take shrinking_ensure lasting_vp lasting_provision

lemma shrinking_checks: "shrinking (require b e d)" "shrinking (or_bad_request e d x)" "shrinking (parsed_list env t)"
  by (simp_all add: require_def or_bad_request_def parsed_list_def shrinking_pure)

lemma shrinking_parts:
  "shrinking (authorize_checks env p)" "shrinking (callback_login env g cb)" "shrinking (redeem body env)"
  "shrinking (client_grant_types env c)" "shrinking (issue_tokens env u c b)"
  unfolding authorize_checks_def callback_login_def redeem_def client_grant_types_def issue_tokens_def
  by (intro shrinking_rules shrinking_checks)+

lemma shrinking_endpoints:
  "shrinking (register env body)" "shrinking (token env form)" "shrinking (revoke env tok)"
  unfolding register_def token_def revoke_def grant_auth_code_def grant_refresh_def
  by (intro shrinking_rules shrinking_checks shrinking_parts)+

section \<open>Where a session comes from\<close>

definition registered :: "auth_env \<Rightarrow> authorize_params \<Rightarrow> vstore \<Rightarrow> bool" where
  "registered env p st \<longleftrightarrow> (\<exists>uris grants us. (ap_client_id p, uris, grants) \<in> client_terms ` set (vs_clients st)
     \<and> ae_parse_strings env uris = Some us \<and> ap_redirect_uri p \<in> set us)"

definition session_of :: "authorize_params \<Rightarrow> google_url \<Rightarrow> pending_auth \<Rightarrow> bool" where
  "session_of p g e \<longleftrightarrow> pa_client_id e = ap_client_id p \<and> pa_redirect_uri e = ap_redirect_uri p
     \<and> pa_client_state e = ap_state p \<and> pa_code_challenge e = ap_code_challenge p \<and> pa_google_verifier e = gu_verifier g"

definition asked :: "auth_env \<Rightarrow> (web_request \<times> response) list \<Rightarrow> vstore \<Rightarrow> string \<Rightarrow> pending_auth \<Rightarrow> bool" where
  "asked env tr st k e \<longleftrightarrow> (\<exists>p g. (Authorize p g, Redirect (gu_url g)) \<in> set tr \<and> registered env p st
     \<and> session_of p g e \<and> k = gu_csrf g)"

definition user_row :: "string \<Rightarrow> string \<Rightarrow> vstore \<Rightarrow> bool" where
  "user_row sub i st \<longleftrightarrow> (\<exists>u \<in> set (vs_users st). vu_provider u = ''google'' \<and> vu_subject u = sub \<and> vu_id u = i)"

definition logged_in :: "auth_env \<Rightarrow> (web_request \<times> response) list \<Rightarrow> vstore \<Rightarrow> string \<Rightarrow> auth_code \<Rightarrow> bool" where
  "logged_in env tr st k c \<longleftrightarrow> (\<exists>cb go e tok sub mail.
     (Callback cb go, Redirect (callback_url e k)) \<in> set tr \<and> asked env tr st (cb_state cb) e
     \<and> go_exchange go (cb_code cb) (pa_google_verifier e) = Some tok \<and> go_userinfo go tok = Some (sub, mail)
     \<and> user_row sub (ac_user_id c) st \<and> ac_client_id c = pa_client_id e \<and> ac_redirect_uri c = pa_redirect_uri e
     \<and> ac_code_challenge c = pa_code_challenge e)"

lemma logged_inI:
  "(Callback cb go, Redirect (callback_url e k)) \<in> set tr \<Longrightarrow> asked env tr st (cb_state cb) e \<Longrightarrow>
     go_exchange go (cb_code cb) (pa_google_verifier e) = Some tok \<Longrightarrow> go_userinfo go tok = Some (sub, mail) \<Longrightarrow>
     user_row sub (ac_user_id c) st \<Longrightarrow> ac_client_id c = pa_client_id e \<Longrightarrow> ac_redirect_uri c = pa_redirect_uri e \<Longrightarrow>
     ac_code_challenge c = pa_code_challenge e \<Longrightarrow> logged_in env tr st k c"
  unfolding logged_in_def by blast

definition traced :: "auth_env \<Rightarrow> (web_request \<times> response) list \<Rightarrow> auth \<Rightarrow> bool" where
  "traced env tr s \<longleftrightarrow> (\<forall>(k, e) \<in> set (at_pending s). asked env tr (at_store s) k e)
     \<and> (\<forall>(k, c) \<in> set (at_codes s). logged_in env tr (at_store s) k c)"

lemma registered_lasts: "registered env p st \<Longrightarrow> lasts st st' \<Longrightarrow> registered env p st'"
  unfolding registered_def lasts_def by blast

lemma user_row_lasts: "user_row sub i st \<Longrightarrow> lasts st st' \<Longrightarrow> user_row sub i st'"
  by (auto simp: user_row_def lasts_def)

lemma asked_mono: "asked env tr st k e \<Longrightarrow> lasts st st' \<Longrightarrow> set tr \<subseteq> set tr' \<Longrightarrow> asked env tr' st' k e"
  unfolding asked_def using registered_lasts by blast

lemma logged_in_mono: "logged_in env tr st k c \<Longrightarrow> lasts st st' \<Longrightarrow> set tr \<subseteq> set tr' \<Longrightarrow> logged_in env tr' st' k c"
  unfolding logged_in_def using asked_mono user_row_lasts by blast

lemma traced_shrinks: "traced env tr s \<Longrightarrow> shrinks s s' \<Longrightarrow> set tr \<subseteq> set tr' \<Longrightarrow> traced env tr' s'"
  unfolding traced_def shrinks_def using asked_mono logged_in_mono by fastforce

lemma put_session_set: "set (put_session cap expires k v now m) \<subseteq> insert (k, v) (set m)"
  by (auto simp: put_session_def retain_def remove_key_def Let_def split: option.splits if_splits)

lemma take_session_SomeD: "take_session expires k now m = (Some v, m') \<Longrightarrow> (k, v) \<in> set m"
  by (auto simp: take_session_def retain_def Let_def dest!: map_of_SomeD)

lemma clock_frame: "clock_ms s = (r, s') \<Longrightarrow> \<exists>now. r = Inr now \<and> at_pending s' = at_pending s \<and> at_codes s' = at_codes s \<and> at_store s' = at_store s"
  by (auto simp: clock_ms_def split: list.splits)

lemma traced_put_pending:
  assumes "traced env tr s" "asked env tr (at_store s) k e" "put_pending k e s = (r, s')"
  shows "traced env tr s' \<and> r = Inr ()"
proof -
  obtain x s1 where c: "clock_ms s = (x, s1)" by fastforce
  with clock_frame [OF c] obtain now where now: "x = Inr now" and
    fr: "at_pending s1 = at_pending s" "at_codes s1 = at_codes s" "at_store s1 = at_store s" by blast
  with assms(3) c have s': "s' = s1\<lparr>at_pending := put_session MAX_PENDING_AUTHS pa_expires_at k e now (at_pending s1)\<rparr>" "r = Inr ()"
    by (simp_all add: put_pending_def)
  have "set (at_pending s') \<subseteq> insert (k, e) (set (at_pending s))"
    using put_session_set [of MAX_PENDING_AUTHS pa_expires_at k e now] by (simp add: s' fr)
  moreover have "at_codes s' = at_codes s" "at_store s' = at_store s" by (simp_all add: s' fr)
  ultimately show ?thesis using assms(1,2) s'(2) unfolding traced_def by fastforce
qed

lemma traced_put_code:
  assumes "traced env tr s" "logged_in env tr (at_store s) k c" "put_code k c s = (r, s')"
  shows "traced env tr s' \<and> r = Inr ()"
proof -
  obtain x s1 where c: "clock_ms s = (x, s1)" by fastforce
  with clock_frame [OF c] obtain now where now: "x = Inr now" and
    fr: "at_pending s1 = at_pending s" "at_codes s1 = at_codes s" "at_store s1 = at_store s" by blast
  with assms(3) c have s': "s' = s1\<lparr>at_codes := put_session MAX_AUTH_CODES ac_expires_at k c now (at_codes s1)\<rparr>" "r = Inr ()"
    by (simp_all add: put_code_def)
  have "set (at_codes s') \<subseteq> insert (k, c) (set (at_codes s))"
    using put_session_set [of MAX_AUTH_CODES ac_expires_at k c now] by (simp add: s' fr)
  moreover have "at_pending s' = at_pending s" "at_store s' = at_store s" by (simp_all add: s' fr)
  ultimately show ?thesis using assms(1,2) s'(2) unfolding traced_def by fastforce
qed

lemma or_server_error_Inr:
  "or_server_error m s = (Inr x, s') \<longleftrightarrow> (\<exists>st. m (at_store s) = (Inr x, st) \<and> s' = s\<lparr>at_store := st\<rparr>)"
  by (auto simp: or_server_error_def stored_def seqA_Inr_iff split: prod.splits sum.splits)

lemma query_result: "query f d = (Inr x, d') \<Longrightarrow> \<exists>fs. d' = d\<lparr>faults := fs\<rparr> \<and> x = f (d\<lparr>faults := fs\<rparr>)"
  by (blast elim: query_Inr)

lemma client_get_Some:
  assumes "vp_client_get i st = (Inr (Some c), st')"
  shows "c \<in> set (vs_clients st') \<and> oc_id c = i"
proof -
  obtain d where d: "query (\<lambda>d. find (\<lambda>c. oc_id c = i) (t_clients d)) (auth_tables st) = (Inr (Some c), d)"
    "st' = st\<lparr>vs_clients := t_clients d, vs_tokens := t_tokens d, vs_faults := faults d\<rparr>"
    using assms by (auto simp: vp_client_get_def client_get_def on_auth_tables_def split: prod.splits)
  with query_result [OF d(1)] show ?thesis by (auto dest!: find_SomeD [OF sym])
qed

lemma authorize_checks_registered:
  assumes "authorize_checks env p s = (Inr u, s')"
  shows "registered env p (at_store s')"
proof -
  from assms obtain s1 s2 t c us r where g: "or_server_error (vp_client_get (ap_client_id p)) s = (Inr (Some c), s1)"
    and us: "ae_parse_strings env (oc_redirect_uris c) = Some us" "ap_redirect_uri p \<in> set us"
    and rest: "clock_ms s1 = (Inr t, s2)" "stored (vp_client_touch t (ap_client_id p)) s2 = (r, s')"
    unfolding authorize_checks_def
    by (auto simp: seqA_Inr_iff require_def or_bad_request_def parsed_list_def)
  have "c \<in> set (vs_clients (at_store s1)) \<and> oc_id c = ap_client_id p"
    using g client_get_Some by (fastforce simp: or_server_error_Inr)
  then have "registered env p (at_store s1)"
    using us unfolding registered_def client_terms_def by force
  moreover have "shrinks s1 s'"
    using rest by (meson shrinks_trans shrinkingD shrinking_clock shrinking_stored lasting_vp(3))
  ultimately show ?thesis by (meson registered_lasts shrinks_def)
qed

lemma vquery_result: "vquery f s = (Inr x, s') \<Longrightarrow> \<exists>fs. s' = s\<lparr>vs_faults := fs\<rparr> \<and> x = f (s\<lparr>vs_faults := fs\<rparr>)"
  unfolding vquery_def by (cases rule: vstmt_cases [of s "\<lambda>s. (Inr (f s), s)"]) auto

lemma find_user_Some:
  "find_by_provider_subject provider subject s = (Inr (Some u), s') \<Longrightarrow> u \<in> set (vs_users s') \<and> vp_user_for provider subject u"
  unfolding find_by_provider_subject_def by (auto dest!: vquery_result find_SomeD [OF sym])

lemma find_or_provision_row:
  assumes "find_or_provision i provider subject email schema now s = (Inr u, s')"
  shows "u \<in> set (vs_users s') \<and> vp_user_for provider subject u"
  using assms unfolding find_or_provision_def
  by (auto simp: seqA_Inr_iff split: option.splits dest!: find_user_Some)

lemma take_pending_Some:
  assumes "take_pending k s = (Inr (Some e), s')"
  shows "(k, e) \<in> set (at_pending s)"
proof -
  from assms obtain now s1 where "clock_ms s = (Inr now, s1)" "fst (take_session pa_expires_at k now (at_pending s1)) = Some e"
    by (auto simp: take_pending_def seqA_Inr_iff split_beta)
  then show ?thesis using clock_frame take_session_SomeD by (metis prod.collapse)
qed

lemma take_code_Some:
  assumes "take_code k s = (Inr (Some c), s')"
  shows "(k, c) \<in> set (at_codes s)"
proof -
  from assms obtain now s1 where "clock_ms s = (Inr now, s1)" "fst (take_session ac_expires_at k now (at_codes s1)) = Some c"
    by (auto simp: take_code_def seqA_Inr_iff split_beta)
  then show ?thesis using clock_frame take_session_SomeD by (metis prod.collapse)
qed

lemma callback_login_facts:
  assumes "callback_login env go cb s = (Inr (e, u), s')"
  shows "(cb_state cb, e) \<in> set (at_pending s) \<and> (\<exists>tok sub mail. go_exchange go (cb_code cb) (pa_google_verifier e) = Some tok
    \<and> go_userinfo go tok = Some (sub, mail) \<and> user_row sub (vu_id u) (at_store s'))"
proof -
  from assms obtain s1 s2 s3 s4 tok sub mail i t where
    e: "take_pending (cb_state cb) s = (Inr (Some e), s1)" and
    g: "go_exchange go (cb_code cb) (pa_google_verifier e) = Some tok" "go_userinfo go tok = Some (sub, mail)" and
    u: "or_server_error (find_or_provision i ''google'' sub mail (''user-'' @ sub) t) s3 = (Inr u, s4)" and
    n: "ensure_user_and_shared_schemas env (vu_schema u) s4 = (Inr (), s')"
    unfolding callback_login_def by (auto simp: seqA_Inr_iff or_bad_request_def)
  have "u \<in> set (vs_users (at_store s4)) \<and> vp_user_for ''google'' sub u"
    using u find_or_provision_row by (fastforce simp: or_server_error_Inr)
  then have "user_row sub (vu_id u) (at_store s')"
    using n by (auto simp: user_row_def vp_user_for_def ensure_user_and_shared_schemas_def)
  with take_pending_Some [OF e] g show ?thesis by blast
qed

definition answer_of :: "response + response \<Rightarrow> response" where
  "answer_of r = (case r of Inl x \<Rightarrow> x | Inr x \<Rightarrow> x)"

lemma answer_of_simps [simp]: "answer_of (Inl x) = x" "answer_of (Inr x) = x"
  by (simp_all add: answer_of_def)

lemma serve_endpoint: "serve env q s = (x, s') \<longleftrightarrow> (\<exists>r. endpoint env q s = (r, s') \<and> x = answer_of r)"
  by (auto simp: serve_def answer_of_def split: prod.splits sum.splits)

lemma traced_authorize:
  assumes tr: "traced env tr s" and a: "authorize env p g s = (r, s')"
  shows "traced env (tr @ [(Authorize p g, answer_of r)]) s'"
  using a unfolding authorize_def
proof (cases rule: seqA_cases)
  case (early e)
  then show ?thesis by (intro traced_shrinks [OF tr shrinkingD [OF shrinking_parts(1)]]) auto
next
  case (on u s1)
  let ?tr = "tr @ [(Authorize p g, Redirect (gu_url g))]"
  obtain now s2 where c: "clock_ms s1 = (Inr now, s2)" using clock_frame by (metis prod.exhaust)
  let ?e = "\<lparr>pa_client_id = ap_client_id p, pa_redirect_uri = ap_redirect_uri p, pa_client_state = ap_state p,
      pa_code_challenge = ap_code_challenge p, pa_code_challenge_method = ap_code_challenge_method p,
      pa_google_csrf = gu_csrf g, pa_google_verifier = gu_verifier g, pa_expires_at = now + 10 * 60 * 1000\<rparr>"
  obtain v s3 where p: "put_pending (gu_csrf g) ?e s2 = (v, s3)" by fastforce
  have "shrinks s s2" using on(1) c by (meson shrinks_trans shrinkingD shrinking_clock shrinking_parts(1))
  then have t2: "traced env ?tr s2" by (rule traced_shrinks [OF tr]) auto
  have "registered env p (at_store s2)"
    using authorize_checks_registered [OF on(1)] clock_frame [OF c] by simp
  then have "asked env ?tr (at_store s2) (gu_csrf g) ?e"
    unfolding asked_def session_of_def by fastforce
  from traced_put_pending [OF t2 this p] have t3: "traced env ?tr s3" and v: "v = Inr ()" by blast+
  have "r = Inr (Redirect (gu_url g))" "s' = s3"
    using on(2) c p v by simp_all
  with t3 show ?thesis by simp
qed

lemma traced_callback:
  assumes tr: "traced env tr s" and a: "callback_google env go cb s = (r, s')"
  shows "traced env (tr @ [(Callback cb go, answer_of r)]) s'"
  using a unfolding callback_google_def
proof (cases rule: seqA_cases)
  case (early e)
  then show ?thesis by (intro traced_shrinks [OF tr shrinkingD [OF shrinking_parts(2)]]) auto
next
  case (on eu s1)
  obtain e u where eu: "eu = (e, u)" by fastforce
  obtain k s2 where k: "new_ulid env s1 = (Inr k, s2)" by (simp add: new_ulid_def)
  obtain now s3 where c: "clock_ms s2 = (Inr now, s3)" using clock_frame by (metis prod.exhaust)
  let ?tr = "tr @ [(Callback cb go, Redirect (callback_url e k))]"
  let ?c = "\<lparr>ac_user_id = vu_id u, ac_client_id = pa_client_id e, ac_redirect_uri = pa_redirect_uri e,
      ac_code_challenge = pa_code_challenge e, ac_code_challenge_method = pa_code_challenge_method e,
      ac_expires_at = now + AUTH_CODE_TTL_SECS * 1000\<rparr>"
  obtain v s4 where p: "put_code k ?c s3 = (v, s4)" by fastforce
  have l: "shrinks s s1" using on(1) by (rule shrinkingD [OF shrinking_parts(2)])
  have l': "shrinks s1 s3" using k c by (meson shrinks_trans shrinkingD shrinking_clock shrinking_ulid)
  then have st: "lasts (at_store s) (at_store s3)" "lasts (at_store s1) (at_store s3)"
    using shrinks_trans [OF l l'] by (simp_all add: shrinks_def)
  have t3: "traced env ?tr s3" by (rule traced_shrinks [OF tr shrinks_trans [OF l l']]) auto
  note facts = callback_login_facts [OF on(1) [unfolded eu]]
  then obtain tok sub mail where e: "(cb_state cb, e) \<in> set (at_pending s)"
    and g: "go_exchange go (cb_code cb) (pa_google_verifier e) = Some tok" "go_userinfo go tok = Some (sub, mail)"
    and u: "user_row sub (vu_id u) (at_store s1)" by blast
  have "asked env tr (at_store s) (cb_state cb) e" using tr e by (auto simp: traced_def)
  then have "asked env ?tr (at_store s3) (cb_state cb) e" by (rule asked_mono [OF _ st(1)]) auto
  then have "logged_in env ?tr (at_store s3) k ?c"
    by (rule logged_inI [where cb = cb and go = go and tok = tok and sub = sub and mail = mail, rotated])
      (simp_all add: g user_row_lasts [OF u st(2)])
  from traced_put_code [OF t3 this p] have t4: "traced env ?tr s4" and v: "v = Inr ()" by blast+
  have "r = Inr (Redirect (callback_url e k))" "s' = s4"
    using on(2) k c p v by (simp_all add: eu)
  with t4 show ?thesis by simp
qed

lemma served_traced: "served env st0 tr s \<Longrightarrow> traced env tr s"
proof (induction rule: served.induct)
  case (boot s)
  then show ?case by (simp add: traced_def)
next
  case (answer tr s q x s')
  from answer.hyps(2) obtain r where r: "endpoint env q s = (r, s')" "x = answer_of r"
    by (auto simp: serve_endpoint)
  have quiet: "traced env (tr @ [(q, x)]) s'" if "shrinks s s'"
    using that by (rule traced_shrinks [OF answer.IH]) auto
  show ?case
    using r answer.IH quiet shrinks_refl
    by (cases q) (auto simp: endpoint_def intro: traced_authorize traced_callback shrinkingD [OF shrinking_endpoints(1)]
      shrinkingD [OF shrinking_endpoints(2)] shrinkingD [OF shrinking_endpoints(3)])
qed

lemma redeem_facts:
  assumes "redeem f env s = (Inr c, s')"
  shows "\<exists>k v. tf_code f = Some k \<and> (k, c) \<in> set (at_codes s) \<and> tf_code_verifier f = Some v \<and> ae_s256 env v = ac_code_challenge c
    \<and> tf_client_id f = Some (ac_client_id c) \<and> tf_redirect_uri f = Some (ac_redirect_uri c)"
  using assms unfolding redeem_def
  by (auto simp: seqA_Inr_iff or_bad_request_def require_def dest!: take_code_Some)

lemma issue_tokens_facts:
  assumes "issue_tokens env u c b s = (Inr r, s')"
  shows "\<exists>t now. r = Tokens t \<and> jwt_issue env u c ACCESS_TOKEN_TTL_SECS now = Inr (tr_access_token t)"
proof -
  from assms obtain now s1 a s2 refresh where "clock_ms s = (Inr now, s1)"
    "(case jwt_issue env u c ACCESS_TOKEN_TTL_SECS now of Inl e \<Rightarrow> Inl ServerError | Inr t \<Rightarrow> Inr t) = (Inr a :: response + string)"
    "r = Tokens \<lparr>tr_access_token = a, tr_token_type = ''Bearer'', tr_expires_in = ACCESS_TOKEN_TTL_SECS, tr_refresh_token = refresh\<rparr>"
    unfolding issue_tokens_def by (auto simp: seqA_Inr_iff)
  then show ?thesis by (auto split: sum.splits)
qed

text \<open>An early return is never a grant.\<close>

definition refuses :: "'a web \<Rightarrow> bool" where
  "refuses m \<longleftrightarrow> (\<forall>s t. fst (m s) \<noteq> Inl (Tokens t))"

lemma refuses_seqA: "refuses m \<Longrightarrow> (\<And>x. refuses (f x)) \<Longrightarrow> refuses (seqA m f)"
  unfolding refuses_def seqA_def by (auto split: prod.splits sum.splits) (metis fst_conv)+

lemma refuses_if: "refuses a \<Longrightarrow> refuses b \<Longrightarrow> refuses (if c then a else b)"
  by simp

lemma refuses_basic:
  "refuses (okA y)" "refuses clock_ms" "refuses (new_ulid env)" "refuses (stored m)" "refuses (or_server_error m)"
  "refuses (or_bad_request e d x)" "refuses (require c e d)" "refuses (parsed_list env tx)" "refuses (take_code k)"
  by (auto simp: refuses_def clock_ms_def new_ulid_def stored_def or_server_error_def or_bad_request_def require_def
    parsed_list_def take_code_def seqA_def of_option_def split: list.splits prod.splits sum.splits option.splits)

lemma refuses_jwt: "refuses (liftE (case r of Inl e \<Rightarrow> Inl ServerError | Inr t \<Rightarrow> Inr t))"
  by (simp add: refuses_def split: sum.splits)

lemmas refuses_rules = refuses_seqA refuses_if refuses_basic refuses_jwt

lemma refuses_parts: "refuses (redeem f env)" "refuses (client_grant_types env c)" "refuses (issue_tokens env u c b)"
  unfolding redeem_def client_grant_types_def issue_tokens_def by (intro refuses_rules)+

lemma refuses_grant: "refuses (grant_auth_code env f)" "refuses (grant_refresh env f)"
  unfolding grant_auth_code_def grant_refresh_def by (intro refuses_rules refuses_parts)+

lemma grant_auth_code_facts:
  assumes "grant_auth_code env f s = (r, s')" "answer_of r = Tokens t"
  shows "\<exists>c s1 b s2. redeem f env s = (Inr c, s1)
    \<and> issue_tokens env (ac_user_id c) (ac_client_id c) b s2 = (Inr (Tokens t), s')"
proof -
  have "r = Inr (Tokens t)"
    using assms refuses_grant(1) [of env f] by (cases r) (auto simp: refuses_def, metis fst_conv)
  with assms(1) show ?thesis by (auto simp: grant_auth_code_def seqA_Inr_iff)
qed

lemma code_grant:
  assumes run: "served env st0 tr s" and f: "tf_grant_type f = ''authorization_code''"
    and t: "serve env (Token f) s = (Tokens t, s')"
  obtains k c v now where "tf_code f = Some k" "logged_in env tr (at_store s) k c" "tf_code_verifier f = Some v"
    "ae_s256 env v = ac_code_challenge c" "tf_client_id f = Some (ac_client_id c)" "tf_redirect_uri f = Some (ac_redirect_uri c)"
    "jwt_issue env (ac_user_id c) (ac_client_id c) ACCESS_TOKEN_TTL_SECS now = Inr (tr_access_token t)"
proof -
  obtain r where "grant_auth_code env f s = (r, s')" "answer_of r = Tokens t"
    using t f by (auto simp: serve_endpoint endpoint_def token_def)
  from grant_auth_code_facts [OF this] obtain c s1 b s2 where c: "redeem f env s = (Inr c, s1)"
    and i: "issue_tokens env (ac_user_id c) (ac_client_id c) b s2 = (Inr (Tokens t), s')" by blast
  from redeem_facts [OF c] obtain k v where k: "tf_code f = Some k" "(k, c) \<in> set (at_codes s)" "tf_code_verifier f = Some v"
    "ae_s256 env v = ac_code_challenge c" "tf_client_id f = Some (ac_client_id c)" "tf_redirect_uri f = Some (ac_redirect_uri c)" by blast
  moreover have "logged_in env tr (at_store s) k c"
    using served_traced [OF run] k(2) by (auto simp: traced_def)
  ultimately show ?thesis using issue_tokens_facts [OF i] that by auto
qed

text \<open>
  C10. Where an access token comes from: whatever requests anybody sent before, when the token endpoint grants
  an authorization code, then the authorization request and the return from Google are in the trace.
  An \<open>/authorize\<close> named the same client, a redirect URI registered for it, and the challenge of the
  verifier presented now; a return carried its anti-forgery token, Google vouched for a subject, the code
  was sent only to that redirect URI, and the token is made for the user row of that subject and that client.
\<close>
theorem token_provenance:
  assumes "served env st0 tr s" "tf_grant_type f = ''authorization_code''"
    and "serve env (Token f) s = (Tokens t, s')"
  shows "\<exists>p g cb go e k v tok sub mail i now.
    (Authorize p g, Redirect (gu_url g)) \<in> set tr \<and> registered env p (at_store s) \<and> session_of p g e
    \<and> (Callback cb go, Redirect (callback_url e k)) \<in> set tr \<and> cb_state cb = gu_csrf g
    \<and> go_exchange go (cb_code cb) (gu_verifier g) = Some tok \<and> go_userinfo go tok = Some (sub, mail)
    \<and> tf_code f = Some k \<and> tf_code_verifier f = Some v \<and> ae_s256 env v = ap_code_challenge p
    \<and> tf_client_id f = Some (ap_client_id p) \<and> tf_redirect_uri f = Some (ap_redirect_uri p)
    \<and> user_row sub i (at_store s)
    \<and> jwt_issue env i (ap_client_id p) ACCESS_TOKEN_TTL_SECS now = Inr (tr_access_token t)"
proof -
  from code_grant [OF assms] obtain k c v now where k: "tf_code f = Some k" "logged_in env tr (at_store s) k c"
    "tf_code_verifier f = Some v" "ae_s256 env v = ac_code_challenge c" "tf_client_id f = Some (ac_client_id c)"
    "tf_redirect_uri f = Some (ac_redirect_uri c)"
    "jwt_issue env (ac_user_id c) (ac_client_id c) ACCESS_TOKEN_TTL_SECS now = Inr (tr_access_token t)" .
  from k(2) obtain cb go e tok sub mail where l: "(Callback cb go, Redirect (callback_url e k)) \<in> set tr"
    "asked env tr (at_store s) (cb_state cb) e" "go_exchange go (cb_code cb) (pa_google_verifier e) = Some tok"
    "go_userinfo go tok = Some (sub, mail)" "user_row sub (ac_user_id c) (at_store s)" "ac_client_id c = pa_client_id e"
    "ac_redirect_uri c = pa_redirect_uri e" "ac_code_challenge c = pa_code_challenge e"
    unfolding logged_in_def by blast
  from l(2) obtain p g where a: "(Authorize p g, Redirect (gu_url g)) \<in> set tr" "registered env p (at_store s)"
    "session_of p g e" "cb_state cb = gu_csrf g" unfolding asked_def by blast
  have "ac_client_id c = ap_client_id p" "ac_redirect_uri c = ap_redirect_uri p" "ac_code_challenge c = ap_code_challenge p"
    "pa_google_verifier e = gu_verifier g"
    using a(3) l(6-8) by (simp_all add: session_of_def)
  with k l(1,3,4,5) a show ?thesis by metis
qed

text \<open>A small instance: one client, Google vouching for anybody, texts that stand for themselves.\<close>

definition demo_env :: auth_env where
  "demo_env = \<lparr>ae_ulid = (\<lambda>n. replicate n CHR ''u''), ae_sha = id, ae_s256 = id, ae_parse_strings = (\<lambda>tx. Some [tx]),
     ae_strings_text = concat, ae_url = (\<lambda>_. None), ae_encode = (\<lambda>kid c secret. Some (jc_sub c @ jc_client_id c)),
     ae_decode_kid = (\<lambda>_. None), ae_decode = (\<lambda>_ _ _. None), ae_keys = \<lparr>jk_current = ''k'', jk_keys = [(''k'', ''s'')]\<rparr>,
     ae_public_url = [], ae_shared_schema = ''all''\<rparr>"

definition demo_store :: vstore where
  "demo_store = \<lparr>vs_users = [], vs_shared = [], vs_clients = [\<lparr>oc_id = ''c'', oc_redirect_uris = ''https'',
     oc_grant_types = ''authorization_code'', oc_auth_method = ''none'', oc_client_name = None, oc_created_at = 0,
     oc_last_seen_at = None, oc_revoked_at = None\<rparr>], vs_tokens = [], vs_faults = []\<rparr>"

definition demo_boot :: auth where
  "demo_boot = \<lparr>at_pending = [], at_codes = [], at_store = demo_store, at_ensured = [], at_ulids = 0, at_now = 1, at_ticks = []\<rparr>"

definition demo_authorize :: web_request where
  "demo_authorize = Authorize \<lparr>ap_response_type = ''code'', ap_client_id = ''c'', ap_redirect_uri = ''https'', ap_code_challenge = ''v'',
     ap_code_challenge_method = ''S256'', ap_state = None\<rparr> \<lparr>gu_url = ''g'', gu_csrf = ''x'', gu_verifier = ''gv''\<rparr>"

definition demo_callback :: web_request where
  "demo_callback = Callback \<lparr>cb_code = ''gc'', cb_state = ''x''\<rparr>
     \<lparr>go_exchange = (\<lambda>c v. if v = ''gv'' then Some c else None), go_userinfo = (\<lambda>_. Some (''sub'', None))\<rparr>"

definition demo_form :: token_form where
  "demo_form = \<lparr>tf_grant_type = ''authorization_code'', tf_code = Some ''u'', tf_redirect_uri = Some ''https'', tf_client_id = Some ''c'',
     tf_code_verifier = Some ''v'', tf_refresh_token = None\<rparr>"

definition demo_session :: auth where
  "demo_session = snd (serve demo_env demo_callback (snd (serve demo_env demo_authorize demo_boot)))"

lemmas demo_defs = demo_env_def demo_store_def demo_boot_def demo_authorize_def demo_callback_def demo_form_def

lemmas server_defs = serve_def endpoint_def authorize_def authorize_checks_def callback_google_def callback_login_def token_def
  grant_auth_code_def redeem_def client_grant_types_def issue_tokens_def or_server_error_def or_bad_request_def require_def
  stored_def parsed_list_def clock_ms_def new_ulid_def put_pending_def take_pending_def put_code_def take_code_def
  put_session_def take_session_def retain_def remove_key_def seqA_def on_auth_tables_def auth_tables_def vp_client_defs
  client_get_def client_touch_last_seen_def query_def stmt_def vquery_def vstmt_def find_or_provision_def
  find_by_provider_subject_def vp_user_insert_or_ignore_def new_user_def vp_user_for_def ensure_user_and_shared_schemas_def
  callback_url_def jwt_issue_def as_secs_def AUTH_CODE_TTL_SECS_def ACCESS_TOKEN_TTL_SECS_def MAX_PENDING_AUTHS_def
  MAX_AUTH_CODES_def empty_db_def

lemma demo_run: "\<exists>tr. served demo_env demo_store tr demo_session"
proof -
  have "served demo_env demo_store [] demo_boot"
    by (rule served.boot) (simp_all add: demo_boot_def)
  then show ?thesis
    unfolding demo_session_def by (metis served.answer surjective_pairing)
qed

lemma demo_grant: "\<exists>s'. serve demo_env (Token demo_form) demo_session = (Tokens \<lparr>tr_access_token = ''c'', tr_token_type = ''Bearer'',
    tr_expires_in = 3600, tr_refresh_token = None\<rparr>, s')"
  by (simp add: demo_session_def demo_defs server_defs)

theorem token_provenance_witness:
  "\<exists>tr p g i now. served demo_env demo_store tr demo_session \<and> (Authorize p g, Redirect (gu_url g)) \<in> set tr
     \<and> tf_client_id demo_form = Some (ap_client_id p) \<and> user_row ''sub'' i (at_store demo_session)
     \<and> jwt_issue demo_env i (ap_client_id p) ACCESS_TOKEN_TTL_SECS now = Inr ''c''"
proof -
  obtain tr where tr: "served demo_env demo_store tr demo_session" using demo_run by blast
  obtain s' where s': "serve demo_env (Token demo_form) demo_session = (Tokens \<lparr>tr_access_token = ''c'',
      tr_token_type = ''Bearer'', tr_expires_in = 3600, tr_refresh_token = None\<rparr>, s')" using demo_grant by blast
  have "tf_grant_type demo_form = ''authorization_code''" by (simp add: demo_form_def)
  from token_provenance [OF tr this s'] obtain p g sub i now where
    p: "(Authorize p g, Redirect (gu_url g)) \<in> set tr" "tf_client_id demo_form = Some (ap_client_id p)"
    "user_row sub i (at_store demo_session)" "jwt_issue demo_env i (ap_client_id p) ACCESS_TOKEN_TTL_SECS now = Inr ''c''"
    by auto
  moreover have "sub = ''sub''"
    using p(3) by (auto simp: user_row_def demo_session_def demo_defs server_defs)
  ultimately show ?thesis using tr by blast
qed

end
