(* ===== verification/Vp_Once.thy ===== *)
theory Vp_Once
  imports Vp_Login
begin

text \<open>
  Authorization codes and refresh tokens work once, over any requests to the authorization server: two
  interpretations of the contract \<open>one_shot\<close> on \<open>serve\<close>.
\<close>

definition web_step :: "auth_env \<Rightarrow> auth \<Rightarrow> web_request \<Rightarrow> response \<times> auth" where
  "web_step env s q = serve env q s"

lemma keeps_web_step: "keeps I (endpoint env q) \<Longrightarrow> I s \<Longrightarrow> I (snd (web_step env s q))"
  by (auto simp: keeps_def web_step_def serve_def split: prod.splits sum.splits dest!: spec [of _ s])

section \<open>Authorization codes\<close>

text \<open>Properties of the map of codes that closing sessions and drawing identifiers keep.\<close>

definition codes_only :: "(auth \<Rightarrow> bool) \<Rightarrow> bool" where
  "codes_only I \<longleftrightarrow> (\<forall>s s'. I s \<longrightarrow> set (at_codes s') \<subseteq> set (at_codes s) \<longrightarrow> at_ulids s \<le> at_ulids s' \<longrightarrow> I s')"

definition codes_known :: "auth_env \<Rightarrow> auth \<Rightarrow> bool" where
  "codes_known env s \<longleftrightarrow> inj (ae_ulid env) \<and> (\<forall>kc \<in> set (at_codes s). \<exists>i < at_ulids s. fst kc = ae_ulid env i)"

definition code_spent :: "auth_env \<Rightarrow> string \<Rightarrow> auth \<Rightarrow> bool" where
  "code_spent env k s \<longleftrightarrow> k \<notin> fst ` set (at_codes s) \<and> (\<forall>i \<ge> at_ulids s. ae_ulid env i \<noteq> k)"

lemma codes_only: "codes_only (codes_known env)" "codes_only (code_spent env k)"
  unfolding codes_only_def codes_known_def code_spent_def by (blast intro: less_le_trans) (auto intro: order_trans)

lemma keeps_shrinking: "codes_only I \<Longrightarrow> shrinking m \<Longrightarrow> keeps I m"
  unfolding keeps_def codes_only_def shrinking_def shrinks_def by blast

lemma keeps_put_pending: "codes_only I \<Longrightarrow> keeps I (put_pending k e)"
  unfolding put_pending_def
  by (rule keeps_seqA, erule keeps_shrinking, rule shrinking_clock) (auto simp: keeps_def codes_only_def)

lemma keeps_put_code:
  assumes "codes_only I" "I s" "\<And>s'. I s' \<Longrightarrow> at_ulids s \<le> at_ulids s' \<Longrightarrow> I (s'\<lparr>at_codes := (k, c) # at_codes s'\<rparr>)"
  shows "I (snd (put_code k c s))"
proof -
  obtain x s1 where ck: "clock_ms s = (x, s1)" by fastforce
  have s1: "shrinks s s1" by (rule shrinkingD [OF shrinking_clock ck])
  with assms(1,2) have "I s1" unfolding codes_only_def shrinks_def by blast
  with s1 assms(3) have I: "I (s1\<lparr>at_codes := (k, c) # at_codes s1\<rparr>)" by (simp add: shrinks_def)
  obtain now where "x = Inr now" using clock_frame [OF ck] by blast
  then have "snd (put_code k c s) = s1\<lparr>at_codes := put_session MAX_AUTH_CODES ac_expires_at k c now (at_codes s1)\<rparr>"
    using ck by (simp add: put_code_def)
  moreover have "set (put_session MAX_AUTH_CODES ac_expires_at k c now (at_codes s1)) \<subseteq> set ((k, c) # at_codes s1)"
    using put_session_set [of MAX_AUTH_CODES ac_expires_at k c now "at_codes s1"] by simp
  ultimately show ?thesis using assms(1) I unfolding codes_only_def
    by (metis (no_types, lifting) auth.select_convs(2,5) auth.surjective auth.update_convs(2) order_refl)
qed

lemma keeps_callback:
  assumes I: "codes_only I"
    and fresh: "\<And>s s' c. I s \<Longrightarrow> at_ulids s < at_ulids s' \<Longrightarrow> I s' \<Longrightarrow>
      I (s'\<lparr>at_codes := (ae_ulid env (at_ulids s), c) # at_codes s'\<rparr>)"
  shows "keeps I (callback_google env go cb)"
  unfolding callback_google_def
proof (rule keeps_seqA [OF keeps_shrinking [OF I shrinking_parts(2)]], unfold keeps_def, intro allI impI)
  fix eu :: "pending_auth \<times> vp_user" and s
  assume s: "I s"
  obtain k s1 where n: "new_ulid env s = (Inr k, s1)" "k = ae_ulid env (at_ulids s)" "at_ulids s < at_ulids s1"
    by (simp add: new_ulid_def)
  obtain now s2 where c: "clock_ms s1 = (Inr now, s2)" using clock_frame by (metis prod.exhaust)
  have "shrinks s s2" using n(1) c by (meson shrinks_trans shrinkingD shrinking_clock shrinking_ulid)
  with s I have s2: "I s2" unfolding codes_only_def shrinks_def by blast
  have u: "at_ulids s < at_ulids s2" using n(3) shrinkingD [OF shrinking_clock c] by (simp add: shrinks_def)
  let ?c = "\<lparr>ac_user_id = vu_id (snd eu), ac_client_id = pa_client_id (fst eu), ac_redirect_uri = pa_redirect_uri (fst eu),
      ac_code_challenge = pa_code_challenge (fst eu), ac_code_challenge_method = pa_code_challenge_method (fst eu),
      ac_expires_at = now + AUTH_CODE_TTL_SECS * 1000\<rparr>"
  have "I (snd (put_code k ?c s2))"
    by (rule keeps_put_code [OF I s2]) (use fresh [OF s] u n(2) in \<open>simp add: less_le_trans\<close>)
  moreover obtain r s3 where p: "put_code k ?c s2 = (r, s3)" by fastforce
  ultimately have "I s3" by simp
  then show "I (snd (seqA (new_ulid env) (\<lambda>code. seqA clock_ms (\<lambda>now. seqA (put_code code
      \<lparr>ac_user_id = vu_id (snd eu), ac_client_id = pa_client_id (fst eu), ac_redirect_uri = pa_redirect_uri (fst eu),
      ac_code_challenge = pa_code_challenge (fst eu), ac_code_challenge_method = pa_code_challenge_method (fst eu),
      ac_expires_at = now + AUTH_CODE_TTL_SECS * 1000\<rparr>)
      (\<lambda>_. okA (Redirect (callback_url (fst eu) code))))) s))"
    using n(1) c p by (cases r) simp_all
qed

lemma keeps_endpoint:
  assumes I: "codes_only I"
    and fresh: "\<And>s s' c. I s \<Longrightarrow> at_ulids s < at_ulids s' \<Longrightarrow> I s' \<Longrightarrow>
      I (s'\<lparr>at_codes := (ae_ulid env (at_ulids s), c) # at_codes s'\<rparr>)"
  shows "keeps I (endpoint env q)"
proof (cases q)
  case (Authorize p g)
  have "keeps I (authorize env p g)" unfolding authorize_def
    by (intro keeps_seqA keeps_shrinking [OF I shrinking_parts(1)] keeps_shrinking [OF I shrinking_clock]
      keeps_put_pending [OF I] keeps_okA)
  then show ?thesis by (simp add: Authorize endpoint_def)
qed (auto simp: endpoint_def intro: keeps_callback [OF I fresh] keeps_shrinking [OF I] shrinking_endpoints)

lemma keeps_codes: "keeps (codes_known env) (endpoint env q)" "keeps (code_spent env k) (endpoint env q)"
   apply (rule keeps_endpoint [OF codes_only(1)])
   apply (auto simp: codes_known_def)[1]
  apply (rule keeps_endpoint [OF codes_only(2)])
  apply (auto simp: code_spent_def)
  done

definition code_granted :: "string \<Rightarrow> web_request \<Rightarrow> response \<Rightarrow> bool" where
  "code_granted k q r \<longleftrightarrow> (\<exists>f t. q = Token f \<and> tf_grant_type f = ''authorization_code'' \<and> tf_code f = Some k \<and> r = Tokens t)"

lemma code_grantedD:
  assumes "code_granted k q (fst (web_step env s q))"
  shows "\<exists>f c s1. tf_code f = Some k \<and> redeem f env s = (Inr c, s1) \<and> shrinks s1 (snd (web_step env s q))"
proof -
  obtain x s' where w: "web_step env s q = (x, s')" by fastforce
  with assms obtain f t where f: "q = Token f" "tf_grant_type f = ''authorization_code''" "tf_code f = Some k" "x = Tokens t"
    by (auto simp: code_granted_def)
  with w obtain r where g: "grant_auth_code env f s = (r, s')" "answer_of r = Tokens t"
    by (auto simp: web_step_def serve_endpoint endpoint_def token_def)
  from grant_auth_code_facts [OF this] obtain c s1 where c: "redeem f env s = (Inr c, s1)" by blast
  have "shrinking (seqA (client_grant_types env (ac_client_id c)) (\<lambda>grants.
      issue_tokens env (ac_user_id c) (ac_client_id c) (''refresh_token'' \<in> set grants)))"
    by (intro shrinking_seqA shrinking_parts)
  then have "shrinks s1 s'" by (rule shrinkingD) (use g(1) c in \<open>simp add: grant_auth_code_def\<close>)
  with c f(3) w show ?thesis by auto
qed

lemma redeem_uses_up:
  assumes "redeem f env s = (Inr c, s')" "tf_code f = Some k"
  shows "(k, c) \<in> set (at_codes s) \<and> k \<notin> fst ` set (at_codes s') \<and> at_ulids s \<le> at_ulids s'"
proof -
  obtain s1 where "take_code k s = (Inr (Some c), s1)" "s' = s1"
    using assms unfolding redeem_def by (auto simp: seqA_Inr_iff or_bad_request_def require_def)
  then show ?thesis
    using take_code_Some shrinkingD [OF shrinking_take(2), of k s]
    by (auto simp: shrinks_def) (auto simp: take_code_def seqA_Inr_iff split_beta take_session_def remove_key_def Let_def)
qed

interpretation code: one_shot "web_step env" "code_granted k" "code_spent env k" "codes_known env"
  for env :: auth_env and k :: string
proof unfold_locales
  fix s q
  show "codes_known env s \<Longrightarrow> codes_known env (snd (web_step env s q))"
    by (rule keeps_web_step [OF keeps_codes(1)])
  show "code_spent env k s \<Longrightarrow> code_spent env k (snd (web_step env s q))"
    by (rule keeps_web_step [OF keeps_codes(2)])
  show "code_spent env k s \<Longrightarrow> \<not> code_granted k q (fst (web_step env s q))"
  proof
    assume spent: "code_spent env k s" and "code_granted k q (fst (web_step env s q))"
    then obtain f c s1 where "tf_code f = Some k" "redeem f env s = (Inr c, s1)" using code_grantedD by blast
    then have "(k, c) \<in> set (at_codes s)" using redeem_uses_up by blast
    with spent show False by (simp add: code_spent_def) (metis fst_conv image_eqI)
  qed
next
  fix s q
  assume inv: "codes_known env s" and g: "code_granted k q (fst (web_step env s q))"
  from code_grantedD [OF g] obtain f c s1 where f: "tf_code f = Some k" "redeem f env s = (Inr c, s1)"
    "shrinks s1 (snd (web_step env s q))" by blast
  note up = redeem_uses_up [OF f(2,1)]
  with inv obtain i where i: "i < at_ulids s" "k = ae_ulid env i" "inj (ae_ulid env)"
    by (auto simp: codes_known_def)
  then have "ae_ulid env j \<noteq> k" if "at_ulids s1 \<le> j" for j
    using up that by (auto dest: injD)
  with up have "code_spent env k s1" by (simp add: code_spent_def)
  then show "code_spent env k (snd (web_step env s q))"
    using codes_only(2) f(3) unfolding codes_only_def shrinks_def by blast
qed

section \<open>Refresh tokens\<close>

text \<open>A property of the rows of refresh tokens, on the web server's state.\<close>

definition of_tokens :: "(db \<Rightarrow> bool) \<Rightarrow> bool" where
  "of_tokens J \<longleftrightarrow> (\<forall>d d'. t_tokens d = t_tokens d' \<longrightarrow> J d = J d')"

definition on_server :: "(db \<Rightarrow> bool) \<Rightarrow> auth \<Rightarrow> bool" where
  "on_server J s = J (auth_tables (at_store s))"

lemma of_tokens: "of_tokens (token_spent h)" "of_tokens token_keys"
  by (simp_all add: of_tokens_def token_spent_def token_keys_def)

lemma on_server_same: "of_tokens J \<Longrightarrow> vs_tokens (at_store s') = vs_tokens (at_store s) \<Longrightarrow> on_server J s' = on_server J s"
  unfolding of_tokens_def on_server_def by (auto simp: auth_tables_def)

lemma keeps_same_tokens:
  "of_tokens J \<Longrightarrow> (\<And>s. vs_tokens (at_store (snd (m s))) = vs_tokens (at_store s)) \<Longrightarrow> keeps (on_server J) m"
  unfolding keeps_def using on_server_same by blast

definition of_store :: "(auth \<Rightarrow> bool) \<Rightarrow> bool" where
  "of_store I \<longleftrightarrow> (\<forall>s s'. at_store s' = at_store s \<longrightarrow> I s \<longrightarrow> I s')"

lemma of_store_server: "of_store (on_server J)"
  by (simp add: of_store_def on_server_def)

lemma keeps_same_store: "of_store I \<Longrightarrow> (\<And>s. at_store (snd (m s)) = at_store s) \<Longrightarrow> keeps I m"
  unfolding keeps_def of_store_def by blast

lemma keeps_untouched:
  assumes J: "of_store I"
  shows "keeps I clock_ms" "keeps I (new_ulid env)" "keeps I (take_pending k)"
    "keeps I (take_code k)" "keeps I (put_pending k e)" "keeps I (put_code k c)"
    "keeps I (ensure_user_and_shared_schemas env u)"
    "keeps I (or_bad_request er d x)" "keeps I (require b er d)" "keeps I (parsed_list env tx)"
proof -
  show clock: "keeps I clock_ms"
    by (rule keeps_same_store [OF J]) (simp add: clock_ms_def split: list.splits)
  show "keeps I (new_ulid env)" "keeps I (ensure_user_and_shared_schemas env u)"
    by (rule keeps_same_store [OF J], simp add: new_ulid_def ensure_user_and_shared_schemas_def)+
  show "keeps I (take_pending k)" "keeps I (take_code k)"
    "keeps I (put_pending k e)" "keeps I (put_code k c)"
    unfolding take_pending_def take_code_def put_pending_def put_code_def
    by (rule keeps_seqA [OF clock], rule keeps_same_store [OF J], simp add: split_beta)+
  show "keeps I (or_bad_request er d x)" "keeps I (require b er d)" "keeps I (parsed_list env tx)"
    by (simp_all add: or_bad_request_def require_def parsed_list_def)
qed

lemma keeps_on_auth_tables:
  assumes "of_tokens J" "keeps J f"
  shows "keeps (on_server J) (stored (on_auth_tables f))" "keeps (on_server J) (or_server_error (on_auth_tables f))"
proof -
  show st: "keeps (on_server J) (stored (on_auth_tables f))"
    unfolding keeps_def
  proof (intro allI impI)
    fix s assume "on_server J s"
    then have J: "J (snd (f (auth_tables (at_store s))))" using assms(2) by (simp add: keeps_def on_server_def)
    have "t_tokens (auth_tables (at_store (snd (stored (on_auth_tables f) s)))) = t_tokens (snd (f (auth_tables (at_store s))))"
      by (simp add: stored_def on_auth_tables_def auth_tables_def split_beta)
    with J assms(1) show "on_server J (snd (stored (on_auth_tables f) s))"
      unfolding of_tokens_def on_server_def by blast
  qed
  show "keeps (on_server J) (or_server_error (on_auth_tables f))"
    unfolding or_server_error_def by (intro keeps_seqA st keeps_liftE)
qed

lemma provision_tokens: "vs_tokens (snd (find_or_provision i p sub mail sc now st)) = vs_tokens st"
proof -
  have f: "vs_tokens (snd (find_by_provider_subject p sub st)) = vs_tokens st" for st
    unfolding find_by_provider_subject_def vquery_def
    by (cases rule: vstmt_cases [of st "\<lambda>s. (Inr (find (vp_user_for p sub) (vs_users s)), s)"]) auto
  have "vs_tokens (snd (vp_user_insert_or_ignore i p sub mail sc now st)) = vs_tokens st" for st
    unfolding vp_user_insert_or_ignore_def by (auto simp: vstmt_def split: list.splits)
  then show ?thesis using f unfolding find_or_provision_def seqA_def
    by (auto simp: split_beta split: sum.splits option.splits)
qed

lemma keeps_provision: "of_tokens J \<Longrightarrow> keeps (on_server J) (or_server_error (find_or_provision i p sub mail sc now))"
  unfolding or_server_error_def
  by (intro keeps_seqA keeps_liftE) (rule keeps_same_tokens, assumption, simp add: stored_def split_beta provision_tokens)

lemma of_tokensD: "of_tokens J \<Longrightarrow> J d \<Longrightarrow> t_tokens d = t_tokens d' \<Longrightarrow> J d'"
  unfolding of_tokens_def by blast

lemma of_tokens_faults: "of_tokens J \<Longrightarrow> ignores_faults J"
  unfolding ignores_faults_def by (intro allI iffI; erule of_tokensD, assumption, simp)

lemma keeps_clients:
  assumes J: "of_tokens J"
  shows "keeps J (client_register ulid now uris grants auth name)" "keeps J (client_get i)" "keeps J (client_touch_last_seen now i)"
proof -
  note ig = of_tokens_faults [OF J]
  show "keeps J (client_get i)" unfolding client_get_def by (rule keeps_query [OF ig])
  show "keeps J (client_register ulid now uris grants auth name)" "keeps J (client_touch_last_seen now i)"
    unfolding client_register_def client_touch_last_seen_def Let_def
    by (rule keeps_stmt [OF ig], erule of_tokensD [OF J], simp)+
qed

definition kept_by_tokens :: "(db \<Rightarrow> bool) \<Rightarrow> (string \<Rightarrow> string) \<Rightarrow> bool" where
  "kept_by_tokens J sha \<longleftrightarrow> of_tokens J \<and> (\<forall>tok u c e. keeps J (create_refresh sha tok u c e))
     \<and> (\<forall>tok now. keeps J (token_revoke sha tok now)) \<and> (\<forall>tok now. keeps J (validate_and_revoke sha tok now))"

lemma kept_by_tokens: "kept_by_tokens (token_spent h) sha" "kept_by_tokens token_keys sha"
  by (simp_all add: kept_by_tokens_def of_tokens keeps_spent keeps_token_keys)

lemma keeps_issue:
  assumes "kept_by_tokens J (ae_sha env)"
  shows "keeps (on_server J) (client_grant_types env c)" "keeps (on_server J) (issue_tokens env u c b)"
proof -
  have J: "of_tokens J" "keeps J (create_refresh (ae_sha env) tok uid cid e)" for tok uid cid e
    using assms by (simp_all add: kept_by_tokens_def)
  show "keeps (on_server J) (client_grant_types env c)"
    unfolding client_grant_types_def vp_client_get_def
    by (intro keeps_seqA keeps_on_auth_tables(2) J keeps_clients keeps_untouched of_store_server)
  show "keeps (on_server J) (issue_tokens env u c b)"
    unfolding issue_tokens_def vp_create_refresh_def
    by (intro keeps_seqA keeps_if keeps_on_auth_tables(2) J keeps_untouched of_store_server keeps_liftE keeps_okA)
qed

lemma keeps_server:
  assumes "kept_by_tokens J (ae_sha env)"
  shows "keeps (on_server J) (endpoint env q)"
proof -
  have J: "of_tokens J" "keeps J (token_revoke (ae_sha env) tok now)" "keeps J (validate_and_revoke (ae_sha env) tok now)" for tok now
    using assms by (simp_all add: kept_by_tokens_def)
  have "keeps (on_server J) (register env body)" "keeps (on_server J) (authorize env p g)" "keeps (on_server J) (callback_google env go cb)"
    "keeps (on_server J) (token env f)" "keeps (on_server J) (revoke env tok)" for body p g go cb f tok
    unfolding register_def authorize_def authorize_checks_def callback_google_def callback_login_def token_def grant_auth_code_def
      grant_refresh_def redeem_def revoke_def vp_client_defs vp_token_defs
    by (intro keeps_seqA keeps_if keeps_on_auth_tables J keeps_clients keeps_untouched of_store_server keeps_liftE keeps_okA keeps_errA
      keeps_provision keeps_issue assms)+
  then show ?thesis by (cases q) (simp_all add: endpoint_def)
qed

definition refresh_granted :: "string \<Rightarrow> web_request \<Rightarrow> response \<Rightarrow> bool" where
  "refresh_granted tok q r \<longleftrightarrow> (\<exists>f t. q = Token f \<and> tf_grant_type f = ''refresh_token'' \<and> tf_refresh_token f = Some tok \<and> r = Tokens t)"

lemma refresh_grantedD:
  assumes "refresh_granted tok q (fst (web_step env s q))"
  shows "\<exists>now uc d' s2. validate_and_revoke (ae_sha env) tok now (auth_tables (at_store s)) = (Inr (Some uc), d')
    \<and> t_tokens (auth_tables (at_store s2)) = t_tokens d'
    \<and> (\<forall>J. kept_by_tokens J (ae_sha env) \<longrightarrow> on_server J s2 \<longrightarrow> on_server J (snd (web_step env s q)))"
proof -
  obtain x s' where w: "web_step env s q = (x, s')" by fastforce
  with assms obtain f t where f: "q = Token f" "tf_grant_type f = ''refresh_token''" "tf_refresh_token f = Some tok" "x = Tokens t"
    by (auto simp: refresh_granted_def)
  with w obtain r where g: "grant_refresh env f s = (r, s')" "answer_of r = Tokens t"
    by (auto simp: web_step_def serve_endpoint endpoint_def token_def)
  have "r = Inr (Tokens t)"
    using g refuses_grant(2) [of env f] by (cases r) (auto simp: refuses_def, metis fst_conv)
  with g(1) f(3) obtain now s1 uc s2 grants s3 where c: "clock_ms s = (Inr now, s1)"
    and v: "or_server_error (vp_validate_and_revoke (ae_sha env) tok now) s1 = (Inr (Some uc), s2)"
    and rest: "client_grant_types env (snd uc) s2 = (Inr grants, s3)"
      "issue_tokens env (fst uc) (snd uc) True s3 = (Inr (Tokens t), s')"
    by (auto simp: grant_refresh_def seqA_Inr_iff or_bad_request_def require_def)
  obtain d' where d': "validate_and_revoke (ae_sha env) tok now (auth_tables (at_store s1)) = (Inr (Some uc), d')"
    "t_tokens (auth_tables (at_store s2)) = t_tokens d'"
    using v by (auto simp: or_server_error_Inr vp_validate_and_revoke_def on_auth_tables_def auth_tables_def split: prod.splits)
  have "on_server J s'" if "kept_by_tokens J (ae_sha env)" "on_server J s2" for J
    using keepsD [OF keeps_issue(2) [OF that(1)] keepsD [OF keeps_issue(1) [OF that(1)] that(2) rest(1)] rest(2)] .
  moreover have "at_store s1 = at_store s" using clock_frame [OF c] by blast
  ultimately show ?thesis unfolding w snd_conv using d' by metis
qed

interpretation refreshing: one_shot "web_step env" "refresh_granted tok" "on_server (token_spent (ae_sha env tok))" "on_server token_keys"
  for env :: auth_env and tok :: string
proof unfold_locales
  fix s q
  show "on_server token_keys s \<Longrightarrow> on_server token_keys (snd (web_step env s q))"
    by (rule keeps_web_step [OF keeps_server [OF kept_by_tokens(2)]])
  show "on_server (token_spent (ae_sha env tok)) s \<Longrightarrow> on_server (token_spent (ae_sha env tok)) (snd (web_step env s q))"
    by (rule keeps_web_step [OF keeps_server [OF kept_by_tokens(1)]])
  show "on_server (token_spent (ae_sha env tok)) s \<Longrightarrow> \<not> refresh_granted tok q (fst (web_step env s q))"
  proof
    assume spent: "on_server (token_spent (ae_sha env tok)) s" and "refresh_granted tok q (fst (web_step env s q))"
    then obtain now uc d' where "validate_and_revoke (ae_sha env) tok now (auth_tables (at_store s)) = (Inr (Some uc), d')"
      using refresh_grantedD by blast
    then obtain t where "t \<in> set (t_tokens (auth_tables (at_store s)))" "token_live (ae_sha env tok) now t" by (rule consume_grants)
    with spent show False by (auto simp: on_server_def token_spent_def token_live_def)
  qed
next
  fix s q
  assume keys: "on_server token_keys s" and g: "refresh_granted tok q (fst (web_step env s q))"
  from refresh_grantedD [OF g] obtain now uc d' s2 where
    v: "validate_and_revoke (ae_sha env) tok now (auth_tables (at_store s)) = (Inr (Some uc), d')"
    and d': "t_tokens (auth_tables (at_store s2)) = t_tokens d'"
    and rest: "on_server (token_spent (ae_sha env tok)) s2 \<Longrightarrow> on_server (token_spent (ae_sha env tok)) (snd (web_step env s q))"
    using kept_by_tokens(1) by blast
  from v obtain fs t where t: "t \<in> set (t_tokens (auth_tables (at_store s)))" "token_live (ae_sha env tok) now t"
    "d' = (auth_tables (at_store s))\<lparr>t_tokens := map (\<lambda>t. if token_live (ae_sha env tok) now t then t\<lparr>t_revoked_at := Some now\<rparr> else t)
        (t_tokens (auth_tables (at_store s))), faults := fs\<rparr>"
    by (rule consume_grants)
  have "token_spent (ae_sha env tok) d'"
    unfolding t(3) by (rule token_spent_consume [OF _ t(1,2)]) (use keys in \<open>simp add: on_server_def\<close>)
  then have "token_spent (ae_sha env tok) (auth_tables (at_store s2))"
    by (rule of_tokensD [OF of_tokens(1)]) (simp add: d')
  then show "on_server (token_spent (ae_sha env tok)) (snd (web_step env s q))" by (intro rest) (simp add: on_server_def)
qed

text \<open>
  C11. Credentials work once: over any sequence of requests from anybody (with any failures of the database), the
  token endpoint grants a given authorization code at most once, and a given refresh token at most once.
  The server starts with no codes, identifiers do not repeat, and the table's primary key holds.
\<close>
theorem credentials_single_use:
  assumes "inj (ae_ulid env)" "at_codes s = []" "distinct (map t_hash (vs_tokens (at_store s)))"
  shows "length (filter (\<lambda>(q, r). code_granted k q r) (zip qs (outcomes (web_step env) s qs))) \<le> 1
    \<and> length (filter (\<lambda>(q, r). refresh_granted tok q r) (zip qs (outcomes (web_step env) s qs))) \<le> 1"
  by (intro conjI code.at_most_once_list refreshing.at_most_once_list)
    (use assms in \<open>simp_all add: codes_known_def on_server_def token_keys_def auth_tables_def\<close>)

theorem credentials_single_use_witness:
  "inj (ae_ulid demo_env) \<and> length (filter (\<lambda>(q, r). code_granted ''u'' q r)
     (zip [demo_authorize, demo_callback, Token demo_form, Token demo_form]
        (outcomes (web_step demo_env) demo_boot [demo_authorize, demo_callback, Token demo_form, Token demo_form]))) = 1"
proof -
  have inj: "inj (ae_ulid demo_env)"
    by (rule injI) (auto simp: demo_env_def dest: arg_cong [where f = "length"])
  let ?qs = "[demo_authorize, demo_callback, Token demo_form, Token demo_form]"
  have "length (filter (\<lambda>(q, r). code_granted ''u'' q r) (zip ?qs (outcomes (web_step demo_env) demo_boot ?qs))) \<le> 1"
    using credentials_single_use [OF inj, of demo_boot "''u''" ?qs "''t''"] by (simp add: demo_boot_def demo_store_def)
  moreover have "1 \<le> length (filter (\<lambda>(q, r). code_granted ''u'' q r) (zip ?qs (outcomes (web_step demo_env) demo_boot ?qs)))"
    by (simp add: web_step_def demo_defs server_defs code_granted_def)
  ultimately show ?thesis using inj by linarith
qed

end
