(* ===== verification/Vp_Tenants.thy ===== *)
theory Vp_Tenants
  imports Vp_Once
begin

text \<open>
  Who a bearer is: users never share a schema and never change theirs, and a token that was granted is
  accepted until it expires.
\<close>

section \<open>Users and their schemas\<close>

definition tenant_row :: "vp_user \<Rightarrow> bool" where
  "tenant_row u \<longleftrightarrow> vu_provider u = ''google'' \<and> vu_schema u = ''user-'' @ vu_subject u"

definition tenancy :: "vstore \<Rightarrow> vstore \<Rightarrow> bool" where
  "tenancy st0 st \<longleftrightarrow> lasts st0 st \<and> users_inv st \<and> (\<forall>u \<in> set (vs_users st). tenant_row u)"

definition tenancy_at :: "vstore \<Rightarrow> auth \<Rightarrow> bool" where
  "tenancy_at st0 s = tenancy st0 (at_store s)"

lemma of_store_tenancy: "of_store (tenancy_at st0)"
  by (simp add: of_store_def tenancy_at_def)

lemma tenancy_lasting:
  assumes "lasting m" "\<And>s u. u \<in> set (vs_users (snd (m s))) \<Longrightarrow> u \<in> set (vs_users s) \<or> tenant_row u"
  shows "keeps (tenancy_at st0) (stored m)" "keeps (tenancy_at st0) (or_server_error m)"
proof -
  show st: "keeps (tenancy_at st0) (stored m)"
    unfolding keeps_def
  proof (intro allI impI)
    fix s assume "tenancy_at st0 s"
    then have t: "tenancy st0 (at_store s)" by (simp add: tenancy_at_def)
    have m: "lasts (at_store s) (snd (m (at_store s)))" "users_inv (at_store s) \<longrightarrow> users_inv (snd (m (at_store s)))"
      using assms(1) by (simp_all add: lasting_def)
    have "tenancy st0 (snd (m (at_store s)))"
      using t m assms(2) [of _ "at_store s"] lasts_trans [OF _ m(1)] unfolding tenancy_def by blast
    moreover have "at_store (snd (stored m s)) = snd (m (at_store s))" by (simp add: stored_def split_beta)
    ultimately show "tenancy_at st0 (snd (stored m s))" by (simp add: tenancy_at_def)
  qed
  show "keeps (tenancy_at st0) (or_server_error m)"
    unfolding or_server_error_def by (intro keeps_seqA st keeps_liftE)
qed

lemma auth_tables_users: "vs_users (snd (on_auth_tables f s)) = vs_users s"
  by (simp add: on_auth_tables_def split_beta)

lemma tenancy_vp:
  assumes "lasting (on_auth_tables f)"
  shows "keeps (tenancy_at st0) (stored (on_auth_tables f))" "keeps (tenancy_at st0) (or_server_error (on_auth_tables f))"
  by (rule tenancy_lasting [OF assms], simp add: auth_tables_users)+

lemma vquery_users: "vs_users (snd (vquery f s)) = vs_users s"
  by (cases rule: vstmt_cases [of s "\<lambda>s. (Inr (f s), s)"]) (auto simp: vquery_def)

lemma provision_rows:
  "u \<in> set (vs_users (snd (find_or_provision i p sub mail sc now s))) \<Longrightarrow>
     u \<in> set (vs_users s) \<or> u = new_user i p sub mail sc now"
proof -
  have ins: "u \<in> set (vs_users (snd (vp_user_insert_or_ignore i p sub mail sc now s))) \<Longrightarrow>
      u \<in> set (vs_users s) \<or> u = new_user i p sub mail sc now" for s
    unfolding vp_user_insert_or_ignore_def by (auto simp: vstmt_def split: list.splits if_splits)
  have find: "vs_users (snd (find_by_provider_subject p sub s)) = vs_users s" for s
    by (simp add: find_by_provider_subject_def vquery_users)
  assume u: "u \<in> set (vs_users (snd (find_or_provision i p sub mail sc now s)))"
  obtain r s1 where f: "find_by_provider_subject p sub s = (r, s1)" by fastforce
  obtain r2 s2 where n: "vp_user_insert_or_ignore i p sub mail sc now s1 = (r2, s2)" by fastforce
  have "u \<in> set (vs_users s1) \<or> u \<in> set (vs_users s2)"
  proof (cases r)
    case (Inr x)
    then show ?thesis
    proof (cases x)
      case None
      obtain r3 s3 where g: "find_by_provider_subject p sub s2 = (r3, s3)" by fastforce
      have "vs_users s3 = vs_users s2" using find [of s2] g by simp
      then show ?thesis using u f n g Inr None by (cases r2; cases r3) (auto simp: find_or_provision_def)
    qed (use u f Inr in \<open>simp add: find_or_provision_def\<close>)
  qed (use u f in \<open>simp add: find_or_provision_def\<close>)
  moreover have "vs_users s1 = vs_users s" using find [of s] f by simp
  ultimately show ?thesis using ins [of s1] n by auto
qed

lemma tenancy_provision:
  "keeps (tenancy_at st0) (or_server_error (find_or_provision i ''google'' sub mail (''user-'' @ sub) now))"
  by (rule tenancy_lasting(2) [OF lasting_provision]) (auto dest!: provision_rows simp: tenant_row_def new_user_def)

lemma keeps_tenancy: "keeps (tenancy_at st0) (endpoint env q)"
proof -
  note vp = lasting_vp [unfolded vp_client_defs vp_token_defs]
  note T = of_store_tenancy
  have "keeps (tenancy_at st0) (register env body)" "keeps (tenancy_at st0) (authorize env p g)"
    "keeps (tenancy_at st0) (callback_google env go cb)"
    "keeps (tenancy_at st0) (token env f)" "keeps (tenancy_at st0) (revoke env tok)" for body p g go cb f tok
    unfolding register_def authorize_def authorize_checks_def callback_google_def callback_login_def token_def grant_auth_code_def
      grant_refresh_def redeem_def revoke_def client_grant_types_def issue_tokens_def vp_client_defs vp_token_defs
    by (intro keeps_seqA keeps_if tenancy_vp vp keeps_untouched T keeps_liftE keeps_okA keeps_errA tenancy_provision)+
  then show ?thesis by (cases q) (simp_all add: endpoint_def)
qed

definition after_requests :: "auth_env \<Rightarrow> web_request list \<Rightarrow> auth \<Rightarrow> auth" where
  "after_requests env qs s = foldl (\<lambda>s q. snd (serve env q s)) s qs"

lemma tenancy_requests: "tenancy_at st0 s \<Longrightarrow> tenancy_at st0 (after_requests env qs s)"
  unfolding after_requests_def
  by (induction qs arbitrary: s) (use keeps_web_step [OF keeps_tenancy] in \<open>auto simp: web_step_def\<close>)

lemma lookup_Inr:
  "(case m of (Inl e, s') \<Rightarrow> (Inl InternalServerError, s') | (Inr u, s') \<Rightarrow> (of_option Unauthorized u, s')) = (Inr x, s'')
     \<longleftrightarrow> m = (Inr (Some x), s'')"
  by (cases m; cases "fst m") (auto simp: of_option_def split: option.splits)

lemma bearer_row:
  assumes "fst (require_auth env b now st) = Inr a"
  shows "\<exists>u \<in> set (vs_users st). vu_id u = us_user_id a \<and> vu_schema u = us_schema a"
proof -
  have a: "require_auth env b now st = (Inr a, snd (require_auth env b now st))" by (simp add: assms [symmetric])
  from a obtain i u st' st'' where "vp_find_by_id i st = (Inr (Some u), st')" "us_user_id a = vu_id u" "us_schema a = vu_schema u"
    unfolding require_auth_def by (auto simp: seqA_Inr_iff lookup_Inr)
  then show ?thesis
    unfolding vp_find_by_id_def by (auto dest!: vquery_result find_SomeD [OF sym])
qed

text \<open>
  Tenants stay apart: from a database in which users are distinct and each has the schema of its own Google
  subject, whatever requests are served, two bearers accepted at any two moments have the same user exactly
  when they are given the same schema. No login moves a user to another schema or joins two users.
\<close>
lemma tenants_distinct:
  assumes "users_inv (at_store s)" "\<forall>u \<in> set (vs_users (at_store s)). tenant_row u"
    and a: "fst (require_auth env b now (at_store (after_requests env qs s))) = Inr a"
    and a': "fst (require_auth env b' now' (at_store (after_requests env qs' (after_requests env qs s)))) = Inr a'"
  shows "us_user_id a = us_user_id a' \<longleftrightarrow> us_schema a = us_schema a'"
proof -
  let ?s1 = "after_requests env qs s" and ?s2 = "after_requests env qs' (after_requests env qs s)"
  have "tenancy_at (at_store s) s" using assms(1,2) by (simp add: tenancy_at_def tenancy_def lasts_refl)
  then have "tenancy_at (at_store s) ?s1" by (rule tenancy_requests)
  then have "tenancy_at (at_store ?s1) ?s1" by (simp add: tenancy_at_def tenancy_def lasts_refl)
  then have t: "tenancy (at_store ?s1) (at_store ?s2)" using tenancy_requests by (fastforce simp: tenancy_at_def)
  then have sub: "set (vs_users (at_store ?s1)) \<subseteq> set (vs_users (at_store ?s2))" by (auto simp: tenancy_def lasts_def)
  from bearer_row [OF a] sub obtain u where u: "u \<in> set (vs_users (at_store ?s2))" "vu_id u = us_user_id a" "vu_schema u = us_schema a"
    by blast
  from bearer_row [OF a'] obtain u' where u': "u' \<in> set (vs_users (at_store ?s2))" "vu_id u' = us_user_id a'" "vu_schema u' = us_schema a'"
    by blast
  have rows: "tenant_row u" "tenant_row u'" using t u(1) u'(1) by (simp_all add: tenancy_def)
  have i: "inj_on vu_id (set (vs_users (at_store ?s2)))" "inj_on (\<lambda>u. (vu_provider u, vu_subject u)) (set (vs_users (at_store ?s2)))"
    using t by (simp_all add: tenancy_def users_inv_def distinct_map)
  have "vu_id u = vu_id u' \<longleftrightarrow> u = u'" using i(1) u(1) u'(1) by (auto dest: inj_onD)
  moreover have "vu_schema u = vu_schema u' \<longleftrightarrow> u = u'"
    using rows inj_onD [OF i(2) _ u(1) u'(1)] by (auto simp: tenant_row_def)
  ultimately show ?thesis using u u' by simp
qed

definition demo_users :: vstore where
  "demo_users = demo_store\<lparr>vs_users := [\<lparr>vu_id = ''u'', vu_provider = ''google'', vu_subject = ''s'', vu_email = None,
     vu_schema = ''user-s'', vu_created_at = 0\<rparr>]\<rparr>"

definition demo_bearer :: auth_env where
  "demo_bearer = demo_env\<lparr>ae_decode_kid := (\<lambda>_. Some (Some ''k'')),
     ae_decode := (\<lambda>t secret now. Some \<lparr>jc_sub = t, jc_client_id = ''c'', jc_iat = 0, jc_exp = now\<rparr>)\<rparr>"

definition demo_start :: auth where
  "demo_start = demo_boot\<lparr>at_store := demo_users\<rparr>"

section \<open>From the grant to the bearer check\<close>

lemma collect_keys_step:
  assumes "collect_keys un ((k, v) # vars) ks0 = Inr ks"
  obtains (other) "\<not> starts_with k key_variable" "collect_keys un vars ks0 = Inr ks"
  | (key) kid b where "k = key_variable @ kid" "kid \<noteq> []" "un v = Some b \<and> MIN_HS256_KEY_BYTES \<le> length b"
    "collect_keys un vars \<lparr>jk_current = (if kid > jk_current ks0 then kid else jk_current ks0),
       jk_keys = (kid, b) # remove_key kid (jk_keys ks0)\<rparr> = Inr ks"
proof (cases "starts_with k key_variable")
  case True
  then obtain kid where "k = key_variable @ kid" by (auto simp: starts_with_iff)
  with assms show ?thesis by (auto simp: Let_def intro: key)
qed (use assms other in auto)

lemma collect_keys_sound:
  "collect_keys un vars ks0 = Inr ks \<Longrightarrow> map_of (jk_keys ks) kid = Some b \<Longrightarrow>
     map_of (jk_keys ks0) kid = Some b \<or> (\<exists>v. (key_variable @ kid, v) \<in> set vars \<and> un v = Some b \<and> MIN_HS256_KEY_BYTES \<le> length b)"
proof (induction vars arbitrary: ks0)
  case (Cons kv vars)
  obtain k v where kv: "kv = (k, v)" by fastforce
  from Cons.prems(1) [unfolded kv] show ?case
  proof (cases rule: collect_keys_step)
    case other
    then show ?thesis using Cons.IH [of ks0] Cons.prems(2) kv by auto
  next
    case (key kid' b')
    then show ?thesis
      using Cons.IH [OF key(4) Cons.prems(2)] kv by (cases "kid = kid'") (auto simp: map_of_remove_key)
  qed
qed simp

lemma collect_keys_complete:
  "collect_keys un vars ks0 = Inr ks \<Longrightarrow> (key_variable @ kid, v) \<in> set vars \<or> map_of (jk_keys ks0) kid \<noteq> None \<Longrightarrow>
     map_of (jk_keys ks) kid \<noteq> None"
proof (induction vars arbitrary: ks0)
  case (Cons kv vars)
  obtain k w where kv: "kv = (k, w)" by fastforce
  from Cons.prems(1) [unfolded kv] show ?case
  proof (cases rule: collect_keys_step)
    case other
    then show ?thesis using Cons.IH [of ks0] Cons.prems(2) kv by auto
  next
    case (key kid' b)
    then show ?thesis using Cons.IH [OF key(4)] Cons.prems(2) kv by (auto simp: map_of_remove_key)
  qed
qed simp

lemma collect_keys_current:
  "collect_keys un vars ks0 = Inr ks \<Longrightarrow> jk_keys ks0 = [] \<and> jk_current ks0 = [] \<or> map_of (jk_keys ks0) (jk_current ks0) \<noteq> None \<Longrightarrow>
     jk_keys ks = [] \<or> map_of (jk_keys ks) (jk_current ks) \<noteq> None"
proof (induction vars arbitrary: ks0)
  case (Cons kv vars)
  obtain k w where kv: "kv = (k, w)" by fastforce
  from Cons.prems(1) [unfolded kv] show ?case
  proof (cases rule: collect_keys_step)
    case other
    then show ?thesis using Cons.IH Cons.prems(2) by blast
  next
    case (key kid b)
    show ?thesis
      by (rule Cons.IH [OF key(4)]) (use key(2) Cons.prems(2) in \<open>cases kid; auto simp: map_of_remove_key\<close>)
  qed
qed auto

text \<open>Keys added to the environment later do not change the key a token was signed with.\<close>

lemma rotated_key:
  assumes "keys_from_env un vars = Inr ks" "keys_from_env un vars' = Inr ks'" "distinct (map fst vars')" "set vars \<subseteq> set vars'"
  shows "map_of (jk_keys ks) (jk_current ks) \<noteq> None \<and> map_of (jk_keys ks') (jk_current ks) = map_of (jk_keys ks) (jk_current ks)"
proof -
  from assms(1,2) have c: "collect_keys un vars \<lparr>jk_current = [], jk_keys = []\<rparr> = Inr ks" "jk_keys ks \<noteq> []"
    and c': "collect_keys un vars' \<lparr>jk_current = [], jk_keys = []\<rparr> = Inr ks'" by (auto simp: keys_from_env_def)
  from collect_keys_current [OF c(1)] c(2) obtain b where b: "map_of (jk_keys ks) (jk_current ks) = Some b" by auto
  from collect_keys_sound [OF c(1) b] obtain v where v: "(key_variable @ jk_current ks, v) \<in> set vars'" "un v = Some b"
    using assms(4) by auto
  from collect_keys_complete [OF c'] v(1) obtain b' where b': "map_of (jk_keys ks') (jk_current ks) = Some b'" by auto
  from collect_keys_sound [OF c' b'] obtain v' where "(key_variable @ jk_current ks, v') \<in> set vars'" "un v' = Some b'" by auto
  with v assms(3) have "b' = b" by (metis eq_key_imp_eq_value option.inject)
  with b b' show ?thesis by simp
qed

text \<open>What the JWT library documents: the header names the key, and a token verifies with its key until it expires.\<close>

definition jwt_codec :: "auth_env \<Rightarrow> bool" where
  "jwt_codec env \<longleftrightarrow> (\<forall>kid c secret t. ae_encode env kid c secret = Some t \<longrightarrow> ae_decode_kid env t = Some (Some kid)
     \<and> (\<forall>now \<le> jc_exp c. ae_decode env t secret now = Some c))"

text \<open>
  C34. A token issued before a key rotation works after it: a token signed with the newest key of one start of the
  server is accepted by a later start whose environment has more signing keys, until the token expires, and
  the bearer check then yields the user of the token with the schema of its row.
\<close>
theorem token_survives_rotation:
  assumes codec: "jwt_codec env"
    and keys: "keys_from_env un vars = Inr (ae_keys env)" "keys_from_env un vars' = Inr ks'"
    and vars: "distinct (map fst vars')" "set vars \<subseteq> set vars'"
    and issued: "jwt_issue env uid cid ttl now = Inr tok" "as_secs now' \<le> as_secs now + ttl"
    and row: "vs_faults st = []" "find (\<lambda>u. vu_id u = uid) (vs_users st) = Some u"
  shows "fst (require_auth (env\<lparr>ae_keys := ks'\<rparr>) (Some tok) now' st)
    = Inr \<lparr>us_user_id = uid, us_client_id = cid, us_schema = vu_schema u\<rparr>"
proof -
  let ?kid = "jk_current (ae_keys env)" and ?c = "\<lparr>jc_sub = uid, jc_client_id = cid, jc_iat = as_secs now, jc_exp = as_secs now + ttl\<rparr>"
  from issued(1) obtain secret where s: "map_of (jk_keys (ae_keys env)) ?kid = Some secret" "ae_encode env ?kid ?c secret = Some tok"
    by (auto simp: jwt_issue_def Let_def)
  from rotated_key [OF keys vars] s(1) have s': "map_of (jk_keys ks') ?kid = Some secret" by simp
  from codec s(2) have d: "ae_decode_kid env tok = Some (Some ?kid)" "ae_decode env tok secret (as_secs now') = Some ?c"
    using issued(2) by (auto simp: jwt_codec_def)
  have v: "jwt_verify (env\<lparr>ae_keys := ks'\<rparr>) tok now' = Inr ?c" by (simp add: jwt_verify_def d s')
  have f: "vp_find_by_id uid st = (Inr (Some u), st)" using row by (simp add: vp_find_by_id_def vquery_def vstmt_def)
  have "vu_id u = uid" using row(2) by (auto dest: find_SomeD)
  then show ?thesis by (simp add: require_auth_def v f)
qed

definition demo_key :: string where "demo_key = replicate 32 CHR ''k''"

definition demo_signer :: auth_env where
  "demo_signer = demo_env\<lparr>ae_encode := (\<lambda>kid c secret. if kid = ''1'' \<and> c = \<lparr>jc_sub = ''u'', jc_client_id = ''c'', jc_iat = 5, jc_exp = 3605\<rparr>
       then Some ''tok'' else None),
     ae_decode_kid := (\<lambda>_. Some (Some ''1'')),
     ae_decode := (\<lambda>t secret now. if now \<le> 3605 then Some \<lparr>jc_sub = ''u'', jc_client_id = ''c'', jc_iat = 5, jc_exp = 3605\<rparr> else None),
     ae_keys := \<lparr>jk_current = ''1'', jk_keys = [(''1'', demo_key)]\<rparr>\<rparr>"

theorem token_survives_rotation_witness:
  "keys_from_env (\<lambda>_. Some demo_key) [(''JWT_SIGNING_KEY_1'', ''a''), (''JWT_SIGNING_KEY_2'', ''b'')]
      = Inr \<lparr>jk_current = ''2'', jk_keys = [(''2'', demo_key), (''1'', demo_key)]\<rparr>
    \<and> fst (require_auth (demo_signer\<lparr>ae_keys := \<lparr>jk_current = ''2'', jk_keys = [(''2'', demo_key), (''1'', demo_key)]\<rparr>\<rparr>)
        (Some ''tok'') 3600000 demo_users) = Inr \<lparr>us_user_id = ''u'', us_client_id = ''c'', us_schema = ''user-s''\<rparr>"
proof -
  have k: "keys_from_env (\<lambda>_. Some demo_key) [(''JWT_SIGNING_KEY_1'', ''a'')] = Inr (ae_keys demo_signer)"
    by (simp add: keys_from_env_def demo_key_def MIN_HS256_KEY_BYTES_def demo_signer_def starts_with_def key_variable_def Let_def
      remove_key_def)
  have k': "keys_from_env (\<lambda>_. Some demo_key) [(''JWT_SIGNING_KEY_1'', ''a''), (''JWT_SIGNING_KEY_2'', ''b'')]
      = Inr \<lparr>jk_current = ''2'', jk_keys = [(''2'', demo_key), (''1'', demo_key)]\<rparr>"
    by (simp add: keys_from_env_def demo_key_def MIN_HS256_KEY_BYTES_def starts_with_def key_variable_def Let_def
      remove_key_def less_char_def)
  have c: "jwt_codec demo_signer" by (simp add: jwt_codec_def demo_signer_def)
  have i: "jwt_issue demo_signer ''u'' ''c'' 3600 5000 = Inr ''tok''"
    by (simp add: jwt_issue_def demo_signer_def as_secs_def)
  have "fst (require_auth (demo_signer\<lparr>ae_keys := \<lparr>jk_current = ''2'', jk_keys = [(''2'', demo_key), (''1'', demo_key)]\<rparr>\<rparr>)
        (Some ''tok'') 3600000 demo_users) = Inr \<lparr>us_user_id = ''u'', us_client_id = ''c'', us_schema = ''user-s''\<rparr>"
    using token_survives_rotation [OF c k k' _ _ i, of 3600000 demo_users "hd (vs_users demo_users)"]
    by (simp add: demo_users_def demo_store_def as_secs_def)
  with k' show ?thesis by blast
qed

end
