(* ===== verification/Json_Rpc.thy ===== *)
theory Json_Rpc
  imports Json Prelude
begin

text \<open>
  JSON-RPC 2.0 over one HTTP request, a single object or a batch, as \<open>mcp/transport.rs\<close> has it in
  \<open>vegapunk-memory-server\<close> and, with the same text, in \<open>llm-memory-server\<close>. The text of the body is
  parsed by \<open>serde_json\<close> (\<open>None\<close> when that fails); the wording of a
  decoding error and the debug form of a string are parameters.
\<close>

section \<open>Requests and responses\<close>

record wording =
  wo_serde :: "json \<Rightarrow> string"
  wo_debug :: "string \<Rightarrow> string"
  wo_version :: string

definition MCP_PROTOCOL_VERSION :: string where "MCP_PROTOCOL_VERSION = ''2025-03-26''"

record jsonrpc_request =
  jq_jsonrpc :: string
  jq_id :: "json option"
  jq_method :: string
  jq_params :: json

text \<open>
  The derived deserialiser. A field with a default may be missing; \<open>deserialize_optional_id\<close> keeps an
  explicit \<open>null\<close> apart from a missing \<open>id\<close>. A struct is also read from an array of its fields in order.
\<close>

definition de_default :: "jobject \<Rightarrow> string \<Rightarrow> json option option" where
  "de_default m k = (case filter (\<lambda>kv. fst kv = k) m of [] \<Rightarrow> Some None | [kv] \<Rightarrow> Some (Some (snd kv)) | _ \<Rightarrow> None)"

definition de_fields :: "string option \<Rightarrow> json option option \<Rightarrow> string option \<Rightarrow> json option option \<Rightarrow> jsonrpc_request option" where
  "de_fields v i m p = (case (v, i, m, p) of
       (Some v', Some i', Some m', Some p') \<Rightarrow>
         Some \<lparr>jq_jsonrpc = v', jq_id = i', jq_method = m', jq_params = (case p' of None \<Rightarrow> JNull | Some x \<Rightarrow> x)\<rparr>
     | _ \<Rightarrow> None)"

definition de_request :: "json \<Rightarrow> jsonrpc_request option" where
  "de_request v = (case v of
       JObj m \<Rightarrow> de_fields (de_req as_str m ''jsonrpc'') (de_default m ''id'') (de_req as_str m ''method'') (de_default m ''params'')
     | JArr [a, b, c] \<Rightarrow> de_fields (as_str a) (Some (Some b)) (as_str c) (Some None)
     | JArr [a, b, c, d] \<Rightarrow> de_fields (as_str a) (Some (Some b)) (as_str c) (Some (Some d))
     | _ \<Rightarrow> None)"

definition jsonrpc_version_is_valid :: "jsonrpc_request \<Rightarrow> bool" where
  "jsonrpc_version_is_valid r \<longleftrightarrow> jq_jsonrpc r = ''2.0''"

definition id_type_is_valid :: "jsonrpc_request \<Rightarrow> bool" where
  "id_type_is_valid r = (case jq_id r of None \<Rightarrow> True
     | Some v \<Rightarrow> (case v of JStr _ \<Rightarrow> True | JInt _ \<Rightarrow> True | JFloat _ \<Rightarrow> True | JNull \<Rightarrow> True | _ \<Rightarrow> False))"

record jsonrpc_response =
  js_id :: "json option"
  js_result :: "json option"
  js_error :: "(int \<times> string) option"

definition rpc_success :: "json option \<Rightarrow> json \<Rightarrow> jsonrpc_response" where
  "rpc_success i result = \<lparr>js_id = i, js_result = Some result, js_error = None\<rparr>"

definition rpc_error :: "json option \<Rightarrow> int \<Rightarrow> string \<Rightarrow> jsonrpc_response" where
  "rpc_error i code msg = \<lparr>js_id = i, js_result = None, js_error = Some (code, msg)\<rparr>"

definition response_json :: "jsonrpc_response \<Rightarrow> json" where
  "response_json r = JObj ([(''jsonrpc'', JStr ''2.0''), (''id'', json_opt (\<lambda>v. v) (js_id r))]
     @ (case js_result r of None \<Rightarrow> [] | Some v \<Rightarrow> [(''result'', v)])
     @ (case js_error r of None \<Rightarrow> [] | Some (code, msg) \<Rightarrow> [(''error'', JObj [(''code'', JInt code), (''message'', JStr msg)])]))"

datatype outcome = Response jsonrpc_response | Notification | ParseError string

definition into_response_value :: "outcome \<Rightarrow> json option" where
  "into_response_value o' = (case o' of
       Response r \<Rightarrow> Some (response_json r)
     | Notification \<Rightarrow> None
     | ParseError msg \<Rightarrow> Some (response_json (rpc_error None (- 32600) msg)))"

section \<open>One HTTP request\<close>

text \<open>
  What both servers do with a body: the entries go one after the other to the server's \<open>dispatch_one\<close>, which
  may panic. The client gets a JSON body, status 202 without one, or a broken connection after a panic.
\<close>

definition rpc_entry :: "wording \<Rightarrow> (jsonrpc_request \<Rightarrow> ('s, 'p, outcome) act) \<Rightarrow> json \<Rightarrow> ('s, 'p, outcome) act" where
  "rpc_entry wo dispatch entry =
     (case de_request entry of
        None \<Rightarrow> okA (ParseError (''Invalid Request: '' @ wo_serde wo entry))
      | Some req \<Rightarrow>
          if \<not> jsonrpc_version_is_valid req
          then okA (ParseError (''Invalid Request: jsonrpc must be '' @ [CHR 0x22] @ ''2.0'' @ [CHR 0x22] @ '', got ''
                 @ wo_debug wo (jq_jsonrpc req)))
          else if \<not> id_type_is_valid req then okA (ParseError ''Invalid Request: id must be string, number, or null'')
          else dispatch req)"

fun rpc_outcomes :: "wording \<Rightarrow> (jsonrpc_request \<Rightarrow> ('s, 'p, outcome) act) \<Rightarrow> json list \<Rightarrow> ('s, 'p, outcome list) act" where
  "rpc_outcomes wo dispatch [] = okA []"
| "rpc_outcomes wo dispatch (e # es) =
     seqA (rpc_entry wo dispatch e) (\<lambda>o'. seqA (rpc_outcomes wo dispatch es) (\<lambda>os. okA (o' # os)))"

datatype http_answer = HttpJson json | HttpAccepted | HttpBroken

definition rpc_handle :: "wording \<Rightarrow> (jsonrpc_request \<Rightarrow> ('s, 'p, outcome) act) \<Rightarrow> json option \<Rightarrow> 's \<Rightarrow> http_answer \<times> 's" where
  "rpc_handle wo dispatch body w =
     (case body of
        None \<Rightarrow> (HttpJson (response_json (rpc_error None (- 32700) ''Parse error'')), w)
      | Some v \<Rightarrow>
          let is_batch = as_array v \<noteq> None;
              entries = (case as_array v of None \<Rightarrow> [v] | Some es \<Rightarrow> es) in
          if is_batch \<and> entries = []
          then (HttpJson (response_json (rpc_error None (- 32600) ''Invalid Request: empty batch'')), w)
          else (case rpc_outcomes wo dispatch entries w of
             (Inl p, w') \<Rightarrow> (HttpBroken, w')
           | (Inr os, w') \<Rightarrow>
               (let responses = List.map_filter into_response_value os in
                if responses = [] then HttpAccepted
                else if is_batch then HttpJson (JArr responses) else HttpJson (hd responses), w')))"

section \<open>Which entries are answered, and with which id\<close>

definition valid_request :: "json \<Rightarrow> jsonrpc_request option" where
  "valid_request e = (case de_request e of None \<Rightarrow> None
     | Some r \<Rightarrow> if jsonrpc_version_is_valid r \<and> id_type_is_valid r then Some r else None)"

definition is_notification :: "json \<Rightarrow> bool" where
  "is_notification e \<longleftrightarrow> (\<exists>r. valid_request e = Some r \<and> jq_id r = None)"

definition answer_id :: "json \<Rightarrow> json" where
  "answer_id e = (case valid_request e of None \<Rightarrow> JNull | Some r \<Rightarrow> (case jq_id r of None \<Rightarrow> JNull | Some i \<Rightarrow> i))"

text \<open>A well-formed response: the version, the id, and either a result or an error.\<close>

definition answers :: "json \<Rightarrow> json \<Rightarrow> bool" where
  "answers e r \<longleftrightarrow> json_get r ''jsonrpc'' = Some (JStr ''2.0'') \<and> json_get r ''id'' = Some (answer_id e)
     \<and> (json_get r ''result'' = None) \<noteq> (json_get r ''error'' = None)
     \<and> (valid_request e = None \<longrightarrow> json_get r ''error'' \<noteq> None)"

lemma response_json_get:
  "json_get (response_json (rpc_success i v)) ''jsonrpc'' = Some (JStr ''2.0'')"
  "json_get (response_json (rpc_success i v)) ''id'' = Some (json_opt (\<lambda>v. v) i)"
  "json_get (response_json (rpc_success i v)) ''result'' = Some v"
  "json_get (response_json (rpc_success i v)) ''error'' = None"
  "json_get (response_json (rpc_error i c m)) ''jsonrpc'' = Some (JStr ''2.0'')"
  "json_get (response_json (rpc_error i c m)) ''id'' = Some (json_opt (\<lambda>v. v) i)"
  "json_get (response_json (rpc_error i c m)) ''result'' = None"
  "json_get (response_json (rpc_error i c m)) ''error'' = Some (JObj [(''code'', JInt c), (''message'', JStr m)])"
  by (simp_all add: response_json_def rpc_success_def rpc_error_def)

definition well_formed :: "json option \<Rightarrow> jsonrpc_response \<Rightarrow> bool" where
  "well_formed i r \<longleftrightarrow> (\<exists>v. r = rpc_success i v) \<or> (\<exists>c m. r = rpc_error i c m)"

lemma well_formed_success [simp]: "well_formed i (rpc_success i v)"
  by (auto simp: well_formed_def)

lemma well_formed_error [simp]: "well_formed i (rpc_error i c m)"
  by (auto simp: well_formed_def)

section \<open>The contract of a dispatcher\<close>

text \<open>
  What a server promises of one request: without an id it is not answered, with one it gets a
  well-formed answer with that id. The transport then answers every body entry by entry.
\<close>

locale dispatcher =
  fixes dispatch :: "jsonrpc_request \<Rightarrow> ('s, 'p, outcome) act"
  assumes silent: "dispatch req s = (Inr out, s') \<Longrightarrow> jq_id req = None \<Longrightarrow> out = Notification"
    and answered: "dispatch req s = (Inr out, s') \<Longrightarrow> jq_id req = Some i \<Longrightarrow> \<exists>r. out = Response r \<and> well_formed (Some i) r"
begin

lemma entry_answers:
  assumes "rpc_entry wo dispatch e s = (Inr out, s')"
  shows "(into_response_value out = None \<longleftrightarrow> is_notification e) \<and> (\<forall>r. into_response_value out = Some r \<longrightarrow> answers e r)"
proof (cases "valid_request e")
  case None
  with assms obtain msg where "out = ParseError msg"
    by (auto simp: rpc_entry_def valid_request_def split: option.splits if_splits)
  with None show ?thesis
    by (auto simp: into_response_value_def is_notification_def answers_def answer_id_def response_json_get json_opt_def)
next
  case (Some req)
  then have d: "dispatch req s = (Inr out, s')"
    using assms by (auto simp: rpc_entry_def valid_request_def split: option.splits if_splits)
  show ?thesis
  proof (cases "jq_id req")
    case None
    with Some silent [OF d] show ?thesis by (simp add: into_response_value_def is_notification_def)
  next
    case (Some i)
    from answered [OF d Some] obtain resp where "out = Response resp" "well_formed (Some i) resp" by blast
    with Some \<open>valid_request e = Some req\<close> show ?thesis
      by (auto simp: into_response_value_def is_notification_def answers_def answer_id_def well_formed_def
          response_json_get json_opt_def)
  qed
qed

lemma outcomes_answer:
  "rpc_outcomes wo dispatch es s = (Inr os, s') \<Longrightarrow>
     list_all2 answers (filter (\<lambda>e. \<not> is_notification e) es) (List.map_filter into_response_value os)"
proof (induction es arbitrary: os s)
  case Nil
  then show ?case by (simp add: List.map_filter_simps)
next
  case (Cons e es)
  then obtain out s1 os' where o: "rpc_entry wo dispatch e s = (Inr out, s1)"
    "rpc_outcomes wo dispatch es s1 = (Inr os', s')" "os = out # os'"
    by (auto simp: seqA_Inr_iff)
  from Cons.IH [OF o(2)] entry_answers [OF o(1)] o(3) show ?case
    by (cases "into_response_value out") (simp_all add: List.map_filter_simps)
qed

lemma handle_answers:
  assumes "rpc_outcomes wo dispatch es s = (Inr os, s')" "es = (case as_array v of None \<Rightarrow> [v] | Some xs \<Rightarrow> xs)" "es \<noteq> []"
  shows "\<exists>rs. list_all2 answers (filter (\<lambda>e. \<not> is_notification e) es) rs
    \<and> rpc_handle wo dispatch (Some v) s =
        ((if rs = [] then HttpAccepted else if as_array v \<noteq> None then HttpJson (JArr rs) else HttpJson (hd rs)), s')"
  using outcomes_answer [OF assms(1)] assms
  by (intro exI [of _ "List.map_filter into_response_value os"]) (auto simp: rpc_handle_def Let_def split: option.splits)

end

section \<open>Invariants and totality over a body\<close>

lemma rpc_entry_total:
  "(\<And>req. de_request e = Some req \<Longrightarrow> \<exists>out s'. dispatch req s = (Inr out, s')) \<Longrightarrow> \<exists>out s'. rpc_entry wo dispatch e s = (Inr out, s')"
  by (cases "de_request e") (simp_all add: rpc_entry_def)

lemma rpc_outcomes_total:
  assumes "\<And>e req s. e \<in> set es \<Longrightarrow> de_request e = Some req \<Longrightarrow> \<exists>out s'. dispatch req s = (Inr out, s')"
  shows "\<exists>os s'. rpc_outcomes wo dispatch es s = (Inr os, s')"
  using assms
proof (induction es arbitrary: s)
  case (Cons e es)
  have "\<exists>out s1. rpc_entry wo dispatch e s = (Inr out, s1)" by (rule rpc_entry_total) (rule Cons.prems, simp_all)
  then obtain out s1 where "rpc_entry wo dispatch e s = (Inr out, s1)" by blast
  moreover obtain os s' where "rpc_outcomes wo dispatch es s1 = (Inr os, s')"
    using Cons.IH [of s1] Cons.prems by (meson list.set_intros(2))
  ultimately show ?case by simp
qed simp

lemma keeps_rpc_entry: "(\<And>req. keeps I (dispatch req)) \<Longrightarrow> keeps I (rpc_entry wo dispatch e)"
  by (auto simp: rpc_entry_def split: option.splits)

lemma keeps_rpc_outcomes: "(\<And>req. keeps I (dispatch req)) \<Longrightarrow> keeps I (rpc_outcomes wo dispatch es)"
  by (induction es) (auto intro!: keeps_seqA keeps_rpc_entry)

lemma keeps_rpc_handle:
  assumes "\<And>req. keeps I (dispatch req)"
  shows "keeps I (rpc_handle wo dispatch body)"
  unfolding keeps_def
proof (intro allI impI)
  fix s assume s: "I s"
  have k: "I (snd (rpc_outcomes wo dispatch es s))" for es
    using keeps_rpc_outcomes [of I dispatch wo es, OF assms] s by (simp add: keeps_def)
  show "I (snd (rpc_handle wo dispatch body s))"
    using k s by (auto simp: rpc_handle_def Let_def split_beta simp del: rpc_outcomes.simps split: option.splits sum.splits)
qed

end
