(* ===== verification/Vp_Contract.thy ===== *)
theory Vp_Contract
  imports Vp_Request
begin

text \<open>
  The input schemas of \<open>tools/list\<close> (\<open>tools/mod.rs\<close>) and their agreement with the argument checks
  of the handlers. A schema is a datatype of the JSON Schema keywords the code uses (type,
  minLength with the pattern for a non-blank character, enum, minimum, maximum, default, minItems,
  items, properties, required), with its rendering to JSON; the description texts are left out.
\<close>

datatype jschema =
    SStr bool
  | SEnum "string list" "string option"
  | SInt "int option" "int option" "int option"
  | SArr bool jschema
  | SObj "(string \<times> jschema) list" "string list"

fun schema_json :: "jschema \<Rightarrow> json" where
  "schema_json (SStr b) = JObj ((''type'', JStr ''string'')
     # (if b then [(''minLength'', JInt 1), (''pattern'', JStr [CHR 0x5C, CHR ''S''])] else []))"
| "schema_json (SEnum vs d) = JObj ((''type'', JStr ''string'') # (''enum'', JArr (map JStr vs))
     # (case d of None \<Rightarrow> [] | Some x \<Rightarrow> [(''default'', JStr x)]))"
| "schema_json (SInt mn mx d) = JObj ((''type'', JStr ''integer'')
     # (case mn of None \<Rightarrow> [] | Some x \<Rightarrow> [(''minimum'', JInt x)])
     @ (case mx of None \<Rightarrow> [] | Some x \<Rightarrow> [(''maximum'', JInt x)])
     @ (case d of None \<Rightarrow> [] | Some x \<Rightarrow> [(''default'', JInt x)]))"
| "schema_json (SArr b s) = JObj ((''type'', JStr ''array'') # (if b then [(''minItems'', JInt 1)] else [])
     @ [(''items'', schema_json s)])"
| "schema_json (SObj ps req) = JObj ([(''type'', JStr ''object''),
       (''properties'', JObj (map (\<lambda>(k, s). (k, schema_json s)) ps))]
     @ (if req = [] then [] else [(''required'', JArr (map JStr req))]))"

text \<open>
  JSON Schema's meaning of these keywords. The pattern is matched as ECMA 262 does: a character that is neither
  white space nor a line terminator there, which is not Rust's notion (U+0085 is white space only in Rust, U+FEFF
  only in ECMA 262). An integer is any number without a fractional part, however it is written.
\<close>

definition ecma_space :: "rchar \<Rightarrow> bool" where
  "ecma_space c \<longleftrightarrow> (let v = map (of_char :: char \<Rightarrow> nat) c in
     (\<exists>b\<in>{9..13}. v = [b]) \<or> v = [32] \<or> v = [194, 160] \<or> v = [239, 187, 191]
     \<or> v = [225, 154, 128] \<or> (\<exists>b\<in>{128..138}. v = [226, 128, b])
     \<or> v = [226, 128, 168] \<or> v = [226, 128, 169] \<or> v = [226, 128, 175]
     \<or> v = [226, 129, 159] \<or> v = [227, 128, 128])"

definition next_line :: rchar where "next_line = map char_of [194, 133 :: nat]"

text \<open>The integer a 64-bit float stands for, by its sign, exponent and mantissa bits.\<close>

definition float_integer :: "nat \<Rightarrow> int option" where
  "float_integer b = (let e = b div 2 ^ 52 mod 2 ^ 11; f = b mod 2 ^ 52;
       m = (if e = 0 then f else 2 ^ 52 + f); d = 1075 - max e 1;
       n = (if e = 2047 then None else if 1075 \<le> e then Some (m * 2 ^ (e - 1075))
            else if m mod 2 ^ d = 0 then Some (m div 2 ^ d) else None)
     in map_option (\<lambda>k. if b div 2 ^ 63 mod 2 = 1 then - int k else int k) n)"

definition schema_integer :: "json \<Rightarrow> int option" where
  "schema_integer v = (case v of JInt n \<Rightarrow> Some n | JFloat b \<Rightarrow> float_integer b | _ \<Rightarrow> None)"

fun validates :: "jschema \<Rightarrow> json \<Rightarrow> bool" where
  "validates (SStr b) v = (case v of JStr s \<Rightarrow> b \<longrightarrow> s \<noteq> [] \<and> (\<exists>c \<in> set (chars s). \<not> ecma_space c) | _ \<Rightarrow> False)"
| "validates (SEnum vs d) v = (case v of JStr s \<Rightarrow> s \<in> set vs | _ \<Rightarrow> False)"
| "validates (SInt mn mx d) v = (case schema_integer v of None \<Rightarrow> False | Some n \<Rightarrow>
     (case mn of None \<Rightarrow> True | Some x \<Rightarrow> x \<le> n) \<and> (case mx of None \<Rightarrow> True | Some x \<Rightarrow> n \<le> x))"
| "validates (SArr b s) v = (case v of JArr xs \<Rightarrow> (b \<longrightarrow> xs \<noteq> []) \<and> (\<forall>x \<in> set xs. validates s x) | _ \<Rightarrow> False)"
| "validates (SObj ps req) v = (case v of JObj m \<Rightarrow>
     (\<forall>k \<in> set req. obj_get m k \<noteq> None)
     \<and> (\<forall>p \<in> set ps. case obj_get m (fst p) of None \<Rightarrow> True | Some x \<Rightarrow> validates (snd p) x) | _ \<Rightarrow> False)"

text \<open>
  The three ways in which a value that validates is read otherwise by the handlers: a text whose only characters
  that ECMA 262 does not take for white space are U+0085, an integer that is written with a fraction or an exponent,
  an integer without an advertised maximum that does not fit 32 bits. \<open>read_alike\<close> says that none of them occurs.
\<close>

fun read_alike :: "jschema \<Rightarrow> json \<Rightarrow> bool" where
  "read_alike (SStr b) v = (case v of JStr s \<Rightarrow> b \<longrightarrow> (\<exists>c \<in> set (chars s). \<not> ecma_space c \<and> c \<noteq> next_line) | _ \<Rightarrow> True)"
| "read_alike (SEnum vs d) v = True"
| "read_alike (SInt mn mx d) v = (case v of JFloat b \<Rightarrow> False | JInt n \<Rightarrow> mx = None \<longrightarrow> n \<le> i32_max | _ \<Rightarrow> True)"
| "read_alike (SArr b s) v = (case v of JArr xs \<Rightarrow> \<forall>x \<in> set xs. read_alike s x | _ \<Rightarrow> True)"
| "read_alike (SObj ps req) v = (case v of JObj m \<Rightarrow>
     (\<forall>p \<in> set ps. case obj_get m (fst p) of None \<Rightarrow> True | Some x \<Rightarrow> read_alike (snd p) x) | _ \<Rightarrow> True)"

text \<open>What the handlers make of such a value: texts are not blank, integers are written as such and fit.\<close>

fun readable :: "jschema \<Rightarrow> json \<Rightarrow> bool" where
  "readable (SStr b) v = (case v of JStr s \<Rightarrow> b \<longrightarrow> \<not> blank s | _ \<Rightarrow> False)"
| "readable (SEnum vs d) v = (case v of JStr s \<Rightarrow> s \<in> set vs | _ \<Rightarrow> False)"
| "readable (SInt mn mx d) v = (case v of JInt n \<Rightarrow>
     (case mn of None \<Rightarrow> True | Some x \<Rightarrow> x \<le> n) \<and> n \<le> (case mx of None \<Rightarrow> i32_max | Some x \<Rightarrow> x) | _ \<Rightarrow> False)"
| "readable (SArr b s) v = (case v of JArr xs \<Rightarrow> (b \<longrightarrow> xs \<noteq> []) \<and> (\<forall>x \<in> set xs. readable s x) | _ \<Rightarrow> False)"
| "readable (SObj ps req) v = (case v of JObj m \<Rightarrow>
     (\<forall>k \<in> set req. obj_get m k \<noteq> None)
     \<and> (\<forall>p \<in> set ps. case obj_get m (fst p) of None \<Rightarrow> True | Some x \<Rightarrow> readable (snd p) x) | _ \<Rightarrow> False)"

lemma whitespace_ecma: "is_whitespace c \<Longrightarrow> ecma_space c \<or> c = next_line"
proof -
  have "c = next_line" if "map (of_char :: char \<Rightarrow> nat) c = [194, 133]"
  proof -
    from that have "map char_of (map (of_char :: char \<Rightarrow> nat) c) = next_line" by (simp add: next_line_def)
    then show ?thesis by (simp add: o_def)
  qed
  then show "is_whitespace c \<Longrightarrow> ecma_space c \<or> c = next_line"
    by (auto simp: is_whitespace_def ecma_space_def Let_def)
qed

lemma validates_readable: "validates s v \<Longrightarrow> read_alike s v \<Longrightarrow> readable s v"
proof (induction s v rule: validates.induct)
  case (1 b v)
  then show ?case using whitespace_ecma by (auto simp: blank_iff split: json.splits)
next
  case (5 ps req v)
  then show ?case by (auto split: json.splits option.splits)
qed (auto simp: schema_integer_def split: json.splits option.splits)

definition filters_schema :: jschema where
  "filters_schema = SArr False (SObj [(''key'', SStr True), (''op'', SEnum ATTRIBUTE_FILTER_VALID_OPS None),
     (''value'', SStr False)] [''key'', ''op'', ''value''])"

definition message_schema :: jschema where
  "message_schema = SObj [(''id'', SStr False), (''text'', SStr True),
     (''metadata'', SObj [(''source_type'', SStr True), (''author'', SStr True), (''author_id'', SStr False),
        (''channel'', SStr True), (''channel_id'', SStr False), (''thread_id'', SStr False), (''timestamp'', SStr True)]
        [''source_type'', ''author'', ''channel'', ''timestamp''])] [''text'', ''metadata'']"

definition input_schema :: "string \<Rightarrow> jschema" where
  "input_schema name =
     (if name = ''search'' then
        SObj [(''query'', SStr True), (''mode'', SEnum SEARCH_VALID_MODES (Some SEARCH_MODE_DEFAULT)),
          (''limit'', SInt (Some SEARCH_LIMIT_MIN) (Some SEARCH_LIMIT_MAX) (Some SEARCH_LIMIT_DEFAULT))] [''query'']
      else if name = ''ingest'' then SObj [(''messages'', SArr True message_schema)] [''messages'']
      else if name = ''ingest_raw'' then
        SObj [(''text'', SStr True),
          (''metadata'', SObj [(''source_type'', SStr True), (''author'', SStr False), (''channel'', SStr False),
             (''timestamp'', SStr True)] [''source_type''])] [''text'', ''metadata'']
      else if name = ''query_nodes'' then
        SObj [(''node_type'', SStr True), (''filters'', filters_schema), (''sort_by'', SStr True),
          (''sort_order'', SEnum QUERY_NODES_VALID_SORT_ORDERS (Some QUERY_NODES_SORT_ORDER_DEFAULT)),
          (''limit'', SInt (Some QUERY_NODES_LIMIT_MIN) (Some QUERY_NODES_LIMIT_MAX) (Some QUERY_NODES_LIMIT_DEFAULT)),
          (''offset'', SInt (Some 0) None (Some 0))] [''node_type'']
      else if name = ''stats'' then SObj [(''node_type'', SStr True), (''filters'', filters_schema)] []
      else if name = ''get_traceable_chain'' then
        SObj [(''node_id'', SStr True), (''max_depth'', SInt (Some TRACEABLE_CHAIN_MAX_DEPTH_MIN)
          (Some TRACEABLE_CHAIN_MAX_DEPTH_MAX) (Some TRACEABLE_CHAIN_MAX_DEPTH_DEFAULT))] [''node_id'']
      else if name = ''feedback'' then
        SObj [(''search_id'', SStr True), (''rating'', SInt (Some 1) (Some 5) None), (''comment'', SStr False)]
          [''search_id'', ''rating'']
      else if name = ''get_job_status'' then SObj [(''msg_id'', SStr True)] [''msg_id'']
      else SObj [] [])"

definition tool_descriptor :: "string \<Rightarrow> json" where
  "tool_descriptor name = JObj [(''name'', JStr name), (''inputSchema'', schema_json (input_schema name))]"

definition tools_list :: json where
  "tools_list = JObj [(''tools'', JArr (map tool_descriptor TOOL_NAMES))]"

text \<open>Whether a call's arguments pass the checks of its handler.\<close>

definition args_accepted :: "string \<Rightarrow> string \<Rightarrow> json \<Rightarrow> bool" where
  "args_accepted user_schema name args =
     (if name = ''search'' then is_ok (build_search_request user_schema args)
      else if name = ''ingest'' then is_ok (build_ingest_request user_schema args)
      else if name = ''ingest_raw'' then is_ok (build_ingest_raw_request user_schema args)
      else if name = ''query_nodes'' then is_ok (build_query_nodes_request user_schema args)
      else if name = ''stats'' then is_ok (build_get_stats_request user_schema args)
      else if name = ''get_traceable_chain'' then is_ok (build_get_traceable_chain_request user_schema args)
      else if name = ''feedback'' then is_ok (feedback_args args)
      else if name = ''get_job_status'' then is_ok (job_status_args args)
      else True)"

section \<open>Fields that validate are read\<close>

text \<open>What a valid object says of one property.\<close>

definition field_ok :: "jobject \<Rightarrow> string \<Rightarrow> jschema \<Rightarrow> bool" where
  "field_ok m k s \<longleftrightarrow> (\<forall>x. obj_get m k = Some x \<longrightarrow> readable s x)"

definition present :: "jobject \<Rightarrow> string \<Rightarrow> bool" where
  "present m k \<longleftrightarrow> obj_get m k \<noteq> None"

lemma readable_obj:
  assumes "readable (SObj ps req) v"
  obtains m where "v = JObj m" "\<forall>k \<in> set req. present m k" "\<forall>p \<in> set ps. field_ok m (fst p) (snd p)"
  using assms by (cases v) (auto simp: present_def field_ok_def split: option.splits)

lemma readable_arr:
  assumes "readable (SArr b s) v"
  obtains xs where "v = JArr xs" "b \<longrightarrow> xs \<noteq> []" "\<forall>x \<in> set xs. readable s x"
  using assms by (cases v) auto

lemma readable_str: "readable (SStr b) v \<longleftrightarrow> (\<exists>s. v = JStr s \<and> (b \<longrightarrow> \<not> blank s))"
  by (cases v) auto

lemma readable_enum: "readable (SEnum vs d) v \<longleftrightarrow> (\<exists>s. v = JStr s \<and> s \<in> set vs)"
  by (cases v) auto

lemma readable_int: "readable (SInt mn mx d) v \<longleftrightarrow> (\<exists>n. v = JInt n \<and> (\<forall>x. mn = Some x \<longrightarrow> x \<le> n)
     \<and> n \<le> (case mx of None \<Rightarrow> i32_max | Some x \<Rightarrow> x))"
  by (cases v) (auto split: option.splits)

declare readable.simps [simp del]

lemma present_str:
  "present m k \<Longrightarrow> field_ok m k (SStr True) \<Longrightarrow>
     \<exists>s. obj_get m k = Some (JStr s) \<and> trim s \<noteq> []"
  by (cases "obj_get m k") (auto simp: present_def field_ok_def readable_str blank_def)

lemma require_ok:
  "present m k \<Longrightarrow> field_ok m k (SStr True) \<Longrightarrow> is_ok (require_str_field m k ow)"
  by (drule (1) present_str) (auto simp: require_str_field_def Let_def)

lemma optional_ok: "field_ok m k (SStr b) \<Longrightarrow> is_ok (optional_str_field m k ow)"
  by (cases "obj_get m k") (auto simp: optional_str_field_def Let_def field_ok_def readable_str)

lemma enum_ok: "field_ok m k (SEnum vs e) \<Longrightarrow> d \<in> set vs \<Longrightarrow> is_ok (enum_field m k vs d ow)"
  by (cases "obj_get m k") (auto simp: enum_field_def field_ok_def readable_enum)

lemma bounded_ok:
  assumes "field_ok m k (SInt (Some mn) (Some mx) e)" "i64_min \<le> mn" "mx \<le> i64_max"
  shows "is_ok (optional_bounded_i32 m k mn mx d ow)"
proof (cases "obj_get m k")
  case (Some v)
  with assms(1) obtain n where "v = JInt n" "mn \<le> n" "n \<le> mx" by (auto simp: field_ok_def readable_int)
  then have "as_i64 v = Some n" using assms(2,3) by (simp add: as_i64_Some)
  with \<open>v = JInt n\<close> \<open>mn \<le> n\<close> \<open>n \<le> mx\<close> Some show ?thesis by (simp add: optional_bounded_i32_def)
qed (simp add: optional_bounded_i32_def)

section \<open>One lemma per tool\<close>

lemma search_accepts:
  assumes "readable (input_schema ''search'') v"
  shows "is_ok (build_search_request u v)"
proof -
  from assms(1) [unfolded input_schema_def, simplified] obtain m where v: "v = JObj m"
    and f: "present m ''query''" "field_ok m ''query'' (SStr True)"
      "field_ok m ''mode'' (SEnum SEARCH_VALID_MODES (Some SEARCH_MODE_DEFAULT))"
      "field_ok m ''limit'' (SInt (Some SEARCH_LIMIT_MIN) (Some SEARCH_LIMIT_MAX) (Some SEARCH_LIMIT_DEFAULT))"
    by (rule readable_obj) simp
  from present_str [OF f(1,2)] obtain s where s: "obj_get m ''query'' = Some (JStr s)" "trim s \<noteq> []"
    by blast
  have "is_ok (enum_field m ''mode'' SEARCH_VALID_MODES SEARCH_MODE_DEFAULT ''arguments'')"
    by (rule enum_ok [OF f(3)]) (simp add: contract_defs)
  moreover have
    "is_ok (optional_bounded_i32 m ''limit'' SEARCH_LIMIT_MIN SEARCH_LIMIT_MAX (Some SEARCH_LIMIT_DEFAULT) ''arguments'')"
    by (rule bounded_ok [OF f(4)]) (simp_all add: contract_defs i64_min_def i64_max_def)
  ultimately show ?thesis
    using v s by (simp add: is_ok_bindE build_search_request_def require_object_args_def)
qed

lemma raw_accepts:
  assumes "readable (input_schema ''ingest_raw'') v"
  shows "is_ok (build_ingest_raw_request u v)"
proof -
  from assms(1) [unfolded input_schema_def, simplified] obtain m where v: "v = JObj m"
    and f: "present m ''text''" "present m ''metadata''" "field_ok m ''text'' (SStr True)"
      "field_ok m ''metadata'' (SObj [(''source_type'', SStr True), (''author'', SStr False), (''channel'', SStr False),
             (''timestamp'', SStr True)] [''source_type''])"
    by (rule readable_obj) simp
  from f(2,4) obtain mv where mv: "obj_get m ''metadata'' = Some mv"
    "readable (SObj [(''source_type'', SStr True), (''author'', SStr False), (''channel'', SStr False),
             (''timestamp'', SStr True)] [''source_type'']) mv"
    by (auto simp: present_def field_ok_def)
  from mv(2) obtain md where md: "mv = JObj md"
    and g: "present md ''source_type''" "field_ok md ''source_type'' (SStr True)" "field_ok md ''author'' (SStr False)"
      "field_ok md ''channel'' (SStr False)" "field_ok md ''timestamp'' (SStr True)"
    by (rule readable_obj) simp
  from require_ok [OF f(1,3)] require_ok [OF g(1,2)] optional_ok [OF g(3)] optional_ok [OF g(4)]
    optional_ok [OF g(5)] v mv(1) md
  show ?thesis by (simp add: is_ok_bindE build_ingest_raw_request_def require_object_args_def)
qed

lemma message_accepts:
  assumes "readable message_schema v"
  shows "is_ok (build_ingest_message (i, v))"
proof -
  let ?ms = "SObj [(''source_type'', SStr True), (''author'', SStr True), (''author_id'', SStr False),
        (''channel'', SStr True), (''channel_id'', SStr False), (''thread_id'', SStr False), (''timestamp'', SStr True)]
        [''source_type'', ''author'', ''channel'', ''timestamp'']"
  from assms(1) [unfolded message_schema_def] obtain m where v: "v = JObj m"
    and f: "present m ''text''" "present m ''metadata''" "field_ok m ''id'' (SStr False)"
      "field_ok m ''text'' (SStr True)" "field_ok m ''metadata'' ?ms"
    by (rule readable_obj) simp
  from f(2,5) obtain mv where mv: "obj_get m ''metadata'' = Some mv" "readable ?ms mv"
    by (auto simp: present_def field_ok_def)
  from mv(2) obtain md where md: "mv = JObj md"
    and p: "present md ''source_type''" "present md ''author''" "present md ''channel''" "present md ''timestamp''"
    and g: "field_ok md ''source_type'' (SStr True)" "field_ok md ''author'' (SStr True)"
      "field_ok md ''channel'' (SStr True)" "field_ok md ''timestamp'' (SStr True)"
    and h: "field_ok md ''author_id'' (SStr False)" "field_ok md ''channel_id'' (SStr False)"
      "field_ok md ''thread_id'' (SStr False)"
    by (rule readable_obj) simp
  from require_ok [OF f(1,4)] optional_ok [OF f(3)] require_ok [OF p(1) g(1)]
    require_ok [OF p(2) g(2)] require_ok [OF p(3) g(3)] require_ok [OF p(4) g(4)]
    optional_ok [OF h(1)] optional_ok [OF h(2)] optional_ok [OF h(3)] v mv(1) md
  show ?thesis by (simp add: is_ok_bindE build_ingest_message_def Let_def)
qed

lemma ingest_accepts:
  assumes "readable (input_schema ''ingest'') v"
  shows "is_ok (build_ingest_request u v)"
proof -
  from assms(1) [unfolded input_schema_def, simplified] obtain m where v: "v = JObj m"
    and f: "present m ''messages''" "field_ok m ''messages'' (SArr True message_schema)"
    by (rule readable_obj) simp
  from f obtain mv where mv: "obj_get m ''messages'' = Some mv" "readable (SArr True message_schema) mv"
    by (auto simp: present_def field_ok_def)
  from mv(2) obtain xs where xs: "mv = JArr xs" "xs \<noteq> []" "\<forall>x \<in> set xs. readable message_schema x"
    by (rule readable_arr) simp
  have "is_ok (mapME build_ingest_message (List.enumerate 0 xs))"
  proof (rule mapME_total)
    fix ix assume "ix \<in> set (List.enumerate 0 xs)"
    then have "snd ix \<in> set xs" by (rule enumerate_snd)
    with xs(3) message_accepts [of "snd ix" "fst ix"] show "is_ok (build_ingest_message ix)"
      by simp
  qed
  with v mv(1) xs show ?thesis by (simp add: is_ok_bindE build_ingest_request_def require_object_args_def)
qed

lemma filter_op_clean: "s \<in> set ATTRIBUTE_FILTER_VALID_OPS \<Longrightarrow> trim s = s \<and> s \<noteq> []"
  unfolding ATTRIBUTE_FILTER_VALID_OPS_def
  by (simp, elim disjE; simp add: trim_def is_whitespace_def is_cont_def)

lemma filter_accepts:
  assumes "readable (SObj [(''key'', SStr True), (''op'', SEnum ATTRIBUTE_FILTER_VALID_OPS None),
     (''value'', SStr False)] [''key'', ''op'', ''value'']) v"
  shows "is_ok (build_attribute_filter v ow)"
proof -
  from assms(1) obtain m where v: "v = JObj m" and p: "present m ''key''" "present m ''op''" "present m ''value''"
    and f: "field_ok m ''key'' (SStr True)" "field_ok m ''op'' (SEnum ATTRIBUTE_FILTER_VALID_OPS None)"
      "field_ok m ''value'' (SStr False)"
    by (rule readable_obj) simp
  from p(2) f(2) obtain op where op: "obj_get m ''op'' = Some (JStr op)" "op \<in> set ATTRIBUTE_FILTER_VALID_OPS"
    by (auto simp: present_def field_ok_def readable_enum)
  then have "require_str_field m ''op'' ow = Inr op"
    using filter_op_clean [OF op(2)] by (simp add: require_str_field_def)
  moreover from p(3) f(3) obtain w where "obj_get m ''value'' = Some (JStr w)"
    by (auto simp: present_def field_ok_def readable_str)
  ultimately show ?thesis
    using require_ok [OF p(1) f(1)] v op by (simp add: is_ok_bindE build_attribute_filter_def)
qed

lemma filters_accept:
  assumes "field_ok m ''filters'' filters_schema"
  shows "is_ok (build_attribute_filters_from m ow)"
proof (cases "obj_get m ''filters''")
  case (Some x)
  with assms(1) have "readable filters_schema x" by (simp add: field_ok_def)
  then obtain xs where xs: "x = JArr xs" "\<forall>y \<in> set xs. readable (SObj [(''key'', SStr True),
     (''op'', SEnum ATTRIBUTE_FILTER_VALID_OPS None), (''value'', SStr False)] [''key'', ''op'', ''value'']) y"
    unfolding filters_schema_def by (rule readable_arr)
  have "is_ok (mapME (\<lambda>(i, f). build_attribute_filter f (indexed (ow @ ''.filters'') i)) (List.enumerate 0 xs))"
  proof (rule mapME_total)
    fix ix assume "ix \<in> set (List.enumerate 0 xs)"
    then have "snd ix \<in> set xs" by (rule enumerate_snd)
    with xs(2) filter_accepts [of "snd ix"]
    show "is_ok (case ix of (i, f) \<Rightarrow> build_attribute_filter f (indexed (ow @ ''.filters'') i))"
      by (simp add: case_prod_beta)
  qed
  with Some xs show ?thesis by (simp add: is_ok_bindE build_attribute_filters_from_def)
qed (simp add: build_attribute_filters_from_def)

lemma query_nodes_accepts:
  assumes "readable (input_schema ''query_nodes'') v"
  shows "is_ok (build_query_nodes_request u v)"
proof -
  from assms(1) [unfolded input_schema_def, simplified] obtain m where v: "v = JObj m"
    and p: "present m ''node_type''" "field_ok m ''node_type'' (SStr True)"
    and f: "field_ok m ''filters'' filters_schema" "field_ok m ''sort_by'' (SStr True)"
      "field_ok m ''sort_order'' (SEnum QUERY_NODES_VALID_SORT_ORDERS (Some QUERY_NODES_SORT_ORDER_DEFAULT))"
      "field_ok m ''limit'' (SInt (Some QUERY_NODES_LIMIT_MIN) (Some QUERY_NODES_LIMIT_MAX) (Some QUERY_NODES_LIMIT_DEFAULT))"
      "field_ok m ''offset'' (SInt (Some 0) None (Some 0))"
    by (rule readable_obj) simp
  from f(5) have "field_ok m ''offset'' (SInt (Some 0) (Some i32_max) (Some 0))"
    by (auto simp: field_ok_def readable_int)
  from bounded_ok [OF this] have o: "is_ok (optional_bounded_i32 m ''offset'' 0 i32_max (Some 0) ''arguments'')"
    by (simp add: i64_min_def i64_max_def i32_max_def)
  from bounded_ok [OF f(4)] have l: "is_ok (optional_bounded_i32 m ''limit'' QUERY_NODES_LIMIT_MIN QUERY_NODES_LIMIT_MAX
      (Some QUERY_NODES_LIMIT_DEFAULT) ''arguments'')"
    by (simp add: i64_min_def i64_max_def contract_defs)
  from enum_ok [OF f(3)] have s: "is_ok (enum_field m ''sort_order'' QUERY_NODES_VALID_SORT_ORDERS
      QUERY_NODES_SORT_ORDER_DEFAULT ''arguments'')"
    by (simp add: contract_defs)
  from require_ok [OF p] filters_accept [OF f(1)] optional_ok [OF f(2)] s l o v
  show ?thesis by (simp add: is_ok_bindE build_query_nodes_request_def require_object_args_def)
qed

lemma stats_accepts:
  assumes "readable (input_schema ''stats'') v"
  shows "is_ok (build_get_stats_request u v)"
proof -
  from assms(1) [unfolded input_schema_def, simplified] obtain m where v: "v = JObj m"
    and f: "field_ok m ''node_type'' (SStr True)" "field_ok m ''filters'' filters_schema"
    by (rule readable_obj) simp
  from optional_ok [OF f(1)] filters_accept [OF f(2)] v
  show ?thesis by (simp add: is_ok_bindE build_get_stats_request_def require_object_args_def)
qed

lemma chain_accepts:
  assumes "readable (input_schema ''get_traceable_chain'') v"
  shows "is_ok (build_get_traceable_chain_request u v)"
proof -
  from assms(1) [unfolded input_schema_def, simplified] obtain m where v: "v = JObj m"
    and p: "present m ''node_id''" "field_ok m ''node_id'' (SStr True)"
    and f: "field_ok m ''max_depth'' (SInt (Some TRACEABLE_CHAIN_MAX_DEPTH_MIN)
          (Some TRACEABLE_CHAIN_MAX_DEPTH_MAX) (Some TRACEABLE_CHAIN_MAX_DEPTH_DEFAULT))"
    by (rule readable_obj) simp
  from bounded_ok [OF f] have "is_ok (optional_bounded_i32 m ''max_depth'' TRACEABLE_CHAIN_MAX_DEPTH_MIN
      TRACEABLE_CHAIN_MAX_DEPTH_MAX (Some TRACEABLE_CHAIN_MAX_DEPTH_DEFAULT) ''arguments'')"
    by (simp add: i64_min_def i64_max_def contract_defs)
  with require_ok [OF p] v
  show ?thesis by (simp add: is_ok_bindE build_get_traceable_chain_request_def require_object_args_def)
qed

lemma feedback_accepts:
  assumes "readable (input_schema ''feedback'') v"
  shows "is_ok (feedback_args v)"
proof -
  from assms(1) [unfolded input_schema_def, simplified] obtain m where v: "v = JObj m"
    and p: "present m ''search_id''" "present m ''rating''"
    and f: "field_ok m ''search_id'' (SStr True)" "field_ok m ''rating'' (SInt (Some 1) (Some 5) None)"
      "field_ok m ''comment'' (SStr False)"
    by (rule readable_obj) simp
  from p(2) f(2) obtain n where n: "obj_get m ''rating'' = Some (JInt n)" "1 \<le> n" "n \<le> 5"
    by (auto simp: present_def field_ok_def readable_int)
  then have "as_i64 (JInt n) = Some n" by (simp add: as_i64_Some i64_min_def i64_max_def)
  moreover have "obj_get m ''comment'' = None \<or> (\<exists>s. obj_get m ''comment'' = Some (JStr s))"
    using f(3) by (cases "obj_get m ''comment''") (auto simp: field_ok_def readable_str)
  ultimately show ?thesis
    using present_str [OF p(1) f(1)] n v
    by (auto simp: is_ok_bindE feedback_args_def require_object_args_def)
qed

lemma job_status_accepts:
  assumes "readable (input_schema ''get_job_status'') v"
  shows "is_ok (job_status_args v)"
proof -
  from assms(1) [unfolded input_schema_def, simplified] obtain m where v: "v = JObj m"
    and p: "present m ''msg_id''" "field_ok m ''msg_id'' (SStr True)"
    by (rule readable_obj) simp
  from present_str [OF p] v
  show ?thesis by (auto simp: is_ok_bindE job_status_args_def require_object_args_def)
qed

section \<open>Properties\<close>

text \<open>C30. The contract of \<open>tools/list\<close> is the contract the handlers enforce, up to three exceptions: for every
  tool, arguments that validate against the advertised input schema pass the argument checks of its handler, for any
  caller, unless a text that must not be blank has no character but white space and U+0085, an integer is written
  as a float, or the unbounded \<open>offset\<close> of \<open>query_nodes\<close> exceeds 32 bits (\<open>read_alike\<close>).\<close>

theorem advertised_arguments_accepted:
  assumes "name \<in> set TOOL_NAMES" "validates (input_schema name) args" "read_alike (input_schema name) args"
  shows "args_accepted user_schema name args"
proof -
  note accepts = search_accepts ingest_accepts raw_accepts query_nodes_accepts stats_accepts chain_accepts
    feedback_accepts job_status_accepts
  from assms(1) validates_readable [OF assms(2,3)] show ?thesis
    unfolding TOOL_NAMES_def args_accepted_def
    by (simp, elim disjE; simp add: accepts)
qed

lemma text_chars: "chars ''tea'' = [''t'', ''e'', ''a'']" "chars ''Person'' = [''P'', ''e'', ''r'', ''s'', ''o'', ''n'']"
  "chars next_line = [next_line]"
  by (simp_all add: is_cont_def next_line_def)

lemma text_spaces: "\<not> ecma_space ''t''" "''t'' \<noteq> next_line" "\<not> ecma_space ''P''" "\<not> ecma_space next_line" "is_whitespace next_line"
  by (simp_all add: ecma_space_def is_whitespace_def next_line_def)

lemma schema_ints: "schema_integer (JInt n) = Some n" "schema_integer (JFloat 4621819117588971520) = Some 10"
  by (simp_all add: schema_integer_def float_integer_def Let_def)

theorem advertised_arguments_accepted_witness:
  "args_accepted ''u1'' ''search'' (JObj [(''query'', JStr ''tea''), (''limit'', JInt 100)])"
  by (rule advertised_arguments_accepted)
     (simp_all add: TOOL_NAMES_def input_schema_def contract_defs text_chars text_spaces schema_ints del: chars.simps)

text \<open>
  Each exception is one: the integer 10 written as 10.0, the text U+0085 and an offset of 2147483648 validate and
  are refused.
\<close>

lemma float_refused:
  "validates (input_schema ''search'') (JObj [(''query'', JStr ''tea''), (''limit'', JFloat 4621819117588971520)])"
  "\<not> args_accepted u ''search'' (JObj [(''query'', JStr ''tea''), (''limit'', JFloat 4621819117588971520)])"
proof -
  have "trim ''tea'' = ''tea''" by (simp add: trim_def is_whitespace_def is_cont_def)
  then show "\<not> args_accepted u ''search'' (JObj [(''query'', JStr ''tea''), (''limit'', JFloat 4621819117588971520)])"
    by (simp add: args_accepted_def build_search_request_def require_object_args_def enum_field_def
        optional_bounded_i32_def contract_defs as_i64_def)
qed (simp add: input_schema_def contract_defs text_chars text_spaces schema_ints del: chars.simps)

lemma next_line_refused:
  "validates (input_schema ''get_job_status'') (JObj [(''msg_id'', JStr next_line)])"
  "\<not> args_accepted u ''get_job_status'' (JObj [(''msg_id'', JStr next_line)])"
proof -
  have "next_line \<noteq> []" by (simp add: next_line_def)
  then show "validates (input_schema ''get_job_status'') (JObj [(''msg_id'', JStr next_line)])"
    by (simp add: input_schema_def text_chars text_spaces del: chars.simps)
  have "trim next_line = []" by (simp add: trim_def text_chars text_spaces del: chars.simps)
  then show "\<not> args_accepted u ''get_job_status'' (JObj [(''msg_id'', JStr next_line)])"
    by (simp add: args_accepted_def job_status_args_def require_object_args_def)
qed

lemma large_offset_refused:
  "validates (input_schema ''query_nodes'') (JObj [(''node_type'', JStr ''Person''), (''offset'', JInt 2147483648)])"
  "build_query_nodes_request u (JObj [(''node_type'', JStr ''Person''), (''offset'', JInt 2147483648)])
     = Inl (OutOfRange ''arguments'' ''offset'' 2147483648)"
proof -
  have "trim ''Person'' = ''Person''" by (simp add: trim_def is_whitespace_def is_cont_def)
  then show "build_query_nodes_request u (JObj [(''node_type'', JStr ''Person''), (''offset'', JInt 2147483648)])
       = Inl (OutOfRange ''arguments'' ''offset'' 2147483648)"
    by (simp add: build_query_nodes_request_def require_object_args_def require_str_field_def
        build_attribute_filters_from_def optional_str_field_def enum_field_def optional_bounded_i32_def
        contract_defs as_i64_def i64_min_def i64_max_def)
qed (simp add: input_schema_def contract_defs text_chars text_spaces schema_ints del: chars.simps)

end
