(* ===== verification/Vp_Await.thy ===== *)
theory Vp_Await
  imports Vp_World
begin

text \<open>
  Waiting for the extraction jobs of an ingestion (\<open>handlers.rs\<close>): \<open>await_msg_ids_complete\<close> polls the
  jobs of known message identifiers in batches of parallel calls, \<open>await_extraction_jobs_for_schema\<close>
  pages through the job list. Every call is cut at its own timeout and at the overall deadline, and
  the loops end because the clock reaches it: each round sleeps when it did not finish.
\<close>

definition JOB_STATUS_OK :: string where "JOB_STATUS_OK = ''completed''"
definition JOB_STATUS_FAILED :: string where "JOB_STATUS_FAILED = ''failed''"
definition JOB_STATUS_DEAD_LETTER :: string where "JOB_STATUS_DEAD_LETTER = ''dead_letter''"
definition GET_JOB_STATUS_TERMINAL :: "string list" where
  "GET_JOB_STATUS_TERMINAL = [JOB_STATUS_OK, JOB_STATUS_FAILED]"
definition JOB_AWAIT_TIMEOUT_MS :: nat where "JOB_AWAIT_TIMEOUT_MS = 120000"
definition JOB_POLL_INTERVAL_MS :: nat where "JOB_POLL_INTERVAL_MS = 500"
definition SINCE_MS_SKEW_MARGIN :: int where "SINCE_MS_SKEW_MARGIN = 5000"
definition LIST_JOBS_PAGE_SIZE :: int where "LIST_JOBS_PAGE_SIZE = 500"
definition LIST_JOBS_HARD_CAP :: int where "LIST_JOBS_HARD_CAP = 50000"
definition JOB_POLL_PARALLELISM :: nat where "JOB_POLL_PARALLELISM = 32"
definition GET_JOB_STATUS_RPC_TIMEOUT_MS :: nat where "GET_JOB_STATUS_RPC_TIMEOUT_MS = 10000"
definition LIST_JOBS_RPC_TIMEOUT_MS :: nat where "LIST_JOBS_RPC_TIMEOUT_MS = 15000"

datatype await_status = AwaitOk | AwaitPartial | AwaitTimeout

fun await_as_str :: "await_status \<Rightarrow> string" where
  "await_as_str AwaitOk = ''ok''"
| "await_as_str AwaitPartial = ''partial''"
| "await_as_str AwaitTimeout = ''timeout''"

section \<open>Polling known messages\<close>

definition rpc_timed_out :: status where
  "rpc_timed_out = \<lparr>st_code = DeadlineExceeded, st_message = ''rpc timed out''\<rparr>"

text \<open>One batch: all calls start together, and the batch takes as long as its slowest call.\<close>

fun poll_list :: "services \<Rightarrow> nat \<Rightarrow> history \<Rightarrow> string list \<Rightarrow>
    (string \<times> (status + job_status_response)) list \<times> nat \<times> history" where
  "poll_list sv limit h [] = ([], 0, h)"
| "poll_list sv limit h (i # ids) =
     (let d = sv_delay sv h;
          r = (if d \<le> limit then sv_job_status sv h i else Inl rpc_timed_out)
      in case poll_list sv limit (h @ [RJobStatus i]) ids of
           (rs, m, h') \<Rightarrow> ((i, r) # rs, max (min d limit) m, h'))"

definition poll_batch :: "services \<Rightarrow> nat \<Rightarrow> string list \<Rightarrow> (string \<times> (status + job_status_response)) list run" where
  "poll_batch sv limit ids w = (case poll_list sv limit (wd_log w) ids of
     (rs, m, h) \<Rightarrow> (rs, w\<lparr>wd_log := h, wd_time := wd_time w + m\<rparr>))"

function poll_round :: "services \<Rightarrow> nat \<Rightarrow> string list \<Rightarrow> world \<Rightarrow>
    (string \<times> (status + job_status_response)) list \<times> world" where
  "poll_round sv deadline ids w =
     (if ids = [] \<or> deadline - wd_time w = 0 then ([], w)
      else case poll_batch sv (min GET_JOB_STATUS_RPC_TIMEOUT_MS (deadline - wd_time w))
                  (take JOB_POLL_PARALLELISM ids) w of
             (rs, w') \<Rightarrow> (case poll_round sv deadline (drop JOB_POLL_PARALLELISM ids) w' of
                (rs', w'') \<Rightarrow> (rs @ rs', w'')))"
  by auto
termination by (relation "measure (\<lambda>(sv, deadline, ids, w). length ids)") (auto simp: JOB_POLL_PARALLELISM_def)

declare poll_round.simps [simp del]

text \<open>What the answers of a round say: the messages still pending, and whether one ended badly.\<close>

fun settle :: "string list \<Rightarrow> bool \<Rightarrow> (string \<times> (status + job_status_response)) list \<Rightarrow> string list \<times> bool" where
  "settle pending bad [] = (pending, bad)"
| "settle pending bad ((i, Inl e) # rs) = settle pending bad rs"
| "settle pending bad ((i, Inr s) # rs) =
     (if jr_overall_status s \<in> set GET_JOB_STATUS_TERMINAL
      then settle (filter (\<lambda>x. x \<noteq> i) pending) (bad \<or> jr_overall_status s \<noteq> JOB_STATUS_OK) rs
      else settle pending bad rs)"

text \<open>Nothing takes the clock past the deadline.\<close>

lemma poll_list_time: "poll_list sv limit h ids = (rs, m, h') \<Longrightarrow> m \<le> limit"
  by (induction ids arbitrary: h rs m h') (auto simp: Let_def split: prod.splits)

lemma poll_round_time:
  "poll_round sv deadline ids w = (rs, w') \<Longrightarrow> wd_time w \<le> wd_time w' \<and> (wd_time w \<le> deadline \<longrightarrow> wd_time w' \<le> deadline)"
proof (induction sv deadline ids w arbitrary: rs w' rule: poll_round.induct)
  case (1 sv deadline ids w)
  show ?case
  proof (cases "ids = [] \<or> deadline - wd_time w = 0")
    case True
    with 1(2) show ?thesis by (simp add: poll_round.simps [of sv deadline ids w])
  next
    case False
    let ?limit = "min GET_JOB_STATUS_RPC_TIMEOUT_MS (deadline - wd_time w)"
    obtain r1 m h where p: "poll_list sv ?limit (wd_log w) (take JOB_POLL_PARALLELISM ids) = (r1, m, h)"
      by (metis prod_cases3)
    let ?w = "w\<lparr>wd_log := h, wd_time := wd_time w + m\<rparr>"
    have b: "poll_batch sv ?limit (take JOB_POLL_PARALLELISM ids) w = (r1, ?w)" by (simp add: poll_batch_def p)
    obtain r2 where r2: "poll_round sv deadline (drop JOB_POLL_PARALLELISM ids) ?w = (r2, w')"
      using 1(2) False b by (auto simp: poll_round.simps [of sv deadline ids w] split: prod.splits)
    from poll_list_time [OF p] "1.IH" [OF False b [symmetric] r2] False show ?thesis by auto
  qed
qed

function await_loop :: "services \<Rightarrow> nat \<Rightarrow> string list \<Rightarrow> bool \<Rightarrow> world \<Rightarrow> (string list \<times> bool) \<times> world" where
  "await_loop sv deadline pending bad w =
     (if pending = [] \<or> deadline \<le> wd_time w then ((pending, bad), w)
      else case poll_round sv deadline pending w of
        (results, w1) \<Rightarrow> (case settle pending bad results of
          (pending', bad') \<Rightarrow>
            if pending' = [] then ((pending', bad'), w1)
            else await_loop sv deadline pending' bad'
                   (snd (sleep (min JOB_POLL_INTERVAL_MS (deadline - wd_time w1)) w1))))"
  by auto
termination
proof (relation "measure (\<lambda>(sv, deadline, pending, bad, w). deadline - wd_time w)")
  fix sv deadline pending bad w results w1 pending' bad'
  assume "\<not> (pending = [] \<or> deadline \<le> wd_time w)" "(results, w1) = poll_round sv deadline pending w"
  with poll_round_time [of sv deadline pending w results w1]
  show "((sv, deadline, pending', bad', snd (sleep (min JOB_POLL_INTERVAL_MS (deadline - wd_time w1)) w1)),
      sv, deadline, pending, bad, w) \<in> measure (\<lambda>(sv, deadline, pending, bad, w). deadline - wd_time w)"
    by (auto simp: sleep_def JOB_POLL_INTERVAL_MS_def)
qed simp

declare await_loop.simps [simp del]

definition await_msg_ids_complete :: "services \<Rightarrow> string list \<Rightarrow> await_status run" where
  "await_msg_ids_complete sv msg_ids w =
     (if msg_ids = [] then (AwaitOk, w)
      else case await_loop sv (wd_time w + JOB_AWAIT_TIMEOUT_MS) (remdups msg_ids) False w of
        ((pending, bad), w') \<Rightarrow>
          (if pending \<noteq> [] then AwaitTimeout else if bad then AwaitPartial else AwaitOk, w'))"

section \<open>Paging through the job list\<close>

definition count_terminal_jobs_for_schema :: "job_info list \<Rightarrow> string \<Rightarrow> int \<times> int" where
  "count_terminal_jobs_for_schema jobs pre =
     (let mine = filter (\<lambda>j. case jo_msg_id j of None \<Rightarrow> False | Some m \<Rightarrow> starts_with m pre) jobs in
       (int (length (filter (\<lambda>j. jo_status j = JOB_STATUS_OK) mine)),
        int (length (filter (\<lambda>j. jo_status j = JOB_STATUS_FAILED \<or> jo_status j = JOB_STATUS_DEAD_LETTER) mine))))"

text \<open>The map from job identifiers, a later entry replacing an earlier one.\<close>

definition put_job :: "job_info list \<Rightarrow> job_info \<Rightarrow> job_info list" where
  "put_job js j = filter (\<lambda>x. jo_job_id x \<noteq> jo_job_id j) js @ [j]"

definition next_cap :: "int option \<Rightarrow> list_jobs_response \<Rightarrow> int" where
  "next_cap cap resp = (let observed_cap = min (lj_total_count resp) LIST_JOBS_HARD_CAP in
     (case cap of None \<Rightarrow> observed_cap | Some c \<Rightarrow> max c observed_cap))"

text \<open>
  The paging loop under the caller's deadline: \<open>None\<close> is the caller's timeout, which ends the loop
  in the middle; \<open>cap\<close> is the highest total seen so far, each total cut at the hard cap.
\<close>

function list_paged :: "services \<Rightarrow> nat \<Rightarrow> int \<Rightarrow> int \<Rightarrow> int option \<Rightarrow> job_info list \<Rightarrow> world \<Rightarrow>
    (status + job_info list) option \<times> world" where
  "list_paged sv deadline since offset cap by_id w =
     (let q = \<lparr>lq_since_ms = since, lq_offset = offset, lq_limit = LIST_JOBS_PAGE_SIZE\<rparr>;
          h = wd_log w; d = sv_delay sv h; left = deadline - wd_time w;
          w' = w\<lparr>wd_log := h @ [RListJobs q]\<rparr>
      in if min d LIST_JOBS_RPC_TIMEOUT_MS > left then (None, w'\<lparr>wd_time := wd_time w + left\<rparr>)
         else if d > LIST_JOBS_RPC_TIMEOUT_MS then (Some (Inl rpc_timed_out), w'\<lparr>wd_time := wd_time w + LIST_JOBS_RPC_TIMEOUT_MS\<rparr>)
         else let w'' = w'\<lparr>wd_time := wd_time w + d\<rparr> in
           (case sv_list_jobs sv h q of
              Inl e \<Rightarrow> (Some (Inl e), w'')
            | Inr resp \<Rightarrow>
                let cap' = next_cap cap resp;
                    by_id' = foldl put_job by_id (lj_jobs resp)
                in if int (length (lj_jobs resp)) < LIST_JOBS_PAGE_SIZE then (Some (Inr by_id'), w'')
                   else if cap' \<le> offset + LIST_JOBS_PAGE_SIZE then (Some (Inr by_id'), w'')
                   else list_paged sv deadline since (offset + LIST_JOBS_PAGE_SIZE) (Some cap') by_id' w''))"
  by auto
termination
  by (relation "measure (\<lambda>(sv, deadline, since, offset, cap, by_id, w).
        nat (max LIST_JOBS_HARD_CAP (case cap of None \<Rightarrow> LIST_JOBS_HARD_CAP | Some c \<Rightarrow> c) - offset))")
     (auto simp: next_cap_def Let_def LIST_JOBS_PAGE_SIZE_def LIST_JOBS_HARD_CAP_def split: option.splits)

declare list_paged.simps [simp del]

definition list_extraction_jobs_paged ::
  "services \<Rightarrow> nat \<Rightarrow> int \<Rightarrow> (status + job_info list) option run" where
  "list_extraction_jobs_paged sv deadline since = list_paged sv deadline since 0 None []"

text \<open>
  The requests of a pass: \<open>n\<close> pages of the list from an offset on, each taking up where the one before
  ends. The clock stays within the deadline, and no page reaches beyond the hard cap.
\<close>

definition job_pages :: "int \<Rightarrow> int \<Rightarrow> nat \<Rightarrow> request list" where
  "job_pages since offset n = map (\<lambda>i. RListJobs \<lparr>lq_since_ms = since,
     lq_offset = offset + int i * LIST_JOBS_PAGE_SIZE, lq_limit = LIST_JOBS_PAGE_SIZE\<rparr>) [0..<n]"

lemma job_pages_Suc:
  "job_pages since offset (Suc n) =
     RListJobs \<lparr>lq_since_ms = since, lq_offset = offset, lq_limit = LIST_JOBS_PAGE_SIZE\<rparr>
       # job_pages since (offset + LIST_JOBS_PAGE_SIZE) n"
  by (simp only: job_pages_def upt_conv_Cons [of 0 "Suc n"] zero_less_Suc list.map map_Suc_upt [symmetric] map_map o_def)
     (simp add: algebra_simps)

definition under_cap :: "int option \<Rightarrow> bool" where
  "under_cap cap \<longleftrightarrow> (case cap of None \<Rightarrow> True | Some c \<Rightarrow> c \<le> LIST_JOBS_HARD_CAP)"

lemma next_cap_under: "under_cap cap \<Longrightarrow> next_cap cap resp \<le> LIST_JOBS_HARD_CAP"
  by (simp add: next_cap_def under_cap_def Let_def split: option.splits)

lemma list_paged_bounds:
  "list_paged sv deadline since offset cap by_id w = (r, w') \<Longrightarrow> under_cap cap \<Longrightarrow>
     offset + LIST_JOBS_PAGE_SIZE \<le> LIST_JOBS_HARD_CAP \<Longrightarrow> LIST_JOBS_PAGE_SIZE dvd offset \<Longrightarrow>
     wd_time w \<le> wd_time w' \<and> (wd_time w \<le> deadline \<longrightarrow> wd_time w' \<le> deadline)
     \<and> (\<exists>n. wd_log w' = wd_log w @ job_pages since offset n \<and> offset + int n * LIST_JOBS_PAGE_SIZE \<le> LIST_JOBS_HARD_CAP)
     \<and> wd_owned w' = wd_owned w \<and> wd_users w' = wd_users w"
proof (induction sv deadline since offset cap by_id w arbitrary: r w' rule: list_paged.induct)
  case (1 sv deadline since offset cap by_id w)
  let ?q = "\<lparr>lq_since_ms = since, lq_offset = offset, lq_limit = LIST_JOBS_PAGE_SIZE\<rparr>"
  let ?h = "wd_log w"
  let ?d = "sv_delay sv ?h"
  let ?left = "deadline - wd_time w"
  let ?w = "w\<lparr>wd_log := ?h @ [RListJobs ?q], wd_time := wd_time w + ?d\<rparr>"
  have one: "[RListJobs ?q] = job_pages since offset (Suc 0)" by (simp add: job_pages_Suc) (simp add: job_pages_def)
  have ended: ?case if "wd_log w' = ?h @ [RListJobs ?q]" "wd_time w \<le> wd_time w'"
    "wd_time w \<le> deadline \<longrightarrow> wd_time w' \<le> deadline" "wd_owned w' = wd_owned w" "wd_users w' = wd_users w"
    using that 1(4) by (intro conjI exI [of _ "Suc 0"]) (simp_all add: one [symmetric])
  consider (over) "min ?d LIST_JOBS_RPC_TIMEOUT_MS > ?left" | (late) "min ?d LIST_JOBS_RPC_TIMEOUT_MS \<le> ?left" "?d > LIST_JOBS_RPC_TIMEOUT_MS"
    | (failed) e where "\<not> min ?d LIST_JOBS_RPC_TIMEOUT_MS > ?left" "\<not> ?d > LIST_JOBS_RPC_TIMEOUT_MS" "sv_list_jobs sv ?h ?q = Inl e"
    | (page) resp where "\<not> min ?d LIST_JOBS_RPC_TIMEOUT_MS > ?left" "\<not> ?d > LIST_JOBS_RPC_TIMEOUT_MS" "sv_list_jobs sv ?h ?q = Inr resp"
    using not_less by (cases "sv_list_jobs sv ?h ?q") blast+
  then show ?case
  proof cases
    case (page resp)
    let ?cap = "next_cap cap resp"
    let ?ids = "foldl put_job by_id (lj_jobs resp)"
    show ?thesis
    proof (cases "int (length (lj_jobs resp)) < LIST_JOBS_PAGE_SIZE \<or> ?cap \<le> offset + LIST_JOBS_PAGE_SIZE")
      case True
      with page 1(2) have "w' = ?w"
        by (cases "int (length (lj_jobs resp)) < LIST_JOBS_PAGE_SIZE")
           (simp_all add: list_paged.simps [of sv deadline since offset cap by_id w] Let_def)
      with page show ?thesis by (intro ended) auto
    next
      case False
      with page 1(2) have rec: "list_paged sv deadline since (offset + LIST_JOBS_PAGE_SIZE) (Some ?cap) ?ids ?w = (r, w')"
        by (simp add: list_paged.simps [of sv deadline since offset cap by_id w] Let_def)
      from False have n: "\<not> int (length (lj_jobs resp)) < LIST_JOBS_PAGE_SIZE" "\<not> ?cap \<le> offset + LIST_JOBS_PAGE_SIZE"
        by simp_all
      from next_cap_under [OF 1(3)] have u: "under_cap (Some ?cap)" by (simp add: under_cap_def)
      from 1(5) have dv: "LIST_JOBS_PAGE_SIZE dvd offset + LIST_JOBS_PAGE_SIZE" by simp
      from next_cap_under [OF 1(3), of resp] n(2) 1(5)
      have "offset + LIST_JOBS_PAGE_SIZE + LIST_JOBS_PAGE_SIZE \<le> LIST_JOBS_HARD_CAP"
        by (auto simp: LIST_JOBS_PAGE_SIZE_def LIST_JOBS_HARD_CAP_def elim!: dvdE)
      note ih = "1.IH" [OF refl refl refl refl refl page(1,2) refl page(3) refl refl n rec u this dv]
      then obtain m where "wd_log w' = wd_log w @ RListJobs ?q # job_pages since (offset + LIST_JOBS_PAGE_SIZE) m"
        "offset + LIST_JOBS_PAGE_SIZE + int m * LIST_JOBS_PAGE_SIZE \<le> LIST_JOBS_HARD_CAP" by auto
      then have "wd_log w' = wd_log w @ job_pages since offset (Suc m)
          \<and> offset + int (Suc m) * LIST_JOBS_PAGE_SIZE \<le> LIST_JOBS_HARD_CAP"
        by (simp add: job_pages_Suc algebra_simps)
      with ih page show ?thesis by auto
    qed
  qed (use 1(2) in \<open>auto simp: list_paged.simps [of sv deadline since offset cap by_id w] Let_def intro!: ended [simplified]\<close>)
qed

lemma list_paged_start:
  "list_paged sv deadline since 0 None [] w = (r, w') \<Longrightarrow>
     wd_time w \<le> wd_time w' \<and> (wd_time w \<le> deadline \<longrightarrow> wd_time w' \<le> deadline)
     \<and> (\<exists>n. wd_log w' = wd_log w @ job_pages since 0 n \<and> int n * LIST_JOBS_PAGE_SIZE \<le> LIST_JOBS_HARD_CAP)
     \<and> wd_owned w' = wd_owned w \<and> wd_users w' = wd_users w"
  by (drule list_paged_bounds) (simp_all add: under_cap_def, simp_all add: LIST_JOBS_PAGE_SIZE_def LIST_JOBS_HARD_CAP_def)

section \<open>Waiting for a schema's jobs\<close>

function await_jobs_loop ::
  "services \<Rightarrow> nat \<Rightarrow> string \<Rightarrow> int \<Rightarrow> int \<Rightarrow> (int \<times> int) option \<Rightarrow> world \<Rightarrow> await_status \<times> world" where
  "await_jobs_loop sv deadline pre since expected baseline w =
     (if deadline \<le> wd_time w then (AwaitTimeout, w)
      else case list_extraction_jobs_paged sv deadline since w of
        (None, w1) \<Rightarrow> (AwaitTimeout, w1)
      | (Some (Inl e), w1) \<Rightarrow>
          await_jobs_loop sv deadline pre since expected baseline
            (snd (sleep (min JOB_POLL_INTERVAL_MS (deadline - wd_time w1)) w1))
      | (Some (Inr jobs), w1) \<Rightarrow>
          (case count_terminal_jobs_for_schema jobs pre of
             (ok, failed) \<Rightarrow>
               (case (case baseline of None \<Rightarrow> (ok, failed) | Some b \<Rightarrow> b) of
                  (b_ok, b_failed) \<Rightarrow>
                    if expected \<le> (ok - b_ok) + (failed - b_failed)
                    then (if failed - b_failed > 0 then AwaitPartial else AwaitOk, w1)
                    else await_jobs_loop sv deadline pre since expected (Some (b_ok, b_failed))
                           (snd (sleep (min JOB_POLL_INTERVAL_MS (deadline - wd_time w1)) w1)))))"
  by pat_completeness auto
termination
proof (relation "measure (\<lambda>(sv, deadline, pre, since, expected, baseline, w). deadline - wd_time w)", goal_cases)
  case (2 sv deadline pre since expected baseline w x w1 y e)
  then show ?case
    using list_paged_start [of sv deadline since w x w1]
    by (auto simp: sleep_def JOB_POLL_INTERVAL_MS_def list_extraction_jobs_paged_def)
next
  case (3 sv deadline pre since expected baseline w x w1 y jobs)
  then show ?case
    using list_paged_start [of sv deadline since w x w1]
    by (auto simp: sleep_def JOB_POLL_INTERVAL_MS_def list_extraction_jobs_paged_def)
qed simp

declare await_jobs_loop.simps [simp del]

definition await_extraction_jobs_for_schema :: "services \<Rightarrow> string \<Rightarrow> int \<Rightarrow> int \<Rightarrow> await_status run" where
  "await_extraction_jobs_for_schema sv user_schema since_ms expected w =
     (if expected \<le> 0 then (AwaitOk, w)
      else await_jobs_loop sv (wd_time w + JOB_AWAIT_TIMEOUT_MS) (user_schema @ '':'')
             (max i64_min (since_ms - SINCE_MS_SKEW_MARGIN)) expected None w)"

section \<open>What the waiting guarantees\<close>

definition asks_for :: "string set \<Rightarrow> request \<Rightarrow> bool" where
  "asks_for S q \<longleftrightarrow> (\<exists>i \<in> S. q = RJobStatus i)"

definition is_list_jobs :: "request \<Rightarrow> bool" where
  "is_list_jobs q \<longleftrightarrow> (\<exists>since. \<exists>n. int (Suc n) * LIST_JOBS_PAGE_SIZE \<le> LIST_JOBS_HARD_CAP
     \<and> q = RListJobs \<lparr>lq_since_ms = since, lq_offset = int n * LIST_JOBS_PAGE_SIZE, lq_limit = LIST_JOBS_PAGE_SIZE\<rparr>)"

text \<open>The frame of the waiting loops: they send requests of one kind and let time pass.\<close>

definition waits :: "(request \<Rightarrow> bool) \<Rightarrow> nat \<Rightarrow> world \<Rightarrow> world \<Rightarrow> bool" where
  "waits P deadline w w' \<longleftrightarrow> wd_time w \<le> wd_time w' \<and> (wd_time w \<le> deadline \<longrightarrow> wd_time w' \<le> deadline)
     \<and> (\<exists>qs. wd_log w' = wd_log w @ qs \<and> (\<forall>q \<in> set qs. P q)) \<and> wd_owned w' = wd_owned w \<and> wd_users w' = wd_users w"

lemma waits_refl [simp]: "waits P deadline w w"
  by (simp add: waits_def)

lemma waits_trans: "waits P d w w' \<Longrightarrow> waits P d w' w'' \<Longrightarrow> waits P d w w''"
  unfolding waits_def by (elim conjE exE) (auto simp: ball_Un)

lemma waits_extends: "waits P d w w' \<Longrightarrow> extends w w'"
  by (auto simp: waits_def extends_def)

lemma waits_sleep: "waits P d w (snd (sleep (min n (d - wd_time w)) w))"
  by (auto simp: waits_def sleep_def)

lemma job_pages_list_jobs:
  assumes "q \<in> set (job_pages since 0 n)" "int n * LIST_JOBS_PAGE_SIZE \<le> LIST_JOBS_HARD_CAP"
  shows "is_list_jobs q"
  using assms by (auto simp: job_pages_def is_list_jobs_def LIST_JOBS_PAGE_SIZE_def LIST_JOBS_HARD_CAP_def)

lemma list_paged_waits: "list_paged sv deadline since 0 None [] w = (r, w') \<Longrightarrow> waits is_list_jobs deadline w w'"
  by (drule list_paged_start) (auto simp: waits_def job_pages_list_jobs)

lemma poll_list_log:
  "poll_list sv limit h ids = (rs, m, h') \<Longrightarrow> h' = h @ map RJobStatus ids \<and> map fst rs = ids
     \<and> (\<forall>(i, r) \<in> set rs. \<forall>s. r = Inr s \<longrightarrow> (\<exists>g g'. h' = g @ RJobStatus i # g' \<and> sv_job_status sv g i = Inr s))"
proof (induction ids arbitrary: h rs m h')
  case (Cons i ids)
  obtain rs' m' h'' where p: "poll_list sv limit (h @ [RJobStatus i]) ids = (rs', m', h'')" by (metis prod_cases3)
  with Cons.prems have e: "rs = (i, if sv_delay sv h \<le> limit then sv_job_status sv h i else Inl rpc_timed_out) # rs'" "h' = h''"
    by (auto simp: Let_def)
  from Cons.IH [OF p] have ih: "h'' = (h @ [RJobStatus i]) @ map RJobStatus ids" "map fst rs' = ids"
    "\<forall>(i, r) \<in> set rs'. \<forall>s. r = Inr s \<longrightarrow> (\<exists>g g'. h'' = g @ RJobStatus i # g' \<and> sv_job_status sv g i = Inr s)" by blast+
  have "\<exists>g g'. h'' = g @ RJobStatus i # g' \<and> sv_job_status sv g i = Inr s" if "sv_job_status sv h i = Inr s" for s
    using that ih(1) by (intro exI [of _ h] exI [of _ "map RJobStatus ids"]) simp
  with e ih show ?case by (auto split: if_splits)
qed simp

text \<open>A status the backend reported for a message in the course of a log.\<close>

definition answered :: "services \<Rightarrow> history \<Rightarrow> string \<Rightarrow> job_status_response \<Rightarrow> bool" where
  "answered sv h i s \<longleftrightarrow> (\<exists>g g'. h = g @ RJobStatus i # g' \<and> sv_job_status sv g i = Inr s)"

lemma answered_more: "answered sv (wd_log w) i s \<Longrightarrow> waits P d w w' \<Longrightarrow> answered sv (wd_log w') i s"
  by (fastforce simp: answered_def waits_def)

lemma poll_batch_ok:
  assumes "poll_batch sv limit ids w = (rs, w')" "limit \<le> deadline - wd_time w" "set ids \<subseteq> S"
  shows "waits (asks_for S) deadline w w' \<and> (\<forall>i s. (i, Inr s) \<in> set rs \<longrightarrow> answered sv (wd_log w') i s)"
proof -
  obtain m h where p: "poll_list sv limit (wd_log w) ids = (rs, m, h)" and w': "w' = w\<lparr>wd_log := h, wd_time := wd_time w + m\<rparr>"
    using assms(1) by (auto simp: poll_batch_def split: prod.splits)
  from poll_list_log [OF p] poll_list_time [OF p] assms(2,3) w' show ?thesis
    by (auto simp: waits_def answered_def asks_for_def)
qed

lemma poll_round_ok:
  "poll_round sv deadline ids w = (rs, w') \<Longrightarrow> set ids \<subseteq> S \<Longrightarrow>
     waits (asks_for S) deadline w w' \<and> (\<forall>i s. (i, Inr s) \<in> set rs \<longrightarrow> answered sv (wd_log w') i s)"
proof (induction sv deadline ids w arbitrary: rs w' rule: poll_round.induct)
  case (1 sv deadline ids w)
  show ?case
  proof (cases "ids = [] \<or> deadline - wd_time w = 0")
    case True
    with 1(2) show ?thesis by (auto simp: poll_round.simps [of sv deadline ids w])
  next
    case False
    let ?limit = "min GET_JOB_STATUS_RPC_TIMEOUT_MS (deadline - wd_time w)"
    obtain r1 w1 where b: "poll_batch sv ?limit (take JOB_POLL_PARALLELISM ids) w = (r1, w1)" by fastforce
    obtain r2 where r2: "poll_round sv deadline (drop JOB_POLL_PARALLELISM ids) w1 = (r2, w')" "rs = r1 @ r2"
      using 1(2) False b by (auto simp: poll_round.simps [of sv deadline ids w] split: prod.splits)
    have p1: "waits (asks_for S) deadline w w1 \<and> (\<forall>i s. (i, Inr s) \<in> set r1 \<longrightarrow> answered sv (wd_log w1) i s)"
      using set_take_subset [of JOB_POLL_PARALLELISM ids] 1(3) by (intro poll_batch_ok [OF b]) auto
    have p2: "waits (asks_for S) deadline w1 w' \<and> (\<forall>i s. (i, Inr s) \<in> set r2 \<longrightarrow> answered sv (wd_log w') i s)"
      using set_drop_subset [of JOB_POLL_PARALLELISM ids] 1(3) by (intro "1.IH" [OF False b [symmetric] r2(1)]) auto
    from p1 p2 r2(2) show ?thesis using waits_trans answered_more by fastforce
  qed
qed

lemma settle_ok:
  "settle pending bad rs = (p', b') \<Longrightarrow>
     set p' \<subseteq> set pending
     \<and> (\<forall>i \<in> set pending - set p'. \<exists>s. (i, Inr s) \<in> set rs \<and> (\<not> b' \<longrightarrow> jr_overall_status s = JOB_STATUS_OK))
     \<and> (b' \<longrightarrow> bad \<or> (\<exists>i s. (i, Inr s) \<in> set rs \<and> jr_overall_status s = JOB_STATUS_FAILED)) \<and> (bad \<longrightarrow> b')"
proof (induction pending bad rs rule: settle.induct)
  case (2 pending bad i e rs)
  then have "settle pending bad rs = (p', b')" by simp
  from "2.IH" [OF this] show ?case by fastforce
next
  case (3 pending bad i s rs)
  show ?case
  proof (cases "jr_overall_status s \<in> set GET_JOB_STATUS_TERMINAL")
    case True
    with 3(3) have r: "settle (filter (\<lambda>x. x \<noteq> i) pending) (bad \<or> jr_overall_status s \<noteq> JOB_STATUS_OK) rs = (p', b')" by simp
    note ih = "3.IH"(1) [OF True r]
    have st: "jr_overall_status s = JOB_STATUS_OK \<or> jr_overall_status s = JOB_STATUS_FAILED"
      using True by (auto simp: GET_JOB_STATUS_TERMINAL_def)
    have "\<exists>t. (j, Inr t) \<in> set ((i, Inr s) # rs) \<and> (\<not> b' \<longrightarrow> jr_overall_status t = JOB_STATUS_OK)"
      if "j \<in> set pending - set p'" for j
    proof (cases "j = i")
      case True
      with ih show ?thesis by auto
    next
      case False
      with that ih show ?thesis by fastforce
    qed
    with ih st show ?thesis by auto
  next
    case False
    with 3(3) have "settle pending bad rs = (p', b')" by simp
    from "3.IH"(2) [OF False this] show ?thesis by fastforce
  qed
qed simp

lemma await_loop_ok:
  "await_loop sv deadline pending bad w = ((p', b'), w') \<Longrightarrow> set pending \<subseteq> S \<Longrightarrow>
     waits (asks_for S) deadline w w' \<and> set p' \<subseteq> set pending \<and> (p' \<noteq> [] \<longrightarrow> deadline \<le> wd_time w') \<and> (bad \<longrightarrow> b')
     \<and> (\<not> b' \<longrightarrow> (\<forall>i \<in> set pending - set p'. \<exists>s. answered sv (wd_log w') i s \<and> jr_overall_status s = JOB_STATUS_OK))
     \<and> (b' \<longrightarrow> bad \<or> (\<exists>i s. answered sv (wd_log w') i s \<and> jr_overall_status s = JOB_STATUS_FAILED))"
proof (induction sv deadline pending bad w rule: await_loop.induct)
  case (1 sv deadline pending bad w)
  show ?case
  proof (cases "pending = [] \<or> deadline \<le> wd_time w")
    case True
    with 1(2) show ?thesis by (auto simp: await_loop.simps [of sv deadline pending bad w])
  next
    case False
    obtain rs w1 where r: "poll_round sv deadline pending w = (rs, w1)" by fastforce
    obtain p1 b1 where s: "settle pending bad rs = (p1, b1)" by fastforce
    note pr = poll_round_ok [OF r 1(3)] and st = settle_ok [OF s]
    show ?thesis
    proof (cases "p1 = []")
      case True
      with False 1(2) r s have e: "p' = []" "b' = b1" "w' = w1"
        by (simp_all add: await_loop.simps [of sv deadline pending bad w])
      from True pr st show ?thesis unfolding e by (simp) blast
    next
      case again: False
      let ?w = "snd (sleep (min JOB_POLL_INTERVAL_MS (deadline - wd_time w1)) w1)"
      from False again 1(2) r s have l: "await_loop sv deadline p1 b1 ?w = ((p', b'), w')"
        by (simp add: await_loop.simps [of sv deadline pending bad w])
      have "set p1 \<subseteq> S" using st 1(3) by blast
      note ih = "1.IH" [OF False r [symmetric] s [symmetric] again l this]
      from ih have w: "waits (asks_for S) deadline w1 w'" using waits_trans [OF waits_sleep] by blast
      have more: "answered sv (wd_log w1) i t \<Longrightarrow> answered sv (wd_log w') i t" for i t
        using answered_more [OF _ w] by blast
      have "\<exists>t. answered sv (wd_log w') i t \<and> jr_overall_status t = JOB_STATUS_OK"
        if nb: "\<not> b'" and i: "i \<in> set pending - set p'" for i
      proof (cases "i \<in> set p1")
        case True
        with ih nb i show ?thesis by blast
      next
        case False
        with st i obtain t where "(i, Inr t) \<in> set rs" "\<not> b1 \<longrightarrow> jr_overall_status t = JOB_STATUS_OK" by blast
        with pr more ih nb show ?thesis by blast
      qed
      moreover have "b' \<longrightarrow> bad \<or> (\<exists>i t. answered sv (wd_log w') i t \<and> jr_overall_status t = JOB_STATUS_FAILED)"
        using ih st pr more by blast
      moreover have "waits (asks_for S) deadline w w'" using waits_trans pr w by blast
      ultimately show ?thesis using ih st by blast
    qed
  qed
qed

section \<open>Property\<close>

lemma await_msg_ids_waits:
  "await_msg_ids_complete sv ids w = (st, w') \<Longrightarrow> waits (asks_for (set ids)) (wd_time w + JOB_AWAIT_TIMEOUT_MS) w w'"
  using await_loop_ok [of sv "wd_time w + JOB_AWAIT_TIMEOUT_MS" "remdups ids" False w _ _ _ "set ids"]
  by (auto simp: await_msg_ids_complete_def split: if_splits prod.splits)

text \<open>C26. Waiting for the jobs of an ingested text always ends, within 120 seconds of the clock whatever the
  backend answers and however long its calls hang; \<open>timeout\<close> is reported only when the whole time is used up,
  \<open>ok\<close> only when the backend reported \<open>completed\<close> for every message, and \<open>partial\<close> only when it reported
  \<open>failed\<close> for one.\<close>

theorem await_msg_ids_sound:
  assumes "await_msg_ids_complete sv ids w = (st, w')"
  shows "wd_time w' \<le> wd_time w + JOB_AWAIT_TIMEOUT_MS
    \<and> (st = AwaitTimeout \<longrightarrow> wd_time w' = wd_time w + JOB_AWAIT_TIMEOUT_MS)
    \<and> (st = AwaitOk \<longrightarrow> (\<forall>i \<in> set ids. \<exists>s. answered sv (wd_log w') i s \<and> jr_overall_status s = JOB_STATUS_OK))
    \<and> (st = AwaitPartial \<longrightarrow> (\<exists>i s. answered sv (wd_log w') i s \<and> jr_overall_status s = JOB_STATUS_FAILED))"
proof (cases "ids = []")
  case True
  with assms show ?thesis by (auto simp: await_msg_ids_complete_def)
next
  case False
  obtain p' b' w1 where l: "await_loop sv (wd_time w + JOB_AWAIT_TIMEOUT_MS) (remdups ids) False w = ((p', b'), w1)"
    by (metis prod.collapse)
  with False assms have e: "w' = w1" "st = (if p' \<noteq> [] then AwaitTimeout else if b' then AwaitPartial else AwaitOk)"
    by (simp_all add: await_msg_ids_complete_def)
  from await_loop_ok [OF l subset_refl] have k: "waits (asks_for (set (remdups ids))) (wd_time w + JOB_AWAIT_TIMEOUT_MS) w w1"
    "p' \<noteq> [] \<longrightarrow> wd_time w + JOB_AWAIT_TIMEOUT_MS \<le> wd_time w1"
    "\<not> b' \<longrightarrow> (\<forall>i \<in> set ids - set p'. \<exists>s. answered sv (wd_log w1) i s \<and> jr_overall_status s = JOB_STATUS_OK)"
    "b' \<longrightarrow> (\<exists>i s. answered sv (wd_log w1) i s \<and> jr_overall_status s = JOB_STATUS_FAILED)" by auto
  then show ?thesis unfolding e by (auto simp: waits_def split: if_splits)
qed

definition silent_services :: services where
  "silent_services = \<lparr>sv_search = \<lambda>_ _. Inl rpc_timed_out, sv_get_schema = \<lambda>_ _. Inl rpc_timed_out,
     sv_list_schemas = \<lambda>_. Inl rpc_timed_out, sv_ingest = \<lambda>_ _. Inl rpc_timed_out, sv_ingest_raw = \<lambda>_ _. Inl rpc_timed_out,
     sv_query_nodes = \<lambda>_ _. Inl rpc_timed_out, sv_get_stats = \<lambda>_ _. Inl rpc_timed_out, sv_chain = \<lambda>_ _. Inl rpc_timed_out,
     sv_feedback = \<lambda>_ _. Inl rpc_timed_out,
     sv_job_status = \<lambda>_ i. Inr \<lparr>jr_msg_id = i, jr_jobs = [], jr_overall_status = ''completed''\<rparr>,
     sv_list_jobs = \<lambda>_ _. Inl rpc_timed_out, sv_gemini = \<lambda>_ _ _. Inl HttpFailed, sv_delay = \<lambda>_. 20\<rparr>"

definition fresh_world :: world where
  "fresh_world = \<lparr>wd_owned = [], wd_users = [''u1''], wd_faults = [], wd_log = [], wd_time = 0\<rparr>"

lemma await_completes:
  "await_msg_ids_complete silent_services [''m1''] fresh_world
     = (AwaitOk, fresh_world\<lparr>wd_log := [RJobStatus ''m1''], wd_time := 20\<rparr>)"
  by (simp add: await_msg_ids_complete_def await_loop.simps poll_round.simps poll_batch_def silent_services_def fresh_world_def
      JOB_POLL_PARALLELISM_def JOB_AWAIT_TIMEOUT_MS_def GET_JOB_STATUS_RPC_TIMEOUT_MS_def GET_JOB_STATUS_TERMINAL_def
      JOB_STATUS_OK_def)

theorem await_msg_ids_sound_witness:
  "\<exists>s. answered silent_services [RJobStatus ''m1''] ''m1'' s \<and> jr_overall_status s = ''completed''"
  using await_msg_ids_sound [OF await_completes] by (simp add: JOB_STATUS_OK_def)

lemma await_jobs_waits:
  "await_jobs_loop sv deadline pre since expected baseline w = (st, w') \<Longrightarrow> waits is_list_jobs deadline w w'"
proof (induction sv deadline pre since expected baseline w rule: await_jobs_loop.induct)
  case (1 sv deadline pre since expected baseline w)
  show ?case
  proof (cases "deadline \<le> wd_time w")
    case True
    with 1(3) show ?thesis by (simp add: await_jobs_loop.simps [of sv deadline pre since expected baseline w])
  next
    case False
    obtain r w1 where r: "list_extraction_jobs_paged sv deadline since w = (r, w1)" by fastforce
    have w1: "waits is_list_jobs deadline w w1"
      using list_paged_waits r by (simp add: list_extraction_jobs_paged_def)
    note step = await_jobs_loop.simps [of sv deadline pre since expected baseline w]
    have slept: "waits is_list_jobs deadline w (snd (sleep (min JOB_POLL_INTERVAL_MS (deadline - wd_time w1)) w1))"
      using waits_trans [OF w1 waits_sleep] .
    consider (out) "r = None" | (err) e where "r = Some (Inl e)" | (jobs) js where "r = Some (Inr js)"
      by (cases r) (auto, metis sum.exhaust)
    then show ?thesis
    proof cases
      case out
      with 1(3) False r w1 show ?thesis by (simp add: step)
    next
      case err
      with 1(3) False r have "await_jobs_loop sv deadline pre since expected baseline
          (snd (sleep (min JOB_POLL_INTERVAL_MS (deadline - wd_time w1)) w1)) = (st, w')" by (simp add: step)
      with 1(1) [OF False r [symmetric] err refl] slept show ?thesis using waits_trans by blast
    next
      case jobs
      obtain ok failed where c: "count_terminal_jobs_for_schema js pre = (ok, failed)" by fastforce
      obtain b_ok b_failed where b: "(case baseline of None \<Rightarrow> (ok, failed) | Some b \<Rightarrow> b) = (b_ok, b_failed)" by fastforce
      show ?thesis
      proof (cases "expected \<le> (ok - b_ok) + (failed - b_failed)")
        case True
        with 1(3) False r jobs c b w1 show ?thesis by (simp add: step)
      next
        case again: False
        with 1(3) False r jobs c b have l: "await_jobs_loop sv deadline pre since expected (Some (b_ok, b_failed))
            (snd (sleep (min JOB_POLL_INTERVAL_MS (deadline - wd_time w1)) w1)) = (st, w')" by (simp add: step)
        show ?thesis
          using waits_trans [OF slept 1(2) [OF False r [symmetric] jobs refl c [symmetric] b [symmetric] again l]] .
      qed
    qed
  qed
qed

text \<open>C27. Waiting for a batch by paging through the job list ends within 120 seconds as well and sends nothing but
  list requests. One pass over the list asks for consecutive pages of 500 jobs from the first on, at most 100 of
  them, and no page, in a pass or in the wait, reaches beyond the 50000th job, whatever totals and pages the
  backend answers.\<close>

theorem job_paging_bounded:
  assumes "await_extraction_jobs_for_schema sv schema since n w = (st, w')"
    and "list_extraction_jobs_paged sv deadline since' v = (r, v')"
  shows "wd_time w' \<le> wd_time w + JOB_AWAIT_TIMEOUT_MS
    \<and> (\<exists>qs. wd_log w' = wd_log w @ qs
         \<and> (\<forall>q \<in> set qs. \<exists>lq. q = RListJobs lq \<and> 0 \<le> lq_offset lq \<and> lq_offset lq + lq_limit lq \<le> 50000))
    \<and> (\<exists>m \<le> 100. wd_log v' = wd_log v @ map (\<lambda>i. RListJobs
         \<lparr>lq_since_ms = since', lq_offset = int i * 500, lq_limit = 500\<rparr>) [0..<m])"
proof -
  have "waits is_list_jobs (wd_time w + JOB_AWAIT_TIMEOUT_MS) w w'"
  proof (cases "n \<le> 0")
    case False
    with assms(1) await_jobs_waits show ?thesis by (simp add: await_extraction_jobs_for_schema_def)
  qed (use assms(1) in \<open>simp add: await_extraction_jobs_for_schema_def\<close>)
  moreover have "\<exists>lq. q = RListJobs lq \<and> 0 \<le> lq_offset lq \<and> lq_offset lq + lq_limit lq \<le> 50000" if "is_list_jobs q" for q
    using that by (auto simp: is_list_jobs_def LIST_JOBS_PAGE_SIZE_def LIST_JOBS_HARD_CAP_def)
  moreover from list_paged_start [OF assms(2) [unfolded list_extraction_jobs_paged_def]]
  obtain m where "wd_log v' = wd_log v @ job_pages since' 0 m" "int m * LIST_JOBS_PAGE_SIZE \<le> LIST_JOBS_HARD_CAP" by blast
  then have "\<exists>m \<le> 100. wd_log v' = wd_log v @ map (\<lambda>i. RListJobs
         \<lparr>lq_since_ms = since', lq_offset = int i * 500, lq_limit = 500\<rparr>) [0..<m]"
    by (intro exI [of _ m]) (simp add: job_pages_def LIST_JOBS_PAGE_SIZE_def LIST_JOBS_HARD_CAP_def)
  ultimately show ?thesis by (fastforce simp: waits_def)
qed

theorem job_paging_bounded_witness:
  "wd_time (snd (await_extraction_jobs_for_schema silent_services ''user-1'' 0 1 fresh_world)) \<le> 120000"
proof -
  obtain st w' where a: "await_extraction_jobs_for_schema silent_services ''user-1'' 0 1 fresh_world = (st, w')" by fastforce
  obtain r v' where l: "list_extraction_jobs_paged silent_services 0 0 fresh_world = (r, v')" by fastforce
  from job_paging_bounded [OF a l] a show ?thesis by (simp add: fresh_world_def JOB_AWAIT_TIMEOUT_MS_def)
qed

end
