(* ===== verification/Vp_Canonicalize.thy ===== *)
theory Vp_Canonicalize
  imports Vp_Await
begin

text \<open>
  The language-model pass over an ingested text (\<open>canonicalize.rs\<close>, and \<open>apply_llm_canonicalize\<close> of
  \<open>handlers.rs\<close>): sanitising the catalogue names, the prompt, the size caps, reading the reply. The
  HTTP call is the service \<open>sv_gemini\<close>. The caps are computed with single-precision floats; below the
  text limit every value is exact, so they are written with integers.
\<close>

definition MAX_TEXT_BYTES :: nat where "MAX_TEXT_BYTES = 32 * 1024"
definition MAX_CATALOGUE_ENTRIES :: nat where "MAX_CATALOGUE_ENTRIES = 200"
definition OUTPUT_ABSOLUTE_MIN_BYTES :: nat where "OUTPUT_ABSOLUTE_MIN_BYTES = 256"
definition OUTPUT_BYTES_PER_TOKEN_FLOOR :: nat where "OUTPUT_BYTES_PER_TOKEN_FLOOR = 2"
definition MAX_CATALOGUE_NAME_BYTES :: nat where "MAX_CATALOGUE_NAME_BYTES = 128"

datatype canonicalize_error = CzHttp | CzApi nat | CzParse | CzOutputRejected

section \<open>Names and prompt\<close>

text \<open>\<open>char::is_control\<close> (the category Cc) and the two separators, by their encodings.\<close>

definition is_line_like :: "rchar \<Rightarrow> bool" where
  "is_line_like c \<longleftrightarrow> (let v = map (of_char :: char \<Rightarrow> nat) c in
     (\<exists>b \<in> {0..31}. v = [b]) \<or> v = [127] \<or> (\<exists>b \<in> {128..159}. v = [194, b])
     \<or> v = [226, 128, 168] \<or> v = [226, 128, 169])"

fun sanitize_loop :: "string \<Rightarrow> rchar list \<Rightarrow> string" where
  "sanitize_loop buf [] = buf"
| "sanitize_loop buf (ch # cs) =
     (let replacement = (if is_line_like ch then '' '' else ch) in
      if length buf + length replacement > MAX_CATALOGUE_NAME_BYTES then buf
      else sanitize_loop (buf @ replacement) cs)"

definition sanitize_catalogue_name :: "string \<Rightarrow> string" where
  "sanitize_catalogue_name raw = trim (sanitize_loop [] (chars raw))"

definition sanitize_catalogue_names_for_prompt :: "string list \<Rightarrow> string list" where
  "sanitize_catalogue_names_for_prompt names =
     take MAX_CATALOGUE_ENTRIES (filter (\<lambda>n. n \<noteq> []) (map sanitize_catalogue_name names))"

definition nl :: string where "nl = [CHR 0x0A]"

definition prompt_intro :: string where
  "prompt_intro = join_with nl
    [''You are a text canonicalization helper for a knowledge graph ingest pipeline.'', [],
     ''You will be given:'',
     ''1. A list of canonical entity names that already exist in the graph.'',
     ''2. A piece of text that is about to be ingested.'', [],
     ''Your task is to rewrite the text so that any clear reference to an existing canonical entity uses the canonical name verbatim. This includes:'',
     ''- Typos (e.g. 'vegpunk' -> 'Vegapunk')'',
     ''- Possessives and particles (e.g. 'Vegapunk's', 'Vegapunk'' @ [CHR 0xE3, CHR 0x81, CHR 0xAE, CHR 0x27, CHR 0x29],
     ''- Abbreviations and alternate spellings that obviously refer to the canonical entity'', [],
     ''Strict rules:'',
     ''- Only rewrite when you are highly confident (>90%) that the reference matches a listed entity.'',
     ''- Do NOT add or remove information, summarize, or rephrase non-entity content.'',
     ''- Preserve all other words, punctuation, line breaks, and formatting verbatim.'',
     ''- If you are unsure, leave the word unchanged.'',
     ''- Output ONLY the rewritten text. No commentary, no markdown fences, no preamble.'', [],
     ''Canonical entities:'', []]"

definition build_prompt :: "string list \<Rightarrow> string \<Rightarrow> string" where
  "build_prompt sanitized_names tx =
     prompt_intro @ join_with nl (map (\<lambda>n. ''- '' @ n) sanitized_names)
     @ nl @ nl @ ''Text:'' @ nl @ tx @ nl @ nl @ ''Rewritten text:''"

section \<open>Size caps and the reply\<close>

definition output_cap_for :: "string \<Rightarrow> nat" where
  "output_cap_for input = max OUTPUT_ABSOLUTE_MIN_BYTES ((3 * length input + 1) div 2)"

definition request_max_output_tokens_for :: "nat \<Rightarrow> nat" where
  "request_max_output_tokens_for cap = min (max (cap div OUTPUT_BYTES_PER_TOKEN_FLOOR) 1) 32768"

definition validate_output_size :: "string \<Rightarrow> string \<Rightarrow> canonicalize_error + unit" where
  "validate_output_size input output = guardE (length output \<le> output_cap_for input) CzOutputRejected"

text \<open>One step of a JSON pointer, for a field name and for the index 0.\<close>

definition ptr_field :: "string \<Rightarrow> json \<Rightarrow> json option" where
  "ptr_field k v = json_get v k"

definition ptr_zero :: "json \<Rightarrow> json option" where
  "ptr_zero v = (case v of JObj m \<Rightarrow> obj_get m ''0'' | JArr (x # _) \<Rightarrow> Some x | _ \<Rightarrow> None)"

definition first_candidate :: "json \<Rightarrow> json option" where
  "first_candidate payload = Option.bind (ptr_field ''candidates'' payload) ptr_zero"

definition extract_text :: "json \<Rightarrow> canonicalize_error + string" where
  "extract_text payload =
     (if Option.bind (Option.bind (first_candidate payload) (ptr_field ''finishReason'')) as_str = Some ''MAX_TOKENS''
      then Inl CzOutputRejected
      else bindE (of_option CzParse
               (Option.bind (Option.bind (Option.bind (first_candidate payload) (ptr_field ''content'')) (ptr_field ''parts''))
                  as_array)) (\<lambda>parts.
             let out = concat (map (\<lambda>p. case Option.bind (json_get p ''text'') as_str of None \<Rightarrow> [] | Some t \<Rightarrow> t) parts) in
             if out = [] then Inl CzParse else Inr out))"

section \<open>The call\<close>

text \<open>A call under an optional \<open>tokio::time::timeout\<close>; \<open>None\<close> when it is cancelled.\<close>

definition send_opt :: "services \<Rightarrow> nat option \<Rightarrow> request \<Rightarrow> (history \<Rightarrow> 'a) \<Rightarrow> 'a option run" where
  "send_opt sv limit q f = (case limit of
       None \<Rightarrow> seqR (send sv q f) (\<lambda>x. Pair (Some x))
     | Some l \<Rightarrow> send_within sv l q f)"

definition read_reply :: "string \<Rightarrow> http_error + json \<Rightarrow> canonicalize_error + string" where
  "read_reply tx resp = (case resp of
       Inl HttpFailed \<Rightarrow> Inl CzHttp
     | Inl (HttpStatus n) \<Rightarrow> Inl (CzApi n)
     | Inl HttpNotJson \<Rightarrow> Inl CzParse
     | Inr payload \<Rightarrow> bindE (extract_text payload) (\<lambda>output. bindE (validate_output_size tx output) (\<lambda>_. Inr output)))"

definition canonicalize ::
  "services \<Rightarrow> nat option \<Rightarrow> string list \<Rightarrow> string \<Rightarrow> (canonicalize_error + string) option run" where
  "canonicalize sv limit names tx =
     (if names = [] then Pair (Some (Inr tx))
      else if blank tx then Pair (Some (Inr tx))
      else if length tx > MAX_TEXT_BYTES then Pair (Some (Inr tx))
      else let sanitized = sanitize_catalogue_names_for_prompt names in
        if sanitized = [] then Pair (Some (Inr tx))
        else let prompt = build_prompt sanitized tx;
                 tokens = request_max_output_tokens_for (output_cap_for tx)
             in seqR (send_opt sv limit (RGemini prompt tokens) (\<lambda>h. sv_gemini sv h prompt tokens))
                  (\<lambda>r. Pair (map_option (read_reply tx) r)))"

text \<open>\<open>apply_llm_canonicalize\<close> when a canonicalizer is configured: every failure keeps the text.\<close>

definition apply_llm_canonicalize ::
  "services \<Rightarrow> bool \<Rightarrow> nat option \<Rightarrow> string list \<Rightarrow> string \<Rightarrow> string option run" where
  "apply_llm_canonicalize sv present limit names tx =
     (if \<not> present then Pair (Some tx)
      else if names = [] \<or> blank tx then Pair (Some tx)
      else seqR (canonicalize sv limit names tx)
             (\<lambda>r. Pair (map_option (\<lambda>res. case res of Inl e \<Rightarrow> tx | Inr out \<Rightarrow> out) r)))"

section \<open>Facts\<close>

lemma sanitize_loop_chars:
  "list_all utf8_char cs \<Longrightarrow> utf8 buf \<Longrightarrow> list_all (\<lambda>c. \<not> is_line_like c) (chars buf) \<Longrightarrow> length buf \<le> MAX_CATALOGUE_NAME_BYTES \<Longrightarrow>
     utf8 (sanitize_loop buf cs) \<and> list_all (\<lambda>c. \<not> is_line_like c) (chars (sanitize_loop buf cs))
     \<and> length (sanitize_loop buf cs) \<le> MAX_CATALOGUE_NAME_BYTES"
proof (induction buf cs rule: sanitize_loop.induct)
  case (2 buf ch cs)
  let ?r = "if is_line_like ch then '' '' else ch"
  have sp: "utf8_char '' ''" "\<not> is_line_like '' ''"
    by (simp_all add: utf8_char_def is_cont_def cont_count_def is_line_like_def)
  then have r: "utf8_char ?r" "\<not> is_line_like ?r" using 2(2) by simp_all
  show ?case
  proof (cases "length buf + length ?r > MAX_CATALOGUE_NAME_BYTES")
    case True
    with 2 show ?thesis by (simp add: Let_def)
  next
    case False
    have cr: "chars ?r = [?r]" using r(1) by (rule chars_char)
    have "chars (buf @ ?r) = chars buf @ [?r]"
      using chars_append [of ?r buf] utf8_char_hd [OF r(1)] cr by simp
    moreover have "utf8 ?r" using r(1) cr by (simp add: utf8_def)
    ultimately have "utf8 (buf @ ?r)" "list_all (\<lambda>c. \<not> is_line_like c) (chars (buf @ ?r))"
      using 2(3,4) r(2) utf8_append by simp_all
    with "2.IH" [OF refl False] False 2(2) show ?thesis by (simp add: Let_def)
  qed
qed simp

lemma trim_chars:
  assumes "utf8 s"
  shows "set (chars (trim s)) \<subseteq> set (chars s)" "length (trim s) \<le> length s"
proof -
  let ?a = "dropWhile is_whitespace (chars s)"
  let ?b = "rev (dropWhile is_whitespace (rev ?a))"
  have sub: "set ?b \<subseteq> set (chars s)" by (metis set_dropWhileD set_rev subsetI)
  then have "list_all utf8_char ?b" using assms by (auto simp: utf8_def list_all_iff)
  from chars_concat [OF this] have "chars (trim s) = ?b" by (simp add: trim_def)
  with sub show "set (chars (trim s)) \<subseteq> set (chars s)" by simp
  have d: "length (concat (dropWhile P cs)) \<le> length (concat cs)" for P and cs :: "string list"
    by (induction cs) auto
  have rl: "length (concat (rev cs)) = length (concat cs)" for cs :: "string list"
    by (simp add: length_concat rev_map [symmetric] sum_list_rev)
  have "length (concat ?b) = length (concat (dropWhile is_whitespace (rev ?a)))" by (rule rl)
  also have "\<dots> \<le> length (concat (rev ?a))" by (rule d)
  also have "\<dots> = length (concat ?a)" by (rule rl)
  also have "\<dots> \<le> length (concat (chars s))" by (rule d)
  finally show "length (trim s) \<le> length s" by (simp add: trim_def)
qed

lemma sanitize_name_ok:
  assumes "utf8 raw"
  shows "length (sanitize_catalogue_name raw) \<le> MAX_CATALOGUE_NAME_BYTES"
    "list_all (\<lambda>c. \<not> is_line_like c) (chars (sanitize_catalogue_name raw))"
proof -
  from assms sanitize_loop_chars [of "chars raw" "[]"]
  have s: "utf8 (sanitize_loop [] (chars raw))" "list_all (\<lambda>c. \<not> is_line_like c) (chars (sanitize_loop [] (chars raw)))"
    "length (sanitize_loop [] (chars raw)) \<le> MAX_CATALOGUE_NAME_BYTES" by (simp_all add: utf8_def)
  from trim_chars [OF s(1)] s(2,3)
  show "length (sanitize_catalogue_name raw) \<le> MAX_CATALOGUE_NAME_BYTES"
    "list_all (\<lambda>c. \<not> is_line_like c) (chars (sanitize_catalogue_name raw))"
    by (auto simp: sanitize_catalogue_name_def list_all_iff)
qed

lemma read_reply_size: "read_reply tx resp = Inr out \<Longrightarrow> length out \<le> output_cap_for tx"
  by (auto simp: read_reply_def validate_output_size_def split: sum.splits http_error.splits)

lemma length_join_le:
  "\<forall>x \<in> set xs. length x \<le> m \<Longrightarrow> length (join_with nl xs) \<le> length xs * Suc m"
proof (induction xs)
  case (Cons x xs)
  then have "length (join_with nl xs) \<le> length xs * Suc m" "length x \<le> m" by simp_all
  then show ?case by (cases xs) (simp_all add: nl_def)
qed simp

lemma length_intro: "length prompt_intro \<le> 1500"
  by (simp add: prompt_intro_def nl_def)

text \<open>The prompt is long as its fixed text, its names and the text it is about.\<close>

lemma length_prompt:
  assumes "length ns \<le> 200" "\<forall>n \<in> set ns. length n \<le> 128" "length tx \<le> MAX_TEXT_BYTES"
  shows "length (build_prompt ns tx) \<le> 60 * 1024"
proof -
  have "length (join_with nl (map (\<lambda>n. ''- '' @ n) ns)) \<le> length ns * Suc 130"
    using length_join_le [of "map (\<lambda>n. ''- '' @ n) ns" 130] assms(2) by simp
  then have "length (join_with nl (map (\<lambda>n. ''- '' @ n) ns)) \<le> 26200"
    using assms(1) by simp
  moreover have "length (build_prompt ns tx) = length prompt_intro + length (join_with nl (map (\<lambda>n. ''- '' @ n) ns)) + length tx + 25"
    by (simp add: build_prompt_def nl_def)
  ultimately show ?thesis using assms(3) length_intro by (simp add: MAX_TEXT_BYTES_def)
qed

section \<open>Property\<close>

text \<open>C31. The text that goes on after the language-model pass is either the text as it was or a reply no longer
  than one and a half times it (256 bytes at least). At most one call is made, and only for a text that is not
  blank and of at most 32 KiB: its prompt has at most 60 KiB, its token bound never allows more than half the size
  of the reply in tokens, and every name in the prompt is at most 128 bytes long and free of line breaks and control
  characters, at most 200 of them. No failure of the call stops the ingestion.\<close>

theorem canonicalize_bounded:
  assumes "apply_llm_canonicalize sv present limit names tx w = (r, w')" "\<forall>n \<in> set names. utf8 n"
  shows "(\<forall>out. r = Some out \<longrightarrow> out = tx \<or> length out \<le> max 256 ((3 * length tx + 1) div 2))
    \<and> (limit = None \<longrightarrow> r \<noteq> None)
    \<and> (wd_log w' = wd_log w \<or> (\<exists>ns tokens. wd_log w' = wd_log w @ [RGemini (build_prompt ns tx) tokens]
         \<and> length tx \<le> 32 * 1024 \<and> \<not> blank tx \<and> length (build_prompt ns tx) \<le> 60 * 1024
         \<and> 2 * tokens \<le> max 256 ((3 * length tx + 1) div 2) \<and> ns \<noteq> [] \<and> length ns \<le> 200
         \<and> (\<forall>n \<in> set ns. n \<noteq> [] \<and> length n \<le> 128 \<and> list_all (\<lambda>c. \<not> is_line_like c) (chars n))))"
proof -
  let ?ns = "sanitize_catalogue_names_for_prompt names"
  let ?t = "request_max_output_tokens_for (output_cap_for tx)"
  have names: "length ?ns \<le> 200 \<and> (\<forall>n \<in> set ?ns. n \<noteq> [] \<and> length n \<le> 128 \<and> list_all (\<lambda>c. \<not> is_line_like c) (chars n))"
    using assms(2) sanitize_name_ok
    by (auto simp: sanitize_catalogue_names_for_prompt_def MAX_CATALOGUE_ENTRIES_def MAX_CATALOGUE_NAME_BYTES_def
        dest!: in_set_takeD)
  have tokens: "2 * ?t \<le> max 256 ((3 * length tx + 1) div 2)"
    by (auto simp: request_max_output_tokens_for_def output_cap_for_def OUTPUT_ABSOLUTE_MIN_BYTES_def
        OUTPUT_BYTES_PER_TOKEN_FLOOR_def)
  consider "r = Some tx" "w' = w" | "present" "names \<noteq> []" "\<not> blank tx" "length tx \<le> 32 * 1024" "length tx \<le> MAX_TEXT_BYTES" "?ns \<noteq> []"
    using assms(1) by (auto simp: apply_llm_canonicalize_def canonicalize_def Let_def seqR_def MAX_TEXT_BYTES_def split: if_splits)
  then show ?thesis
  proof cases
    case 2
    obtain x v where s: "send_opt sv limit (RGemini (build_prompt ?ns tx) ?t)
        (\<lambda>h. sv_gemini sv h (build_prompt ?ns tx) ?t) w = (x, v)" by fastforce
    with 2 assms(1) have r: "w' = v"
      "r = map_option (\<lambda>y. case read_reply tx y of Inl e \<Rightarrow> tx | Inr out \<Rightarrow> out) x"
      by (auto simp: apply_llm_canonicalize_def canonicalize_def Let_def seqR_def option.map_comp comp_def)
    have log: "wd_log v = wd_log w @ [RGemini (build_prompt ?ns tx) ?t]" and some: "limit = None \<Longrightarrow> x \<noteq> None"
      using s by (auto simp: send_opt_def send_def send_within_def seqR_def Let_def split: option.splits)
    have "out = tx \<or> length out \<le> max 256 ((3 * length tx + 1) div 2)" if "r = Some out" for out
    proof (cases x)
      case (Some y)
      with that r(2) read_reply_size [of tx y] show ?thesis
        by (cases "read_reply tx y") (auto simp: output_cap_for_def OUTPUT_ABSOLUTE_MIN_BYTES_def)
    qed (use that r(2) in simp)
    moreover have "length (build_prompt ?ns tx) \<le> 60 * 1024" using length_prompt names 2 by blast
    ultimately show ?thesis using r log some names tokens 2 by auto
  qed auto
qed

lemma call_made:
  assumes "names \<noteq> []" "\<not> blank tx" "sanitize_catalogue_names_for_prompt names \<noteq> []"
    "apply_llm_canonicalize sv True None names tx w = (r, w')" "length tx \<le> MAX_TEXT_BYTES" "\<forall>h p t. sv_gemini sv h p t = Inl e"
  shows "r = Some tx \<and> wd_log w' \<noteq> []"
  using assms by (auto simp: apply_llm_canonicalize_def canonicalize_def seqR_def send_opt_def send_def Let_def read_reply_def
      split: http_error.splits)

theorem canonicalize_bounded_witness:
  "case apply_llm_canonicalize silent_services True None [''Tea''] ''tae'' fresh_world of (r, w') \<Rightarrow>
     r = Some ''tae'' \<and> (\<exists>ns tokens. wd_log w' = [RGemini (build_prompt ns ''tae'') tokens]
       \<and> length (build_prompt ns ''tae'') \<le> 60 * 1024 \<and> 2 * tokens \<le> 256 \<and> ns \<noteq> [])"
proof -
  obtain r w' where a: "apply_llm_canonicalize silent_services True None [''Tea''] ''tae'' fresh_world = (r, w')" by fastforce
  have b: "\<not> blank ''tae''" by (simp add: blank_def trim_def is_whitespace_def is_cont_def)
  have "chars ''Tea'' = [''T'', ''e'', ''a'']" by (simp add: is_cont_def)
  moreover have "\<not> is_line_like ''T''" "\<not> is_line_like ''e''" "\<not> is_line_like ''a''" by (simp_all add: is_line_like_def)
  moreover have "trim ''Tea'' = ''Tea''" by (simp add: trim_def is_whitespace_def is_cont_def)
  ultimately have "sanitize_catalogue_names_for_prompt [''Tea''] \<noteq> []"
    by (simp add: sanitize_catalogue_names_for_prompt_def sanitize_catalogue_name_def MAX_CATALOGUE_ENTRIES_def MAX_CATALOGUE_NAME_BYTES_def Let_def)
  from call_made [OF _ b this a] have "r = Some ''tae''" "wd_log w' \<noteq> []"
    by (simp_all add: MAX_TEXT_BYTES_def silent_services_def)
  moreover have "utf8 ''Tea''" by (simp add: utf8_def utf8_char_def is_cont_def cont_count_def)
  ultimately show ?thesis using canonicalize_bounded [OF a] a by (fastforce simp: fresh_world_def)
qed

end
