(* ===== verification/Vp_Handlers.thy ===== *)
theory Vp_Handlers
  imports Vp_Canonicalize
begin

text \<open>
  The ten tools (\<open>mcp/tools/handlers.rs\<close>) and their dispatcher (\<open>mcp/tools/mod.rs\<close>). A handler is an
  action over the world whose early return is the answer it gives at once; \<open>app\<close> holds the
  configuration and the parameters of the libraries. Two calls joined by \<open>tokio::join!\<close> are sent one
  after the other and take as long as the slower one. A panic is an early end of the handler too;
  \<open>ap_overflow_checks\<close> says whether the build checks overflows (the deployed release build does not). The wording of an argument error is \<open>ap_reason\<close>.
\<close>

record app =
  ap_sv :: services
  ap_shared_schema :: string
  ap_llm :: bool
  ap_show :: "json \<Rightarrow> string"
  ap_num :: "32 word \<Rightarrow> json"
  ap_alnum :: "rchar \<Rightarrow> bool"
  ap_lower_char :: "rchar \<Rightarrow> rchar list"
  ap_lower :: "string \<Rightarrow> string"
  ap_reason :: "arg_error \<Rightarrow> string"
  ap_epoch :: int
  ap_overflow_checks :: bool

record auth_user =
  au_id :: string
  au_schema :: string

datatype early = Reply json | Panic panic

type_synonym 'a handler = "(world, early, 'a) act"

section \<open>Building blocks\<close>

definition runR :: "'a run \<Rightarrow> 'a handler" where
  "runR m w = (case m w of (x, w') \<Rightarrow> (Inr x, w'))"

definition invalid_args_content :: "app \<Rightarrow> string \<Rightarrow> arg_error \<Rightarrow> json" where
  "invalid_args_content ap meth e =
     error_content (''invalid arguments for '' @ quoted meth @ '': '' @ ap_reason ap e)"

definition checked :: "app \<Rightarrow> string \<Rightarrow> arg_error + 'a \<Rightarrow> 'a handler" where
  "checked ap meth r = liftE (case r of Inl e \<Rightarrow> Inl (Reply (invalid_args_content ap meth e)) | Inr x \<Rightarrow> Inr x)"

definition or_fail :: "string \<Rightarrow> status + 'a \<Rightarrow> 'a handler" where
  "or_fail meth r = liftE (case r of Inl st \<Rightarrow> Inl (Reply (tonic_error_content meth st)) | Inr x \<Rightarrow> Inr x)"

definition or_panic :: "panic + 'a \<Rightarrow> 'a handler" where
  "or_panic r = liftE (case r of Inl p \<Rightarrow> Inl (Panic p) | Inr x \<Rightarrow> Inr x)"

definition join2 :: "services \<Rightarrow> request \<Rightarrow> (history \<Rightarrow> 'a) \<Rightarrow> request \<Rightarrow> (history \<Rightarrow> 'b) \<Rightarrow> ('a \<times> 'b) run" where
  "join2 sv p f q g w =
     (let h = wd_log w; h' = h @ [p] in
      ((f h, g h'), w\<lparr>wd_log := h' @ [q], wd_time := wd_time w + max (sv_delay sv h) (sv_delay sv h')\<rparr>))"

definition best_effort :: "status + 'a \<Rightarrow> 'a option" where
  "best_effort r = (case r of Inl _ \<Rightarrow> None | Inr x \<Rightarrow> Some x)"

definition done_with :: "app \<Rightarrow> json \<Rightarrow> json handler" where
  "done_with ap v = okA (success_content (ap_show ap) v)"

section \<open>search\<close>

text \<open>Recording an identifier for \<open>feedback\<close>: \<open>None\<close> when there is none, otherwise whether it is the caller's.\<close>

definition record_search :: "auth_user \<Rightarrow> string option \<Rightarrow> bool option run" where
  "record_search u sid w = (case sid of
       None \<Rightarrow> (None, w)
     | Some i \<Rightarrow> if i = [] then (None, w)
                 else (case record_owner Search i (au_id u) w of (r, w') \<Rightarrow> (Some (r = Inr True), w')))"

definition pattern_json :: "(32 word \<Rightarrow> json) \<Rightarrow> similar_pattern \<Rightarrow> json" where
  "pattern_json num sp = JObj [(''source_project'', JStr (sp_source_project sp)),
     (''structural_similarity'', num (sp_similarity sp)),
     (''nodes'', JArr (map (search_result_item_json num) (sp_nodes sp)))]"

definition search_answer ::
  "app \<Rightarrow> int option \<Rightarrow> int \<Rightarrow> search_response \<Rightarrow> search_response option \<Rightarrow> bool option \<Rightarrow> bool option \<Rightarrow> json" where
  "search_answer ap limit tot p s prec srec =
     JObj [(''search_id'', JStr (sp_search_id p)),
       (''search_ids'', JObj [(''personal'', JStr (sp_search_id p)),
                             (''shared'', json_opt JStr (map_option sp_search_id s))]),
       (''ownership_recorded'', JObj [(''personal'', json_opt JBool prec), (''shared'', json_opt JBool srec)]),
       (''total_count'', JInt tot),
       (''results'', JArr (map (search_result_item_json (ap_num ap))
          (merge_search limit (sp_results p) (case s of None \<Rightarrow> [] | Some r \<Rightarrow> sp_results r)))),
       (''similar_patterns'', JArr (map (pattern_json (ap_num ap))
          (sp_similar_patterns p @ (case s of None \<Rightarrow> [] | Some r \<Rightarrow> sp_similar_patterns r))))]"

definition tool_search :: "app \<Rightarrow> auth_user \<Rightarrow> json \<Rightarrow> json handler" where
  "tool_search ap u args =
     seqA (checked ap ''search'' (build_search_request (au_schema u) args)) (\<lambda>personal_req.
     let shared_req = personal_req\<lparr>sr_schema := ap_shared_schema ap\<rparr> in
     seqA (runR (join2 (ap_sv ap) (RSearch personal_req) (\<lambda>h. sv_search (ap_sv ap) h personal_req)
                   (RSearch shared_req) (\<lambda>h. sv_search (ap_sv ap) h shared_req))) (\<lambda>ps.
     seqA (or_fail ''Search (personal)'' (fst ps)) (\<lambda>p.
     let s = best_effort (snd ps) in
     seqA (runR (record_search u (Some (sp_search_id p)))) (\<lambda>prec.
     seqA (runR (record_search u (map_option sp_search_id s))) (\<lambda>srec.
     seqA (or_panic (add_i32 (ap_overflow_checks ap) (sp_total_count p)
             (case s of None \<Rightarrow> 0 | Some r \<Rightarrow> sp_total_count r))) (\<lambda>tot.
     done_with ap (search_answer ap (sr_top_k personal_req) tot p s prec srec)))))))"

section \<open>Schemas and statistics\<close>

definition tool_get_schema :: "app \<Rightarrow> auth_user \<Rightarrow> json handler" where
  "tool_get_schema ap u =
     seqA (runR (join2 (ap_sv ap) (RGetSchema (au_schema u)) (\<lambda>h. sv_get_schema (ap_sv ap) h (au_schema u))
                   (RGetSchema (ap_shared_schema ap)) (\<lambda>h. sv_get_schema (ap_sv ap) h (ap_shared_schema ap)))) (\<lambda>ps.
     seqA (or_fail ''GetSchema (personal)'' (fst ps)) (\<lambda>p.
     done_with ap (JObj [(''name'', JStr (sm_name p)), (''schema_yaml'', JStr (sm_yaml p)), (''version'', JInt (sm_version p)),
       (''description'', JStr (sm_description p)),
       (''shared'', json_opt (\<lambda>s. JObj [(''name'', JStr (sm_name s)), (''schema_yaml'', JStr (sm_yaml s)),
          (''version'', JInt (sm_version s)), (''description'', JStr (sm_description s))]) (best_effort (snd ps)))])))"

definition tool_list_schemas :: "app \<Rightarrow> auth_user \<Rightarrow> json handler" where
  "tool_list_schemas ap u =
     seqA (runR (send (ap_sv ap) RListSchemas (sv_list_schemas (ap_sv ap)))) (\<lambda>r.
     seqA (or_fail ''ListSchemas'' r) (\<lambda>schemas.
     done_with ap (JObj [(''schemas'', JArr (filter_schemas_for_user_and_shared schemas (au_schema u) (ap_shared_schema ap)))])))"

definition stats_json :: "stats_response \<Rightarrow> (string \<times> json) list" where
  "stats_json r = [(''node_count'', JInt (sr_node_count r)), (''edge_count'', JInt (sr_edge_count r)),
     (''vector_count'', JInt (sr_vector_count r)), (''community_count'', JInt (sr_community_count r))]"

definition tool_stats :: "app \<Rightarrow> auth_user \<Rightarrow> json \<Rightarrow> json handler" where
  "tool_stats ap u args =
     seqA (checked ap ''stats'' (build_get_stats_request (au_schema u) args)) (\<lambda>personal_req.
     let shared_req = personal_req\<lparr>gs_schema := Some (ap_shared_schema ap)\<rparr> in
     seqA (runR (join2 (ap_sv ap) (RGetStats personal_req) (\<lambda>h. sv_get_stats (ap_sv ap) h personal_req)
                   (RGetStats shared_req) (\<lambda>h. sv_get_stats (ap_sv ap) h shared_req))) (\<lambda>ps.
     seqA (or_fail ''GetStats (personal)'' (fst ps)) (\<lambda>p.
     done_with ap (JObj (stats_json p @ [(''shared'', json_opt (\<lambda>s. JObj (stats_json s)) (best_effort (snd ps)))])))))"

section \<open>Nodes and chains\<close>

definition node_json :: "node_result \<Rightarrow> json" where
  "node_json n = JObj [(''node_id'', JStr (nd_id n)), (''node_type'', JStr (nd_type n)),
     (''attributes'', JObj (map (\<lambda>(k, v). (k, JStr v)) (nd_attributes n)))]"

definition tool_query_nodes :: "app \<Rightarrow> auth_user \<Rightarrow> json \<Rightarrow> json handler" where
  "tool_query_nodes ap u args =
     seqA (checked ap ''query_nodes'' (build_query_nodes_request (au_schema u) args)) (\<lambda>req.
     let client_offset = max 0 (case qn_offset req of None \<Rightarrow> 0 | Some n \<Rightarrow> n);
         client_limit = qn_limit req;
         personal_req = req\<lparr>qn_offset := Some 0, qn_limit := fetch_limit client_offset client_limit\<rparr>;
         shared_req = personal_req\<lparr>qn_schema := ap_shared_schema ap\<rparr> in
     seqA (runR (join2 (ap_sv ap) (RQueryNodes personal_req) (\<lambda>h. sv_query_nodes (ap_sv ap) h personal_req)
                   (RQueryNodes shared_req) (\<lambda>h. sv_query_nodes (ap_sv ap) h shared_req))) (\<lambda>ps.
     seqA (or_fail ''QueryNodes (personal)'' (fst ps)) (\<lambda>p.
     let s = best_effort (snd ps) in
     seqA (or_panic (page_of client_offset client_limit (qr_nodes p) (case s of None \<Rightarrow> [] | Some r \<Rightarrow> qr_nodes r))) (\<lambda>nodes.
     seqA (or_panic (add_i32 (ap_overflow_checks ap) (qr_total_count p)
             (case s of None \<Rightarrow> 0 | Some r \<Rightarrow> qr_total_count r))) (\<lambda>tot.
     done_with ap (JObj [(''nodes'', JArr (map node_json nodes)), (''total_count'', JInt tot)]))))))"

definition link_json :: "chain_link \<Rightarrow> json" where
  "link_json l = JObj [(''node_id'', JStr (cl_node_id l)), (''node_type'', JStr (cl_node_type l)),
     (''display_text'', JStr (cl_display_text l)), (''edge_type'', json_opt JStr (cl_edge_type l)),
     (''depth'', JInt (cl_depth l)), (''timestamp'', json_opt JInt (cl_timestamp l))]"

definition tool_chain :: "app \<Rightarrow> auth_user \<Rightarrow> json \<Rightarrow> json handler" where
  "tool_chain ap u args =
     seqA (checked ap ''get_traceable_chain'' (build_get_traceable_chain_request (au_schema u) args)) (\<lambda>personal_req.
     let shared_req = personal_req\<lparr>tc_schema := Some (ap_shared_schema ap)\<rparr> in
     seqA (runR (join2 (ap_sv ap) (RChain personal_req) (\<lambda>h. sv_chain (ap_sv ap) h personal_req)
                   (RChain shared_req) (\<lambda>h. sv_chain (ap_sv ap) h shared_req))) (\<lambda>ps.
     seqA (liftE (case choose_chain (fst ps) (snd ps) of
              Inl (PersonalFailed st) \<Rightarrow> Inl (Reply (tonic_error_content ''GetTraceableChain (personal)'' st))
            | Inl (BothFailed st) \<Rightarrow> Inl (Reply (tonic_error_content ''GetTraceableChain'' st))
            | Inr r \<Rightarrow> Inr r)) (\<lambda>found.
     done_with ap (JObj [(''found_in'', JStr (fst found)), (''links'', JArr (map link_json (snd found)))]))))"

section \<open>feedback and get_job_status\<close>

definition owner_check :: "string \<Rightarrow> ownership_kind \<Rightarrow> string \<Rightarrow> auth_user \<Rightarrow> unit handler" where
  "owner_check tool k fid u =
     seqA (runR (verify k fid (au_id u))) (\<lambda>r. liftE (case r of
         Inr True \<Rightarrow> Inr ()
       | Inr False \<Rightarrow> Inl (Reply (ownership_denied_content tool))
       | Inl e \<Rightarrow> Inl (Reply (internal_error_content tool ''ownership check failed''))))"

definition tool_feedback :: "app \<Rightarrow> auth_user \<Rightarrow> json \<Rightarrow> json handler" where
  "tool_feedback ap u args =
     seqA (checked ap ''feedback'' (feedback_args args)) (\<lambda>req.
     seqA (owner_check ''feedback'' Search (fb_search_id req) u) (\<lambda>_.
     seqA (runR (send (ap_sv ap) (RFeedback req) (\<lambda>h. sv_feedback (ap_sv ap) h req))) (\<lambda>r.
     seqA (or_fail ''Feedback'' r) (\<lambda>_.
     done_with ap (JObj [(''ok'', JBool True)])))))"

definition tool_get_job_status :: "app \<Rightarrow> auth_user \<Rightarrow> json \<Rightarrow> json handler" where
  "tool_get_job_status ap u args =
     seqA (checked ap ''get_job_status'' (job_status_args args)) (\<lambda>msg_id.
     seqA (owner_check ''get_job_status'' Msg msg_id u) (\<lambda>_.
     seqA (runR (send (ap_sv ap) (RJobStatus msg_id) (\<lambda>h. sv_job_status (ap_sv ap) h msg_id))) (\<lambda>r.
     seqA (or_fail ''GetJobStatus'' r) (\<lambda>resp.
     done_with ap (JObj [(''msg_id'', JStr (jr_msg_id resp)), (''overall_status'', JStr (jr_overall_status resp)),
       (''jobs'', JArr (map (\<lambda>j. JObj [(''job_type'', JStr (ji_job_type j)), (''status'', JStr (ji_status j)),
          (''error'', json_opt JStr (ji_error j))]) (jr_jobs resp)))])))))"

section \<open>ingest and ingest_raw\<close>

definition DEDUP_SCAN_NODE_TYPES :: "string list" where
  "DEDUP_SCAN_NODE_TYPES = [''Project'', ''Person'', ''Specification'', ''Topic'']"
definition DEDUP_FETCH_LIMIT_PER_TYPE :: int where "DEDUP_FETCH_LIMIT_PER_TYPE = 1000"
definition INGEST_LLM_CANONICALIZE_MAX_MESSAGES :: nat where "INGEST_LLM_CANONICALIZE_MAX_MESSAGES = 16"
definition INGEST_LLM_TOTAL_BUDGET_MS :: nat where "INGEST_LLM_TOTAL_BUDGET_MS = 60000"

definition entity_query :: "string \<Rightarrow> string \<Rightarrow> query_nodes_request" where
  "entity_query schema node_type = \<lparr>qn_schema = schema, qn_node_type = node_type, qn_filters = [], qn_sort_by = None,
     qn_sort_order = None, qn_limit = Some DEDUP_FETCH_LIMIT_PER_TYPE, qn_offset = Some 0\<rparr>"

text \<open>The names in an answer of \<open>fetch_entity_names\<close>; a failed call gives none.\<close>

definition entity_names :: "status + query_nodes_response \<Rightarrow> string list" where
  "entity_names r = (case r of Inl _ \<Rightarrow> []
     | Inr resp \<Rightarrow> filter (\<lambda>n. \<not> blank n) (List.map_filter (\<lambda>n. map_of (nd_attributes n) ''name'') (qr_nodes resp)))"

fun collect_types :: "app \<Rightarrow> auth_user \<Rightarrow> string list \<Rightarrow> dedup_catalogue \<Rightarrow> dedup_catalogue run" where
  "collect_types ap u [] cat = Pair cat"
| "collect_types ap u (ty # tys) cat =
     seqR (join2 (ap_sv ap)
        (RQueryNodes (entity_query (ap_shared_schema ap) ty)) (\<lambda>h. sv_query_nodes (ap_sv ap) h (entity_query (ap_shared_schema ap) ty))
        (RQueryNodes (entity_query (au_schema u) ty)) (\<lambda>h. sv_query_nodes (ap_sv ap) h (entity_query (au_schema u) ty)))
     (\<lambda>sp. collect_types ap u tys
        \<lparr>dc_shared = dc_shared cat @ map (\<lambda>n. entity_new (ap_lower ap) n ty (ap_shared_schema ap)) (entity_names (fst sp)),
         dc_personal = dc_personal cat @ map (\<lambda>n. entity_new (ap_lower ap) n ty (au_schema u)) (entity_names (snd sp))\<rparr>)"

definition collect_dedup_catalogue :: "app \<Rightarrow> auth_user \<Rightarrow> dedup_catalogue run" where
  "collect_dedup_catalogue ap u = collect_types ap u DEDUP_SCAN_NODE_TYPES \<lparr>dc_shared = [], dc_personal = []\<rparr>"

definition should_run_llm_canonicalize :: "bool \<Rightarrow> nat \<Rightarrow> bool" where
  "should_run_llm_canonicalize present n_messages \<longleftrightarrow> present \<and> n_messages \<le> INGEST_LLM_CANONICALIZE_MAX_MESSAGES"

fun canonical_names :: "string list \<Rightarrow> entity_ref list \<Rightarrow> string list" where
  "canonical_names out [] = out"
| "canonical_names out (e # es) =
     (if length out \<ge> MAX_CATALOGUE_ENTRIES then out
      else let name = trim (er_name e) in
        if name = [] then canonical_names out es
        else if name \<in> set out then canonical_names out es
        else canonical_names (out @ [name]) es)"

definition catalogue_canonical_names :: "dedup_catalogue \<Rightarrow> string list" where
  "catalogue_canonical_names cat = canonical_names [] (dc_shared cat @ dc_personal cat)"

definition shared_dedup_block_content :: "string \<Rightarrow> entity_ref \<Rightarrow> json" where
  "shared_dedup_block_content meth hit = error_content (meth @ '' blocked: '' @ quoted (er_name hit) @ '' ('' @ er_node_type hit
     @ '') already exists in schema '' @ quoted (er_schema hit)
     @ ''. Reference the existing entity instead of re-ingesting it; this avoids cross-schema duplication.'')"

text \<open>The pre-check of one text: the text to go on with, or the answer that blocks it.\<close>

definition pre_checked :: "app \<Rightarrow> string \<Rightarrow> dedup_catalogue \<Rightarrow> string \<Rightarrow> early + string" where
  "pre_checked ap meth cat tx =
     (case scan_text_with_catalogue (ap_alnum ap) (ap_lower_char ap) (ap_lower ap) cat tx of
        Inl e \<Rightarrow> Inl (Panic e)
      | Inr (BlockedByShared hit) \<Rightarrow> Inl (Reply (shared_dedup_block_content meth hit))
      | Inr (Rewritten new_text rewrites) \<Rightarrow> Inr new_text
      | Inr Proceed \<Rightarrow> Inr tx)"

text \<open>The language-model pass over one message within what is left of the budget.\<close>

definition llm_pass :: "app \<Rightarrow> nat \<Rightarrow> string list \<Rightarrow> string \<Rightarrow> bool \<Rightarrow> (string \<times> bool) run" where
  "llm_pass ap deadline names tx exhausted w =
     (if exhausted then ((tx, True), w)
      else if deadline - wd_time w = 0 then ((tx, True), w)
      else case apply_llm_canonicalize (ap_sv ap) (ap_llm ap) (Some (deadline - wd_time w)) names tx w of
             (Some new_text, w') \<Rightarrow> ((new_text, False), w')
           | (None, w') \<Rightarrow> ((tx, True), w'))"

fun ingest_messages ::
  "app \<Rightarrow> dedup_catalogue \<Rightarrow> string list \<Rightarrow> bool \<Rightarrow> nat \<Rightarrow> nat \<Rightarrow> bool \<Rightarrow> ingest_message list \<Rightarrow> ingest_message list handler" where
  "ingest_messages ap cat names enabled deadline i exhausted [] = okA []"
| "ingest_messages ap cat names enabled deadline i exhausted (m # ms) =
     seqA (liftE (pre_checked ap (''ingest (messages['' @ show_nat i @ ''])'') cat (im_text m))) (\<lambda>tx.
     seqA (runR (if enabled then llm_pass ap deadline names tx exhausted else Pair (tx, exhausted))) (\<lambda>te.
     seqA (ingest_messages ap cat names enabled deadline (Suc i) (snd te) ms) (\<lambda>rest.
     okA (m\<lparr>im_text := fst te\<rparr> # rest))))"

definition tool_ingest :: "app \<Rightarrow> auth_user \<Rightarrow> json \<Rightarrow> json handler" where
  "tool_ingest ap u args =
     seqA (checked ap ''ingest'' (build_ingest_request (au_schema u) args)) (\<lambda>request.
     seqA (runR (collect_dedup_catalogue ap u)) (\<lambda>cat.
     let enabled = should_run_llm_canonicalize (ap_llm ap) (length (ir_messages request));
         names = (if enabled then catalogue_canonical_names cat else []) in
     seqA (runR (\<lambda>w. (wd_time w + INGEST_LLM_TOTAL_BUDGET_MS, w))) (\<lambda>llm_deadline.
     seqA (ingest_messages ap cat names enabled llm_deadline 0 False (ir_messages request)) (\<lambda>messages.
     let request' = request\<lparr>ir_messages := messages\<rparr> in
     seqA (runR (\<lambda>w. (ap_epoch ap + int (wd_time w), w))) (\<lambda>since_ms.
     seqA (runR (send (ap_sv ap) (RIngest request') (\<lambda>h. sv_ingest (ap_sv ap) h request'))) (\<lambda>r.
     seqA (or_fail ''Ingest'' r) (\<lambda>resp.
     seqA (runR (await_extraction_jobs_for_schema (ap_sv ap) (au_schema u) since_ms (ig_ingested_count resp))) (\<lambda>st.
     done_with ap (JObj [(''ingested_count'', JInt (ig_ingested_count resp)), (''job_id'', json_opt JStr (ig_job_id resp)),
       (''await_status'', JStr (await_as_str st)), (''await_semantics'', JStr ''lower-bound'')])))))))))"

definition tool_ingest_raw :: "app \<Rightarrow> auth_user \<Rightarrow> json \<Rightarrow> json handler" where
  "tool_ingest_raw ap u args =
     seqA (checked ap ''ingest_raw'' (build_ingest_raw_request (au_schema u) args)) (\<lambda>request.
     seqA (runR (collect_dedup_catalogue ap u)) (\<lambda>cat.
     let enabled = should_run_llm_canonicalize (ap_llm ap) 1;
         names = (if enabled then catalogue_canonical_names cat else []) in
     seqA (liftE (pre_checked ap ''ingest_raw'' cat (irr_text request))) (\<lambda>tx.
     seqA (runR (if enabled then apply_llm_canonicalize (ap_sv ap) (ap_llm ap) None names tx else Pair (Some tx))) (\<lambda>t.
     let request' = request\<lparr>irr_text := (case t of None \<Rightarrow> tx | Some x \<Rightarrow> x)\<rparr> in
     seqA (runR (send (ap_sv ap) (RIngestRaw request') (\<lambda>h. sv_ingest_raw (ap_sv ap) h request'))) (\<lambda>r.
     seqA (or_fail ''IngestRaw'' r) (\<lambda>resp.
     seqA (runR (record_many Msg (iw_msg_ids resp) (au_id u))) (\<lambda>recorded.
     seqA (runR (await_msg_ids_complete (ap_sv ap) (iw_msg_ids resp))) (\<lambda>st.
     done_with ap (JObj [(''chunk_count'', JInt (iw_chunk_count resp)), (''msg_ids'', JArr (map JStr (iw_msg_ids resp))),
       (''await_status'', JStr (await_as_str st)), (''await_semantics'', JStr ''exact''),
       (''ownership_recorded'', JBool (recorded = Inr True))])))))))))"

section \<open>The dispatcher\<close>

datatype call_error =
    ParamsNotObject
  | MissingName
  | NameNotString
  | EmptyName
  | UnknownTool string

datatype call_result = CallError call_error | CallContent json | CallPanic panic

definition tool_handler :: "app \<Rightarrow> auth_user \<Rightarrow> string \<Rightarrow> json \<Rightarrow> json handler option" where
  "tool_handler ap u name args =
     (if name = ''search'' then Some (tool_search ap u args)
      else if name = ''get_schema'' then Some (tool_get_schema ap u)
      else if name = ''ingest'' then Some (tool_ingest ap u args)
      else if name = ''ingest_raw'' then Some (tool_ingest_raw ap u args)
      else if name = ''query_nodes'' then Some (tool_query_nodes ap u args)
      else if name = ''list_schemas'' then Some (tool_list_schemas ap u)
      else if name = ''stats'' then Some (tool_stats ap u args)
      else if name = ''get_traceable_chain'' then Some (tool_chain ap u args)
      else if name = ''feedback'' then Some (tool_feedback ap u args)
      else if name = ''get_job_status'' then Some (tool_get_job_status ap u args)
      else if name \<in> set TOOL_NAMES then Some (okA (not_implemented_content name))
      else None)"

definition tools_call :: "app \<Rightarrow> auth_user \<Rightarrow> json \<Rightarrow> call_result run" where
  "tools_call ap u params w =
     (case as_object params of
        None \<Rightarrow> (CallError ParamsNotObject, w)
      | Some m \<Rightarrow>
          (case obj_get m ''name'' of
             None \<Rightarrow> (CallError MissingName, w)
           | Some v \<Rightarrow>
               if v = JNull then (CallError MissingName, w)
               else (case as_str v of
                  None \<Rightarrow> (CallError NameNotString, w)
                | Some name \<Rightarrow>
                    if name = [] then (CallError EmptyName, w)
                    else let args = (case obj_get m ''arguments'' of None \<Rightarrow> JObj [] | Some a \<Rightarrow> a) in
                      (case tool_handler ap u name args of
                         None \<Rightarrow> (CallError (UnknownTool name), w)
                       | Some h \<Rightarrow> (case h w of
                            (Inr c, w') \<Rightarrow> (CallContent c, w')
                          | (Inl (Reply c), w') \<Rightarrow> (CallContent c, w')
                          | (Inl (Panic e), w') \<Rightarrow> (CallPanic e, w'))))))"

end
