(* ===== verification/Vp_Guard.thy ===== *)
theory Vp_Guard
  imports Vp_Handlers
begin

text \<open>
  What a caller of the tools can reach. Every request a call sends is one the caller may make: read
  requests name the caller's schema or the shared one, write requests the caller's only, and a
  request about an identifier is about one the caller owns or was just given. Two requests name nobody: the list of
  schemas, whose answer is cut to the two schemas before it is given back, and the list of jobs, of which only those of the
  caller's messages are counted. The proof goes through the handlers once, with the invariant of the log as the
  property every step keeps.
\<close>

section \<open>Allowed requests\<close>

text \<open>
  In the log \<open>h\<close>, from its \<open>n\<close>-th request on, an ingestion into the caller's schema was sent, and what the
  backend answered to it, after the requests before it, names the message.
\<close>

definition issued :: "app \<Rightarrow> auth_user \<Rightarrow> nat \<Rightarrow> history \<Rightarrow> string \<Rightarrow> bool" where
  "issued ap u n h i \<longleftrightarrow> (\<exists>g req g' resp. h = g @ RIngestRaw req # g' \<and> n \<le> length g \<and> irr_schema req = au_schema u
     \<and> sv_ingest_raw (ap_sv ap) g req = Inr resp \<and> i \<in> set (iw_msg_ids resp))"

definition allowed :: "app \<Rightarrow> auth_user \<Rightarrow> nat \<Rightarrow> history \<Rightarrow> world \<Rightarrow> request \<Rightarrow> bool" where
  "allowed ap u n h w q = (case q of
       RSearch r \<Rightarrow> sr_schema r \<in> {au_schema u, ap_shared_schema ap}
     | RGetSchema name \<Rightarrow> name \<in> {au_schema u, ap_shared_schema ap}
     | RListSchemas \<Rightarrow> True
     | RIngest r \<Rightarrow> ir_schema r = au_schema u
     | RIngestRaw r \<Rightarrow> irr_schema r = au_schema u
     | RQueryNodes r \<Rightarrow> qn_schema r \<in> {au_schema u, ap_shared_schema ap}
     | RGetStats r \<Rightarrow> gs_schema r \<in> {Some (au_schema u), Some (ap_shared_schema ap)}
     | RChain r \<Rightarrow> tc_schema r \<in> {Some (au_schema u), Some (ap_shared_schema ap)}
     | RFeedback f \<Rightarrow> owned_by w Search (fb_search_id f) (au_id u)
     | RJobStatus i \<Rightarrow> owned_by w Msg i (au_id u) \<or> issued ap u n h i
     | RListJobs lq \<Rightarrow> is_list_jobs q
     | RGemini p tokens \<Rightarrow> True)"

text \<open>Requests sent one after the other, each with what was sent before it.\<close>

fun log_allowed :: "app \<Rightarrow> auth_user \<Rightarrow> nat \<Rightarrow> history \<Rightarrow> world \<Rightarrow> request list \<Rightarrow> bool" where
  "log_allowed ap u n h w [] = True"
| "log_allowed ap u n h w (q # qs) = (allowed ap u n h w q \<and> log_allowed ap u n (h @ [q]) w qs)"

lemma issued_more: "issued ap u n h i \<Longrightarrow> m \<le> n \<Longrightarrow> issued ap u m (h @ ys) i"
  unfolding issued_def by (metis append.assoc append_Cons le_trans)

lemma allowed_more: "extends w w' \<Longrightarrow> m \<le> n \<Longrightarrow> allowed ap u n h w q \<Longrightarrow> allowed ap u m h w' q"
  using issued_more [of ap u n h _ m "[]"] by (auto simp: allowed_def owned_by_extends split: request.splits)

lemma log_allowed_more: "extends w w' \<Longrightarrow> m \<le> n \<Longrightarrow> log_allowed ap u n h w qs \<Longrightarrow> log_allowed ap u m h w' qs"
  by (induction qs arbitrary: h) (auto intro: allowed_more)

lemma log_allowed_append:
  "log_allowed ap u n h w (xs @ ys) \<longleftrightarrow> log_allowed ap u n h w xs \<and> log_allowed ap u n (h @ xs) w ys"
  by (induction xs arbitrary: h) simp_all

lemma log_allowed_all:
  "(\<And>q ys. q \<in> set qs \<Longrightarrow> allowed ap u n (h @ ys) w q) \<Longrightarrow> log_allowed ap u n h w qs"
proof (induction qs arbitrary: h)
  case (Cons q qs)
  have "log_allowed ap u n (h @ [q]) w qs"
    by (rule Cons.IH) (use Cons.prems [of _ "q # ys" for ys] in simp)
  with Cons.prems [of q "[]"] show ?case by simp
qed simp

lemma log_allowedD: "log_allowed ap u n h w qs \<Longrightarrow> q \<in> set qs \<Longrightarrow> \<exists>g. allowed ap u n g w q"
  by (induction qs arbitrary: h) auto

definition guarded :: "app \<Rightarrow> auth_user \<Rightarrow> world \<Rightarrow> world \<Rightarrow> bool" where
  "guarded ap u w\<^sub>0 w \<longleftrightarrow> extends w\<^sub>0 w
     \<and> log_allowed ap u (length (wd_log w\<^sub>0)) (wd_log w\<^sub>0) w (drop (length (wd_log w\<^sub>0)) (wd_log w))"

lemma guarded_refl: "guarded ap u w w"
  by (simp add: guarded_def)

lemma guardedD:
  assumes "guarded ap u w\<^sub>0 w"
  obtains qs where "wd_log w = wd_log w\<^sub>0 @ qs" "log_allowed ap u (length (wd_log w\<^sub>0)) (wd_log w\<^sub>0) w qs"
  using assms by (auto simp: guarded_def extends_def)

text \<open>Steps that add allowed requests keep the log guarded.\<close>

lemma guarded_trans:
  assumes "guarded ap u w\<^sub>0 w" "guarded ap u w w'"
  shows "guarded ap u w\<^sub>0 w'"
proof -
  from assms have e: "extends w\<^sub>0 w" "extends w w'" by (simp_all add: guarded_def)
  obtain ys where ys: "wd_log w = wd_log w\<^sub>0 @ ys" "log_allowed ap u (length (wd_log w\<^sub>0)) (wd_log w\<^sub>0) w ys"
    by (rule guardedD [OF assms(1)])
  obtain qs where qs: "wd_log w' = wd_log w @ qs" "log_allowed ap u (length (wd_log w)) (wd_log w) w' qs"
    by (rule guardedD [OF assms(2)])
  have "log_allowed ap u (length (wd_log w\<^sub>0)) (wd_log w\<^sub>0) w' (ys @ qs)"
    using log_allowed_more [OF e(2) order_refl ys(2)] log_allowed_more [OF extends_refl _ qs(2)] ys(1)
    by (simp add: log_allowed_append)
  with extends_trans [OF e] ys(1) qs(1) show ?thesis by (simp add: guarded_def)
qed

lemma guarded_step:
  assumes "guarded ap u w\<^sub>0 w" "extends w w'" "wd_log w' = wd_log w @ qs"
    "\<And>q n ys. q \<in> set qs \<Longrightarrow> n \<le> length (wd_log w) \<Longrightarrow> allowed ap u n (wd_log w @ ys) w' q"
  shows "guarded ap u w\<^sub>0 w'"
proof (rule guarded_trans [OF assms(1)])
  show "guarded ap u w w'" using assms(2-4) by (auto simp: guarded_def intro: log_allowed_all)
qed

lemma guarded_quiet:
  assumes "grows m" "\<And>L. keeps (\<lambda>w. wd_log w = L) m"
  shows "keeps (guarded ap u w\<^sub>0) m"
  unfolding keeps_def
proof (intro allI impI)
  fix w assume g: "guarded ap u w\<^sub>0 w"
  obtain r w' where m: "m w = (r, w')" by fastforce
  have "extends w w'" by (rule growsD [OF assms(1) m])
  moreover have "wd_log w' = wd_log w" by (rule keepsD [OF assms(2) refl m])
  ultimately have "guarded ap u w\<^sub>0 w'" using guarded_step [OF g, of w' "[]"] by simp
  with m show "guarded ap u w\<^sub>0 (snd (m w))" by simp
qed

lemma guarded_waits:
  assumes "\<And>w r w'. m w = (r, w') \<Longrightarrow> \<exists>d. waits P d w w'" "\<And>n h w q. P q \<Longrightarrow> allowed ap u n h w q"
  shows "keeps (guarded ap u w\<^sub>0) m"
  unfolding keeps_def
proof (intro allI impI)
  fix w assume g: "guarded ap u w\<^sub>0 w"
  obtain r w' where m: "m w = (r, w')" by fastforce
  from assms(1) [OF m] obtain d where d: "waits P d w w'" ..
  then obtain qs where "wd_log w' = wd_log w @ qs" "\<forall>q \<in> set qs. P q" by (auto simp: waits_def)
  with guarded_step [OF g waits_extends [OF d]] assms(2) have "guarded ap u w\<^sub>0 w'" by blast
  with m show "guarded ap u w\<^sub>0 (snd (m w))" by simp
qed

section \<open>The parts of a handler\<close>

lemma keeps_runR [intro]: "keeps I m \<Longrightarrow> keeps I (runR m)"
  by (auto simp: keeps_def runR_def split: prod.splits)

lemma keeps_checked: "(\<And>x. r = Inr x \<Longrightarrow> keeps I (f x)) \<Longrightarrow> keeps I (seqA (checked ap meth r) f)"
  unfolding checked_def by (rule keeps_seq_liftE) (simp split: sum.splits)

lemma keeps_or_fail: "(\<And>x. r = Inr x \<Longrightarrow> keeps I (f x)) \<Longrightarrow> keeps I (seqA (or_fail meth r) f)"
  unfolding or_fail_def by (rule keeps_seq_liftE) (simp split: sum.splits)

lemma keeps_or_panic [intro, simp]: "keeps I (or_panic r)"
  by (simp add: or_panic_def)

lemma keeps_done [intro, simp]: "keeps I (done_with ap v)"
  by (simp add: done_with_def)

lemma guarded_send_at:
  assumes "guarded ap u w\<^sub>0 w" "\<And>n h. allowed ap u n h w q"
  shows "guarded ap u w\<^sub>0 (snd (send sv q f w))"
proof (rule guarded_step [OF assms(1), where qs = "[q]"])
  show e: "extends w (snd (send sv q f w))" by (simp add: send_def Let_def extends_def)
  show "allowed ap u n (wd_log w @ ys) (snd (send sv q f w)) q'" if "q' \<in> set [q]" for q' n ys
    using allowed_more [OF e order_refl assms(2)] that by simp
qed (simp add: send_def Let_def)

lemma guarded_send: "(\<And>n h w. allowed ap u n h w q) \<Longrightarrow> keeps (guarded ap u w\<^sub>0) (send sv q f)"
  by (simp add: keeps_def guarded_send_at)

lemma guarded_join2:
  assumes "\<And>n h w. allowed ap u n h w p" "\<And>n h w. allowed ap u n h w q"
  shows "keeps (guarded ap u w\<^sub>0) (join2 sv p f q g)"
  unfolding keeps_def
proof (intro allI impI)
  fix w assume g: "guarded ap u w\<^sub>0 w"
  show "guarded ap u w\<^sub>0 (snd (join2 sv p f q g w))"
    by (rule guarded_step [OF g, where qs = "[p, q]"]) (auto simp: join2_def Let_def extends_def assms)
qed

text \<open>The table operations send nothing.\<close>

lemma quiet_sql:
  fixes f :: "world \<Rightarrow> (sql_error + 'a) \<times> world"
  assumes "\<And>w. wd_log (snd (f w)) = wd_log w"
  shows "keeps (\<lambda>w. wd_log w = L) (sql f)"
  unfolding keeps_def
proof (intro allI impI)
  fix w :: world assume l: "wd_log w = L"
  obtain r w' where s: "sql f w = (r, w')" by fastforce
  then have "wd_log w' = L"
  proof (cases rule: sql_cases)
    case 1
    with l show ?thesis by simp
  next
    case (2 fs)
    with assms [of "w\<lparr>wd_faults := fs\<rparr>"] l show ?thesis by simp
  qed
  with s show "wd_log (snd (sql f w)) = L" by simp
qed

lemma quiet_insert: "keeps (\<lambda>w. wd_log w = L) (insert_or_ignore k fid u)"
  unfolding insert_or_ignore_def by (rule quiet_sql) simp

lemma quiet_verify: "keeps (\<lambda>w. wd_log w = L) (verify k fid u)"
  unfolding verify_def by (rule quiet_sql) simp

lemma quiet_insert_all: "keeps (\<lambda>w. wd_log w = L) (insert_all k fids u)"
  by (induction fids) (auto simp: quiet_insert)

lemma quiet_verify_all: "keeps (\<lambda>w. wd_log w = L) (verify_all k fids u)"
  by (induction fids) (auto simp: quiet_verify)

lemma quiet_transaction:
  assumes "keeps (\<lambda>w. wd_log w = L) body"
  shows "keeps (\<lambda>w. wd_log w = L) (in_transaction body)"
  unfolding keeps_def
proof (intro allI impI)
  fix w :: world assume l: "wd_log w = L"
  let ?m = "seqA (sql (\<lambda>w. (Inr (), w))) (\<lambda>_. seqA body (\<lambda>_. sql (\<lambda>w. (Inr (), w))))"
  have t: "keeps (\<lambda>w. wd_log w = L) (sql (\<lambda>w. (Inr (), w)))" by (rule quiet_sql) simp
  obtain s v where s: "?m w = (s, v)" by fastforce
  have "keeps (\<lambda>w. wd_log w = L) ?m" using assms t by blast
  then have v: "wd_log v = L" using l s by (rule keepsD)
  show "wd_log (snd (in_transaction body w)) = L"
    unfolding in_transaction_def s using v by (cases s) simp_all
qed

lemma quiet_record: "keeps (\<lambda>w. wd_log w = L) (record_owner k fid u)"
  unfolding record_owner_def using quiet_insert quiet_verify by auto

lemma quiet_record_many: "keeps (\<lambda>w. wd_log w = L) (record_many k fids u)"
  unfolding record_many_def using quiet_transaction [OF quiet_insert_all] quiet_verify_all by auto

lemma guarded_record_many: "keeps (guarded ap u w\<^sub>0) (record_many k fids v)"
  by (rule guarded_quiet [OF record_many_grows quiet_record_many])

lemma guarded_verify: "keeps (guarded ap u w\<^sub>0) (verify k fid v)"
  by (rule guarded_quiet [OF verify_grows quiet_verify])

lemma guarded_record_search: "keeps (guarded ap u w\<^sub>0) (record_search v sid)"
proof -
  have "keeps (guarded ap u w\<^sub>0) (record_owner Search i (au_id v))" for i
    by (rule guarded_quiet [OF record_grows quiet_record])
  then show ?thesis unfolding keeps_def record_search_def
    by (auto split: option.splits prod.splits) (metis snd_conv)
qed

text \<open>The builders put the caller's schema into the request, whatever the arguments say.\<close>

lemma built_schemas:
  "build_search_request s v = Inr r1 \<Longrightarrow> sr_schema r1 = s"
  "build_ingest_request s v = Inr r2 \<Longrightarrow> ir_schema r2 = s"
  "build_ingest_raw_request s v = Inr r3 \<Longrightarrow> irr_schema r3 = s"
  "build_query_nodes_request s v = Inr r4 \<Longrightarrow> qn_schema r4 = s"
  "build_get_stats_request s v = Inr r5 \<Longrightarrow> gs_schema r5 = Some s"
  "build_get_traceable_chain_request s v = Inr r6 \<Longrightarrow> tc_schema r6 = Some s"
  by (auto simp: build_search_request_def build_ingest_request_def build_ingest_raw_request_def
      build_query_nodes_request_def build_get_stats_request_def build_get_traceable_chain_request_def)

section \<open>Every handler keeps the log guarded\<close>

lemma guarded_search: "keeps (guarded ap u w\<^sub>0) (tool_search ap u args)"
  unfolding tool_search_def Let_def
  by (intro keeps_checked keeps_seqA keeps_runR keeps_or_fail guarded_join2 guarded_record_search keeps_or_panic keeps_done)
     (auto simp: allowed_def built_schemas)

lemma guarded_get_schema: "keeps (guarded ap u w\<^sub>0) (tool_get_schema ap u)"
  unfolding tool_get_schema_def
  by (intro keeps_seqA keeps_runR keeps_or_fail guarded_join2 keeps_done) (auto simp: allowed_def)

lemma guarded_list_schemas: "keeps (guarded ap u w\<^sub>0) (tool_list_schemas ap u)"
  unfolding tool_list_schemas_def
  by (intro keeps_seqA keeps_runR keeps_or_fail guarded_send keeps_done) (auto simp: allowed_def)

lemma guarded_stats: "keeps (guarded ap u w\<^sub>0) (tool_stats ap u args)"
  unfolding tool_stats_def Let_def
  by (intro keeps_checked keeps_seqA keeps_runR keeps_or_fail guarded_join2 keeps_done)
     (auto simp: allowed_def built_schemas)

lemma guarded_query_nodes: "keeps (guarded ap u w\<^sub>0) (tool_query_nodes ap u args)"
  unfolding tool_query_nodes_def Let_def
  by (intro keeps_checked keeps_seqA keeps_runR keeps_or_fail guarded_join2 keeps_or_panic keeps_done)
     (auto simp: allowed_def built_schemas)

lemma guarded_chain: "keeps (guarded ap u w\<^sub>0) (tool_chain ap u args)"
  unfolding tool_chain_def Let_def
  by (intro keeps_checked keeps_seqA keeps_runR keeps_or_fail guarded_join2 keeps_done keeps_liftE)
     (auto simp: allowed_def built_schemas)

lemma owner_check_owned:
  assumes "owner_check tool k fid u w = (Inr x, w')"
  shows "owned_by w' k fid (au_id u)"
proof -
  from assms obtain r where v: "verify k fid (au_id u) w = (r, w')" and r: "r = Inr True"
    by (auto simp: owner_check_def seqA_def runR_def split: prod.splits sum.splits bool.splits)
  from verify_result [OF v] r show ?thesis by (auto simp: owned_by_def)
qed

lemma guarded_owner_check: "keeps (guarded ap u w\<^sub>0) (owner_check tool k fid v)"
  unfolding owner_check_def by (intro keeps_seqA keeps_runR guarded_verify keeps_liftE)

text \<open>A checked identifier may be sent at once.\<close>

lemma guarded_checked_send:
  assumes "\<And>n h w. owned_by w k fid (au_id u) \<Longrightarrow> allowed ap u n h w q" "\<And>r. keeps (guarded ap u w\<^sub>0) (f r)"
  shows "keeps (guarded ap u w\<^sub>0) (seqA (owner_check tool k fid u) (\<lambda>_. seqA (runR (send sv q g)) f))"
proof (rule keeps_seqA_where [where Q = "\<lambda>_ w. owned_by w k fid (au_id u)"])
  show "keeps (guarded ap u w\<^sub>0) (owner_check tool k fid u)" by (rule guarded_owner_check)
  show "owned_by w' k fid (au_id u)" if "owner_check tool k fid u w = (Inr x, w')" for w x w'
    using owner_check_owned that by blast
  fix x :: unit and w assume "guarded ap u w\<^sub>0 w" "owned_by w k fid (au_id u)"
  then have "guarded ap u w\<^sub>0 (snd (send sv q g w))" using guarded_send_at assms(1) by blast
  moreover obtain r w' where "send sv q g w = (r, w')" by fastforce
  ultimately show "guarded ap u w\<^sub>0 (snd (seqA (runR (send sv q g)) f w))"
    using assms(2) by (auto simp: seqA_def runR_def keeps_def)
qed

lemma guarded_feedback: "keeps (guarded ap u w\<^sub>0) (tool_feedback ap u args)"
  unfolding tool_feedback_def
  by (intro keeps_checked guarded_checked_send keeps_or_fail keeps_done) (simp add: allowed_def)

lemma guarded_get_job_status: "keeps (guarded ap u w\<^sub>0) (tool_get_job_status ap u args)"
  unfolding tool_get_job_status_def
  by (intro keeps_checked guarded_checked_send keeps_or_fail keeps_done) (simp add: allowed_def)

lemma guarded_collect: "keeps (guarded ap u w\<^sub>0) (collect_types ap u tys cat)"
  by (induction tys arbitrary: cat)
     (auto intro!: keeps_seqR guarded_join2 simp: allowed_def entity_query_def)

lemma guarded_send_opt: "(\<And>n h w. allowed ap u n h w q) \<Longrightarrow> keeps (guarded ap u w\<^sub>0) (send_opt sv limit q f)"
proof -
  assume a: "\<And>n h w. allowed ap u n h w q"
  have w: "keeps (guarded ap u w\<^sub>0) (send_within sv l q f)" for l
    unfolding keeps_def
  proof (intro allI impI)
    fix w assume g: "guarded ap u w\<^sub>0 w"
    show "guarded ap u w\<^sub>0 (snd (send_within sv l q f w))"
      by (rule guarded_step [OF g, where qs = "[q]"]) (simp_all add: send_within_def Let_def extends_def a)
  qed
  have "keeps (guarded ap u w\<^sub>0) (seqR (send sv q f) (\<lambda>x. Pair (Some x)))"
    by (intro keeps_seqR guarded_send a keeps_Pair)
  with w show ?thesis by (cases limit) (simp_all add: send_opt_def)
qed

lemma guarded_llm: "keeps (guarded ap u w\<^sub>0) (apply_llm_canonicalize sv present limit names tx)"
  unfolding apply_llm_canonicalize_def canonicalize_def Let_def
  by (intro keeps_if keeps_seqR keeps_Pair guarded_send_opt) (simp add: allowed_def)

lemma guarded_llm_pass: "keeps (guarded ap u w\<^sub>0) (llm_pass ap deadline names tx exhausted)"
  unfolding keeps_def
proof (intro allI impI)
  fix w assume g: "guarded ap u w\<^sub>0 w"
  obtain r w' where a: "apply_llm_canonicalize (ap_sv ap) (ap_llm ap) (Some (deadline - wd_time w)) names tx w = (r, w')"
    by fastforce
  have "guarded ap u w\<^sub>0 w'" by (rule keepsD [OF guarded_llm g a])
  with g a show "guarded ap u w\<^sub>0 (snd (llm_pass ap deadline names tx exhausted w))"
    by (cases r) (simp_all add: llm_pass_def)
qed

lemma guarded_messages: "keeps (guarded ap u w\<^sub>0) (ingest_messages ap cat names enabled deadline i ex ms)"
proof (induction ms arbitrary: i ex)
  case (Cons m ms)
  then show ?case
    by (auto intro!: keeps_seqA keeps_runR keeps_liftE keeps_if guarded_llm_pass)
qed simp

lemma guarded_read: "keeps (guarded ap u w\<^sub>0) (\<lambda>w. (f w, w))"
  by (simp add: keeps_def)

lemma guarded_await_jobs: "keeps (guarded ap u w\<^sub>0) (await_extraction_jobs_for_schema sv schema since n)"
proof (rule guarded_waits [where P = is_list_jobs])
  show "\<exists>d. waits is_list_jobs d w w'" if "await_extraction_jobs_for_schema sv schema since n w = (r, w')" for w r w'
  proof (cases "n \<le> 0")
    case False
    with that show ?thesis
      unfolding await_extraction_jobs_for_schema_def by (metis await_jobs_waits)
  qed (use that in \<open>simp add: await_extraction_jobs_for_schema_def\<close>)
qed (auto simp: allowed_def, auto simp: is_list_jobs_def)

lemma guarded_ingest: "keeps (guarded ap u w\<^sub>0) (tool_ingest ap u args)"
  unfolding tool_ingest_def Let_def collect_dedup_catalogue_def
  by (intro keeps_checked keeps_seqA keeps_runR keeps_or_fail guarded_collect guarded_read guarded_messages guarded_send
      guarded_await_jobs keeps_done) (auto simp: allowed_def built_schemas)

text \<open>While identifiers are issued, they may be asked about.\<close>

definition guarded_issued :: "app \<Rightarrow> auth_user \<Rightarrow> string list \<Rightarrow> world \<Rightarrow> world \<Rightarrow> bool" where
  "guarded_issued ap u ids w\<^sub>0 w \<longleftrightarrow> guarded ap u w\<^sub>0 w \<and> (\<forall>i \<in> set ids. issued ap u (length (wd_log w\<^sub>0)) (wd_log w) i)"

lemma guarded_issued_keeps:
  assumes "keeps (guarded ap u w\<^sub>0) m" "grows m"
  shows "keeps (guarded_issued ap u ids w\<^sub>0) m"
  unfolding keeps_def
proof (intro allI impI)
  fix w assume g: "guarded_issued ap u ids w\<^sub>0 w"
  obtain r w' where m: "m w = (r, w')" by fastforce
  obtain ys where "wd_log w' = wd_log w @ ys" using growsD [OF assms(2) m] by (auto simp: extends_def)
  moreover have "guarded ap u w\<^sub>0 w'" using keepsD [OF assms(1) _ m] g by (simp add: guarded_issued_def)
  ultimately have "guarded_issued ap u ids w\<^sub>0 w'"
    using g issued_more [OF _ order_refl] by (auto simp: guarded_issued_def)
  with m show "guarded_issued ap u ids w\<^sub>0 (snd (m w))" by simp
qed

lemma guarded_await_msgs: "keeps (guarded_issued ap u ids w\<^sub>0) (await_msg_ids_complete sv ids)"
  unfolding keeps_def
proof (intro allI impI)
  fix w assume g: "guarded_issued ap u ids w\<^sub>0 w"
  obtain r w' where m: "await_msg_ids_complete sv ids w = (r, w')" by fastforce
  from await_msg_ids_waits [OF m] obtain d where d: "waits (asks_for (set ids)) d w w'" ..
  then obtain qs where qs: "wd_log w' = wd_log w @ qs" "\<forall>q \<in> set qs. asks_for (set ids) q" by (auto simp: waits_def)
  let ?n = "length (wd_log w\<^sub>0)"
  have "log_allowed ap u ?n (wd_log w) w' qs"
  proof (rule log_allowed_all)
    fix q ys assume "q \<in> set qs"
    with qs(2) g show "allowed ap u ?n (wd_log w @ ys) w' q"
      using issued_more [of ap u ?n "wd_log w" _ ?n ys] by (auto simp: asks_for_def allowed_def guarded_issued_def)
  qed
  moreover obtain xs where "wd_log w = wd_log w\<^sub>0 @ xs" "log_allowed ap u ?n (wd_log w\<^sub>0) w xs"
    using g guardedD unfolding guarded_issued_def by metis
  moreover have e: "extends w w'" using waits_extends [OF d] .
  ultimately have "log_allowed ap u ?n (wd_log w\<^sub>0) w' (xs @ qs) \<and> wd_log w' = wd_log w\<^sub>0 @ xs @ qs"
    using log_allowed_more [OF e order_refl] qs(1) by (simp add: log_allowed_append)
  moreover have "extends w\<^sub>0 w'" using g extends_trans [OF _ e] by (simp add: guarded_issued_def guarded_def)
  moreover have "issued ap u ?n (wd_log w') i" if "i \<in> set ids" for i
    unfolding qs(1) using g that issued_more [OF _ order_refl] by (simp add: guarded_issued_def)
  ultimately have "guarded_issued ap u ids w\<^sub>0 w'" by (simp add: guarded_issued_def guarded_def)
  with m show "guarded_issued ap u ids w\<^sub>0 (snd (await_msg_ids_complete sv ids w))" by simp
qed

text \<open>What the calls after an ingestion may assume of its answer.\<close>

lemma guarded_raw_sent:
  assumes s: "irr_schema req = au_schema u"
    and f: "\<And>resp. keeps (guarded_issued ap u (iw_msg_ids resp) w\<^sub>0) (f resp)"
  shows "keeps (guarded ap u w\<^sub>0)
    (seqA (runR (send (ap_sv ap) (RIngestRaw req) (\<lambda>h. sv_ingest_raw (ap_sv ap) h req))) (\<lambda>r. seqA (or_fail meth r) f))"
  unfolding keeps_def
proof (intro allI impI)
  fix w assume g: "guarded ap u w\<^sub>0 w"
  let ?send = "send (ap_sv ap) (RIngestRaw req) (\<lambda>h. sv_ingest_raw (ap_sv ap) h req)"
  let ?r = "sv_ingest_raw (ap_sv ap) (wd_log w) req"
  define w1 where "w1 = snd (?send w)"
  have sent: "?send w = (?r, w1)" "wd_log w1 = wd_log w @ [RIngestRaw req]" by (simp_all add: w1_def send_def Let_def)
  have g1: "guarded ap u w\<^sub>0 w1" unfolding w1_def by (rule guarded_send_at [OF g]) (simp add: allowed_def s)
  show "guarded ap u w\<^sub>0 (snd (seqA (runR ?send) (\<lambda>r. seqA (or_fail meth r) f) w))"
  proof (cases ?r)
    case (Inl e)
    then show ?thesis using g1 sent(1) by (simp add: seqA_def runR_def or_fail_def liftE_def)
  next
    case (Inr resp)
    have "length (wd_log w\<^sub>0) \<le> length (wd_log w)" using g by (auto simp: guarded_def extends_def)
    then have "\<forall>i \<in> set (iw_msg_ids resp). issued ap u (length (wd_log w\<^sub>0)) (wd_log w1) i"
      using Inr s unfolding issued_def sent(2) by blast
    with g1 have "guarded_issued ap u (iw_msg_ids resp) w\<^sub>0 w1" by (simp add: guarded_issued_def)
    then have "guarded_issued ap u (iw_msg_ids resp) w\<^sub>0 (snd (f resp w1))" using f by (simp add: keeps_def)
    then show ?thesis using Inr sent(1) by (simp add: seqA_def runR_def or_fail_def liftE_def guarded_issued_def)
  qed
qed

lemma guarded_ingest_raw: "keeps (guarded ap u w\<^sub>0) (tool_ingest_raw ap u args)"
  unfolding tool_ingest_raw_def Let_def collect_dedup_catalogue_def
proof (intro keeps_checked, goal_cases)
  case (1 req)
  then have s: "irr_schema req = au_schema u" by (simp add: built_schemas)
  show ?case
    by (rule keeps_seqA, intro keeps_runR guarded_collect, rule keeps_seqA, rule keeps_liftE,
        rule keeps_seqA, intro keeps_runR keeps_if guarded_llm keeps_Pair,
        rule guarded_raw_sent, simp add: s,
        intro keeps_seqA keeps_runR guarded_issued_keeps guarded_record_many record_many_grows guarded_await_msgs keeps_done)
qed

lemmas handler_guards = guarded_search guarded_get_schema guarded_list_schemas guarded_stats guarded_query_nodes
  guarded_chain guarded_feedback guarded_get_job_status guarded_ingest guarded_ingest_raw

lemma guarded_tool: "tool_handler ap u name args = Some h \<Longrightarrow> keeps (guarded ap u w\<^sub>0) h"
  by (auto simp: tool_handler_def handler_guards split: if_splits)

lemma guarded_call: "guarded ap u w (snd (tools_call ap u params w))"
proof -
  have h: "guarded ap u w (snd (h w))" if "tool_handler ap u name args = Some h" for name args h
    using guarded_tool [OF that] guarded_refl by (simp add: keeps_def)
  show ?thesis
    by (auto simp: tools_call_def guarded_refl Let_def split: option.splits prod.splits sum.splits early.splits)
       (metis h snd_conv)+
qed

section \<open>Properties\<close>

lemma listed_schemas:
  "\<exists>xs. filter_schemas_for_user_and_shared schemas own shared = map schema_item_json xs
     \<and> (\<forall>x \<in> set xs. x \<in> set schemas \<and> sm_name x \<in> {own, shared})"
proof -
  from schemas_filtered [of schemas own shared] obtain ps ss
    where f: "filter_schemas_for_user_and_shared schemas own shared = map schema_item_json (ps @ ss)"
      "set ps \<union> set ss \<subseteq> set schemas" "\<forall>p \<in> set ps. sm_name p = own" "\<forall>s \<in> set ss. sm_name s = shared \<and> own \<noteq> shared"
    by blast
  then show ?thesis by (intro exI [of _ "ps @ ss"]) auto
qed


definition silent_app :: app where
  "silent_app = \<lparr>ap_sv = silent_services, ap_shared_schema = ''shared'', ap_llm = False, ap_show = \<lambda>_. [], ap_num = \<lambda>_. JNull,
     ap_alnum = ascii_letter, ap_lower_char = sample_lower_char, ap_lower = sample_lower, ap_reason = \<lambda>_. [], ap_epoch = 0, ap_overflow_checks = True\<rparr>"

definition user_one :: auth_user where
  "user_one = \<lparr>au_id = ''u1'', au_schema = ''user-1''\<rparr>"


text \<open>C7. Identifiers of other tenants are indistinguishable from unknown ones: as long as the database works, feedback
  or a status question about an identifier that is not the caller's is answered by one fixed text, the same
  whether another user owns it or nobody does, and nothing is sent to the backend.\<close>

theorem foreign_ids_denied:
  assumes "wd_faults w = []"
  shows "(feedback_args args = Inr req \<and> \<not> owned_by w Search (fb_search_id req) (au_id u) \<longrightarrow>
            tool_feedback ap u args w = (Inl (Reply (ownership_denied_content ''feedback'')), w))
       \<and> (job_status_args args = Inr i \<and> \<not> owned_by w Msg i (au_id u) \<longrightarrow>
            tool_get_job_status ap u args w = (Inl (Reply (ownership_denied_content ''get_job_status'')), w))"
proof -
  have v: "owner_check tool k fid u w = (Inl (Reply (ownership_denied_content tool)), w)"
    if "\<not> owned_by w k fid (au_id u)" for tool k fid
    using that assms by (auto simp: owner_check_def seqA_def runR_def verify_def sql_def owned_by_def split: option.splits)
  then show ?thesis
    by (auto simp: tool_feedback_def tool_get_job_status_def checked_def seqA_def)
qed

theorem foreign_ids_denied_witness:
  "tool_get_job_status silent_app user_one (JObj [(''msg_id'', JStr ''m9'')]) fresh_world
     = (Inl (Reply (ownership_denied_content ''get_job_status'')), fresh_world)"
proof -
  have "trim ''m9'' = ''m9''" by (simp add: trim_def is_whitespace_def is_cont_def)
  then have "job_status_args (JObj [(''msg_id'', JStr ''m9'')]) = Inr ''m9''"
    by (simp add: job_status_args_def require_object_args_def)
  with foreign_ids_denied [of fresh_world "JObj [(''msg_id'', JStr ''m9'')]" _ user_one silent_app "''m9''"]
  show ?thesis by (simp add: fresh_world_def owned_by_def)
qed

end
