(* ===== verification/Vp_Ingest.thy ===== *)
theory Vp_Ingest
  imports Vp_Guard
begin

text \<open>
  What an ingestion does to its batch before it is sent, and that no tool call panics. Rust's strings
  are UTF-8 and so are the strings of a JSON value and of a protobuf message; under that type
  invariant the slices of the duplicate check are safe for every text.
\<close>

section \<open>Preparing the batch\<close>

lemma apply_llm_time:
  assumes "apply_llm_canonicalize sv present (Some l) names tx w = (r, w')"
  shows "wd_time w' \<le> wd_time w + l"
proof -
  have "wd_time (snd (canonicalize sv (Some l) names tx w)) \<le> wd_time w + l"
    by (auto simp: canonicalize_def Let_def seqR_def send_opt_def send_within_def)
  with assms show ?thesis
    by (auto simp: apply_llm_canonicalize_def seqR_def split: if_splits prod.splits)
qed

lemma llm_pass_time: "llm_pass ap deadline names tx ex w = (r, w') \<Longrightarrow> wd_time w' \<le> max (wd_time w) deadline"
  by (auto simp: llm_pass_def split: if_splits prod.splits option.splits dest!: apply_llm_time)

text \<open>C28. Before a batch is sent, every message has passed the duplicate check (a single blocked message stops the
  whole batch), identifiers and metadata are untouched and in order, without the language model each text
  is exactly what the check made of it, and the language model holds the batch up for no longer than its
  budget, however many messages there are.\<close>

theorem ingest_batch:
  assumes "ingest_messages ap cat names enabled deadline i ex ms w = (r, w')"
  shows "wd_time w' \<le> max (wd_time w) deadline
    \<and> (\<forall>out. r = Inr out \<longrightarrow> map im_id out = map im_id ms \<and> map im_metadata out = map im_metadata ms
         \<and> (\<exists>txs. list_all2 (\<lambda>m tx. \<exists>meth. pre_checked ap meth cat (im_text m) = Inr tx) ms txs
               \<and> (\<not> enabled \<longrightarrow> map im_text out = txs)))"
  using assms
proof (induction ms arbitrary: i ex w r w')
  case Nil
  then show ?case by auto
next
  case (Cons m ms)
  let ?meth = "''ingest (messages['' @ show_nat i @ ''])''"
  show ?case
  proof (cases "pre_checked ap ?meth cat (im_text m)")
    case (Inl e)
    with Cons.prems show ?thesis by (auto simp: seqA_def)
  next
    case (Inr tx)
    obtain tx' ex' w1 where l: "(if enabled then llm_pass ap deadline names tx ex else Pair (tx, ex)) w = ((tx', ex'), w1)"
      by (metis prod.collapse)
    obtain r2 w2 where r2: "ingest_messages ap cat names enabled deadline (Suc i) ex' ms w1 = (r2, w2)" by fastforce
    have e: "w' = w2" "r = (case r2 of Inl e \<Rightarrow> Inl e | Inr rest \<Rightarrow> Inr (m\<lparr>im_text := tx'\<rparr> # rest))"
      using Cons.prems Inr l r2 by (auto simp: seqA_def runR_def split: sum.splits)
    have t: "wd_time w1 \<le> max (wd_time w) deadline" "\<not> enabled \<longrightarrow> tx' = tx"
      using l llm_pass_time by (auto split: if_splits)
    note ih = Cons.IH [OF r2]
    show ?thesis
    proof (cases r2)
      case (Inr rest)
      with ih obtain txs where x: "list_all2 (\<lambda>m tx. \<exists>meth. pre_checked ap meth cat (im_text m) = Inr tx) ms txs"
        "\<not> enabled \<longrightarrow> map im_text rest = txs" by auto
      have "list_all2 (\<lambda>m tx. \<exists>meth. pre_checked ap meth cat (im_text m) = Inr tx) (m # ms) (tx # txs)"
        using x(1) \<open>pre_checked ap ?meth cat (im_text m) = Inr tx\<close> by auto
      moreover have "\<not> enabled \<longrightarrow> map im_text (m\<lparr>im_text := tx'\<rparr> # rest) = tx # txs" using x(2) t(2) by simp
      ultimately show ?thesis using Inr ih t(1) e by fastforce
    qed (use ih t e in auto)
  qed
qed

theorem ingest_batch_witness:
  "map im_text (projr (fst (ingest_messages silent_app sample_catalogue [] False 60000 0 False
     [\<lparr>im_id = None, im_text = ''a TEA'', im_metadata = \<lparr>md_source_type = ''chat'', md_author = ''a'', md_author_id = None,
        md_channel = ''c'', md_channel_id = None, md_thread_id = None, md_timestamp = ''t''\<rparr>\<rparr>] fresh_world))) = [''a Tea'']"
proof -
  let ?m = "\<lparr>im_id = None, im_text = ''a TEA'', im_metadata = \<lparr>md_source_type = ''chat'', md_author = ''a'', md_author_id = None,
        md_channel = ''c'', md_channel_id = None, md_thread_id = None, md_timestamp = ''t''\<rparr>\<rparr>"
  have scan: "scan_text_with_catalogue ascii_letter sample_lower_char sample_lower sample_catalogue ''a TEA''
      = Inr (Rewritten ''a Tea'' (dc_personal sample_catalogue))"
    using scan_sample .
  then have pc: "pre_checked silent_app meth sample_catalogue ''a TEA'' = Inr ''a Tea''" for meth
    by (simp add: pre_checked_def silent_app_def)
  then have run: "ingest_messages silent_app sample_catalogue [] False 60000 0 False [?m] fresh_world
      = (Inr [?m\<lparr>im_text := ''a Tea''\<rparr>], fresh_world)"
    by (simp add: seqA_def runR_def)
  from ingest_batch [OF run] pc have "map im_text [?m\<lparr>im_text := ''a Tea''\<rparr>] = [''a Tea'']"
    by (auto simp: list_all2_Cons1)
  with run show ?thesis by simp
qed

section \<open>No panic\<close>

fun json_utf8 :: "json \<Rightarrow> bool" where
  "json_utf8 (JStr s) = utf8 s"
| "json_utf8 (JArr xs) = (\<forall>x \<in> set xs. json_utf8 x)"
| "json_utf8 (JObj m) = (\<forall>kv \<in> set m. json_utf8 (snd kv))"
| "json_utf8 JNull = True"
| "json_utf8 (JBool b) = True"
| "json_utf8 (JInt n) = True"
| "json_utf8 (JFloat f) = True"

declare json_utf8.simps(3) [simp del]

definition names_utf8 :: "services \<Rightarrow> bool" where
  "names_utf8 sv \<longleftrightarrow> (\<forall>h q resp. sv_query_nodes sv h q = Inr resp \<longrightarrow>
     (\<forall>n \<in> set (qr_nodes resp). \<forall>kv \<in> set (nd_attributes n). utf8 (snd kv)))"

text \<open>The totals of the backend add up within an \<open>i32\<close>; a build without overflow checks needs no such thing.\<close>

definition totals_fit :: "services \<Rightarrow> bool" where
  "totals_fit sv \<longleftrightarrow> (\<forall>h q r. sv_search sv h q = Inr r \<longrightarrow> 0 \<le> sp_total_count r \<and> sp_total_count r < 2 ^ 30)
     \<and> (\<forall>h q r. sv_query_nodes sv h q = Inr r \<longrightarrow> 0 \<le> qr_total_count r \<and> qr_total_count r < 2 ^ 30)"

definition calm :: "'a handler \<Rightarrow> bool" where
  "calm m \<longleftrightarrow> (\<forall>w e. fst (m w) \<noteq> Inl (Panic e))"

lemma calm_seqA_where:
  assumes "calm m" "\<And>w x w'. m w = (Inr x, w') \<Longrightarrow> Q x" "\<And>x. Q x \<Longrightarrow> calm (f x)"
  shows "calm (seqA m f)"
  unfolding calm_def
proof (intro allI)
  fix w e
  obtain r w' where m: "m w = (r, w')" by fastforce
  show "fst (seqA m f w) \<noteq> Inl (Panic e)"
  proof (cases r)
    case (Inl e)
    with m assms(1) show ?thesis by (simp add: calm_def) (metis fst_conv)
  next
    case (Inr x)
    with m assms(2,3) show ?thesis by (simp add: calm_def)
  qed
qed

lemma calm_seqA: "calm m \<Longrightarrow> (\<And>x. calm (f x)) \<Longrightarrow> calm (seqA m f)"
  by (rule calm_seqA_where [where Q = "\<lambda>_. True"]) simp_all

lemma calm_okA: "calm (okA x)"
  by (simp add: calm_def)

lemma calm_done: "calm (done_with ap v)"
  by (simp add: done_with_def calm_okA)

lemma calm_runR: "calm (runR m)"
  by (auto simp: calm_def runR_def split: prod.splits)

lemma calm_liftE: "(\<And>e. r \<noteq> Inl (Panic e)) \<Longrightarrow> calm (liftE r)"
  by (simp add: calm_def)

lemma calm_checked: "(\<And>x. r = Inr x \<Longrightarrow> calm (f x)) \<Longrightarrow> calm (seqA (checked ap meth r) f)"
  by (cases r) (simp_all add: checked_def calm_def)

lemma calm_or_fail: "calm (or_fail meth r)"
  by (cases r) (simp_all add: or_fail_def calm_def)

lemma calm_owner_check: "calm (owner_check tool k fid u)"
  unfolding owner_check_def by (intro calm_seqA calm_runR calm_liftE) (auto split: sum.splits bool.splits)

lemmas calm_rules = calm_seqA calm_runR calm_or_fail calm_owner_check calm_done

text \<open>
  The tools that do not ingest: the page of \<open>query_nodes\<close> drains no more nodes than there are, and the totals
  add up.
\<close>

lemma page_of_total: "\<exists>nodes. page_of offset limit personal shared = Inr nodes"
  by (simp add: page_of_def drain_front_def Let_def)

lemma calm_or_panic: "r = Inr x \<Longrightarrow> calm (or_panic r)"
  by (simp add: or_panic_def calm_liftE)

lemma calm_page: "calm (or_panic (page_of offset limit personal shared))"
  using page_of_total calm_or_panic by metis

lemma add_i32_ok:
  assumes "checks \<Longrightarrow> 0 \<le> a \<and> a < 2 ^ 30" "checks \<Longrightarrow> 0 \<le> b \<and> b < 2 ^ 30"
  shows "\<exists>x. add_i32 checks a b = Inr x"
  using assms by (auto simp: add_i32_def i32_max_def)

text \<open>Without overflow checks totals beyond 32 bits are answered as a negative number.\<close>

lemma totals_wrap: "add_i32 False 2147483647 1 = Inr (- 2147483648)" "add_i32 True 2147483647 1 = Inl Overflow"
  by (simp_all add: add_i32_def i32_max_def as_i32_def)

text \<open>The answers of two calls made together are the services'.\<close>

lemma joined:
  "runR (join2 sv p f q g) w = (Inr ps, w') \<Longrightarrow> \<exists>h h'. ps = (f h, g h')"
  by (auto simp: runR_def join2_def Let_def)

lemma calm_fail_where: "(\<And>x. r = Inr x \<Longrightarrow> calm (f x)) \<Longrightarrow> calm (seqA (or_fail meth r) f)"
  by (cases r) (auto simp: or_fail_def calm_def)

lemma calm_totals:
  assumes "ap_overflow_checks ap \<Longrightarrow> totals_fit (ap_sv ap)"
  shows "calm (tool_search ap u args)" "calm (tool_query_nodes ap u args)"
proof -
  have s: "\<exists>x. add_i32 (ap_overflow_checks ap) (sp_total_count p) (case best_effort r of None \<Rightarrow> 0 | Some r \<Rightarrow> sp_total_count r) = Inr x"
    if "sv_search (ap_sv ap) h q = Inr p" "r = sv_search (ap_sv ap) h' q'" for h q p h' q' r
    using assms that by (intro add_i32_ok) (auto simp: totals_fit_def best_effort_def split: sum.splits)
  have n: "\<exists>x. add_i32 (ap_overflow_checks ap) (qr_total_count p) (case best_effort r of None \<Rightarrow> 0 | Some r \<Rightarrow> qr_total_count r) = Inr x"
    if "sv_query_nodes (ap_sv ap) h q = Inr p" "r = sv_query_nodes (ap_sv ap) h' q'" for h q p h' q' r
    using assms that by (intro add_i32_ok) (auto simp: totals_fit_def best_effort_def split: sum.splits)
  show "calm (tool_search ap u args)"
    unfolding tool_search_def Let_def
  proof (rule calm_checked, rule calm_seqA_where [OF calm_runR], rule joined, assumption, elim exE, hypsubst, unfold fst_conv snd_conv,
      rule calm_fail_where, intro calm_seqA calm_runR calm_done, goal_cases)
    case (1 req ps h h' p)
    show ?case (is "calm (or_panic ?sum)")
    proof -
      have "\<exists>x. ?sum = Inr x" by (rule s [OF 1(2) refl])
      then show ?thesis by (elim exE) (rule calm_or_panic)
    qed
  qed
  show "calm (tool_query_nodes ap u args)"
    unfolding tool_query_nodes_def Let_def
  proof (rule calm_checked, rule calm_seqA_where [OF calm_runR], rule joined, assumption, elim exE, hypsubst, unfold fst_conv snd_conv,
      rule calm_fail_where, intro calm_seqA calm_page calm_done, goal_cases)
    case (1 req ps h h' p)
    show ?case (is "calm (or_panic ?sum)")
    proof -
      have "\<exists>x. ?sum = Inr x" by (rule n [OF 1(2) refl])
      then show ?thesis by (elim exE) (rule calm_or_panic)
    qed
  qed
qed

lemma calm_reads:
  "calm (tool_get_schema ap u)" "calm (tool_list_schemas ap u)"
  "calm (tool_stats ap u args)" "calm (tool_feedback ap u args)"
  "calm (tool_get_job_status ap u args)"
  unfolding tool_get_schema_def tool_list_schemas_def
    tool_stats_def tool_feedback_def tool_get_job_status_def Let_def
  by (intro calm_checked calm_rules)+

lemma calm_chain: "calm (tool_chain ap u args)"
  unfolding tool_chain_def Let_def
  by (intro calm_checked calm_rules calm_liftE) (auto split: sum.splits chain_error.splits)


section \<open>The texts and names are UTF-8\<close>

lemma utf8_concat: "\<forall>d \<in> set ds. utf8 d \<Longrightarrow> utf8 (concat ds)"
  by (induction ds) (simp_all add: utf8_append)

lemma utf8_trim:
  assumes "utf8 s"
  shows "utf8 (trim s)"
proof -
  let ?cs = "rev (dropWhile is_whitespace (rev (dropWhile is_whitespace (chars s))))"
  have "list_all utf8_char ?cs"
    using assms by (auto simp: utf8_def list_all_iff dest!: set_dropWhileD)
  then show ?thesis by (simp add: trim_def utf8_def chars_concat)
qed

lemma utf8_lower:
  assumes "lowercases lower lower_char" "utf8 s"
  shows "utf8 (lower s)"
proof -
  from assms obtain ds where ds: "list_all2 (\<lambda>c d. d = concat (lower_char c) \<or> c = CAPITAL_SIGMA \<and> d = FINAL_SIGMA) (chars s) ds"
    and l: "lower s = concat ds" unfolding lowercases_def by blast
  have u: "utf8 d" if "utf8_char c" "d = concat (lower_char c) \<or> c = CAPITAL_SIGMA \<and> d = FINAL_SIGMA" for c d
    using that assms(1) final_sigma_char
    by (auto simp: lowercases_def utf8_def chars_concat chars_char)
  have "\<forall>d \<in> set ds. utf8 d"
    using ds assms(2) u by (fastforce simp: list_all2_conv_all_nth utf8_def [of s] list_all_length in_set_conv_nth)
  then show ?thesis by (simp add: l utf8_concat)
qed

lemma wf_entity_new: "lowercases lower lower_char \<Longrightarrow> utf8 n \<Longrightarrow> wf_entity (entity_new lower n ty schema)"
  by (simp add: wf_entity_def entity_new_def normalize_entity_key_def utf8_trim utf8_lower [of lower lower_char])

definition wf_catalogue :: "dedup_catalogue \<Rightarrow> bool" where
  "wf_catalogue cat \<longleftrightarrow> (\<forall>e \<in> set (dc_shared cat) \<union> set (dc_personal cat). wf_entity e)"

lemma entity_names_utf8:
  assumes "names_utf8 sv" "n \<in> set (entity_names (sv_query_nodes sv h q))"
  shows "utf8 n"
proof (cases "sv_query_nodes sv h q")
  case (Inr resp)
  with assms(2) obtain nd where "nd \<in> set (qr_nodes resp)" "map_of (nd_attributes nd) ''name'' = Some n"
    by (auto simp: entity_names_def List.map_filter_def)
  then have "\<exists>nd \<in> set (qr_nodes resp). (''name'', n) \<in> set (nd_attributes nd)" by (blast dest: map_of_SomeD)
  moreover from assms(1) Inr have "\<forall>nd \<in> set (qr_nodes resp). \<forall>kv \<in> set (nd_attributes nd). utf8 (snd kv)"
    unfolding names_utf8_def by blast
  ultimately show ?thesis by fastforce
qed (use assms(2) in \<open>simp add: entity_names_def\<close>)

lemma collect_types_wf:
  assumes lw: "lowercases (ap_lower ap) (ap_lower_char ap)" and n: "names_utf8 (ap_sv ap)"
  shows "wf_catalogue cat \<Longrightarrow> collect_types ap u tys cat w = (cat', w') \<Longrightarrow> wf_catalogue cat'"
proof (induction tys arbitrary: cat w)
  case (Cons ty tys)
  from Cons.prems(2) obtain cat1 w1 where c: "collect_types ap u tys cat1 w1 = (cat', w')"
    and cat1: "cat1 = \<lparr>dc_shared = dc_shared cat @ map (\<lambda>n. entity_new (ap_lower ap) n ty (ap_shared_schema ap))
          (entity_names (sv_query_nodes (ap_sv ap) (wd_log w) (entity_query (ap_shared_schema ap) ty))),
        dc_personal = dc_personal cat @ map (\<lambda>n. entity_new (ap_lower ap) n ty (au_schema u))
          (entity_names (sv_query_nodes (ap_sv ap) (wd_log w @ [RQueryNodes (entity_query (ap_shared_schema ap) ty)])
             (entity_query (au_schema u) ty)))\<rparr>"
    by (auto simp: seqR_def join2_def Let_def)
  have "wf_catalogue cat1"
    using Cons.prems(1) entity_names_utf8 [OF n] wf_entity_new [OF lw] unfolding cat1 wf_catalogue_def by auto
  from Cons.IH [OF this c] show ?case .
qed simp

lemma collected_wf:
  "lowercases (ap_lower ap) (ap_lower_char ap) \<Longrightarrow> names_utf8 (ap_sv ap) \<Longrightarrow>
     collect_dedup_catalogue ap u w = (cat, w') \<Longrightarrow> wf_catalogue cat"
  unfolding collect_dedup_catalogue_def by (rule collect_types_wf) (simp_all add: wf_catalogue_def)

lemma pre_checked_calm:
  "lowercases (ap_lower ap) (ap_lower_char ap) \<Longrightarrow> wf_catalogue cat \<Longrightarrow> utf8 tx \<Longrightarrow> pre_checked ap meth cat tx \<noteq> Inl (Panic e)"
  using scan_text_total [of "ap_lower ap" "ap_lower_char ap" tx cat "ap_alnum ap"]
  by (auto simp: pre_checked_def wf_catalogue_def split: pre_check.splits)

lemma json_utf8_get: "json_utf8 (JObj m) \<Longrightarrow> obj_get m k = Some v \<Longrightarrow> json_utf8 v"
  by (force simp: json_utf8.simps(3) obj_get_def dest: map_of_SomeD)

lemma require_utf8: "json_utf8 (JObj m) \<Longrightarrow> require_str_field m k owner = Inr t \<Longrightarrow> utf8 t"
  by (fastforce simp: require_str_field_def Let_def split: option.splits if_splits dest: json_utf8_get intro!: utf8_trim)

lemma message_utf8: "json_utf8 (snd ii) \<Longrightarrow> build_ingest_message ii = Inr m \<Longrightarrow> utf8 (im_text m)"
  by (auto simp: build_ingest_message_def Let_def dest: require_utf8)

lemma ingest_utf8:
  assumes "json_utf8 args" "build_ingest_request sch args = Inr req" "m \<in> set (ir_messages req)"
  shows "utf8 (im_text m)"
proof -
  from assms(2) obtain o1 arr where o1: "args = JObj o1" "obj_get o1 ''messages'' = Some (JArr arr)"
    "mapME build_ingest_message (List.enumerate 0 arr) = Inr (ir_messages req)"
    by (auto simp: build_ingest_request_def require_object_args_def)
  have j: "\<forall>x \<in> set arr. json_utf8 x" using json_utf8_get [OF _ o1(2)] assms(1) o1(1) by simp
  have "utf8 (im_text m)" if "m \<in> set ms" "mapME build_ingest_message iis = Inr ms" "\<forall>ii \<in> set iis. json_utf8 (snd ii)" for ms iis
    using that by (induction iis arbitrary: ms) (auto dest!: message_utf8 [rotated])
  moreover have "\<forall>ii \<in> set (List.enumerate 0 arr). json_utf8 (snd ii)" using j by (auto simp: enumerate_snd)
  ultimately show ?thesis using o1(3) assms(3) by blast
qed

lemma raw_utf8: "json_utf8 args \<Longrightarrow> build_ingest_raw_request sch args = Inr req \<Longrightarrow> utf8 (irr_text req)"
  by (auto simp: build_ingest_raw_request_def require_object_args_def dest: require_utf8)

lemma calm_messages:
  assumes "lowercases (ap_lower ap) (ap_lower_char ap)" "wf_catalogue cat"
  shows "\<forall>m \<in> set ms. utf8 (im_text m) \<Longrightarrow> calm (ingest_messages ap cat names enabled deadline i ex ms)"
proof (induction ms arbitrary: i ex)
  case Nil
  then show ?case by (simp add: calm_def)
next
  case (Cons m ms)
  then show ?case
    unfolding ingest_messages.simps
    by (intro calm_seqA calm_runR calm_liftE calm_okA) (simp_all add: pre_checked_calm [OF assms])
qed

lemma calm_ingest:
  assumes "lowercases (ap_lower ap) (ap_lower_char ap)" "names_utf8 (ap_sv ap)" "json_utf8 args"
  shows "calm (tool_ingest ap u args)" "calm (tool_ingest_raw ap u args)"
proof -
  have c: "wf_catalogue cat" if "runR (collect_dedup_catalogue ap u) w = (Inr cat, w')" for w w' cat
    using that collected_wf [OF assms(1,2)] by (auto simp: runR_def split: prod.splits)
  show "calm (tool_ingest ap u args)"
    unfolding tool_ingest_def
    by (rule calm_checked, rule calm_seqA_where [where Q = wf_catalogue], rule calm_runR, erule c, unfold Let_def)
       (intro calm_rules calm_messages, simp_all add: assms ingest_utf8 [OF assms(3)])
  show "calm (tool_ingest_raw ap u args)"
    unfolding tool_ingest_raw_def
    by (rule calm_checked, rule calm_seqA_where [where Q = wf_catalogue], rule calm_runR, erule c, unfold Let_def)
       (intro calm_rules calm_liftE, simp_all add: assms pre_checked_calm raw_utf8 [OF assms(3)])
qed

lemma calm_tool:
  assumes "lowercases (ap_lower ap) (ap_lower_char ap)" "names_utf8 (ap_sv ap)" "ap_overflow_checks ap \<Longrightarrow> totals_fit (ap_sv ap)"
    and "json_utf8 args" "tool_handler ap u name args = Some h"
  shows "calm h"
  using assms(5) calm_totals [OF assms(3)] calm_reads calm_chain calm_ingest [OF assms(1,2,4)] calm_okA
  by (auto simp: tool_handler_def split: if_splits)

lemma calm_call:
  assumes "lowercases (ap_lower ap) (ap_lower_char ap)" "names_utf8 (ap_sv ap)" "ap_overflow_checks ap \<Longrightarrow> totals_fit (ap_sv ap)"
    and "json_utf8 params"
  shows "fst (tools_call ap u params w) \<noteq> CallPanic e"
proof (cases params)
  case (JObj m)
  have "json_utf8 (case obj_get m ''arguments'' of None \<Rightarrow> JObj [] | Some a \<Rightarrow> a)"
    using assms(4) json_utf8_get [of m] JObj by (auto simp: json_utf8.simps(3) [of "[]"] split: option.splits)
  note calm_tool [OF assms(1-3) this, unfolded calm_def, of u]
  with JObj show ?thesis
    by (auto simp: tools_call_def Let_def split: option.splits prod.splits sum.splits early.splits) (metis fst_conv)+
qed (simp_all add: tools_call_def as_object_def)

section \<open>Property\<close>

text \<open>C9. No tool call panics: not by slicing a text, not by draining a page, not by adding up totals. For every name and
  arguments whose strings are UTF-8 (as all Rust strings are), whatever the services answer with UTF-8 names, whichever
  statements fail and whatever a lowercasing that follows the standard library's documentation does, the call answers with
  content or a JSON-RPC error. In a build with overflow checks this needs totals of the backend that add up
  within 32 bits; without them (as deployed) nothing of the kind.\<close>

theorem tools_never_panic:
  assumes "lowercases (ap_lower ap) (ap_lower_char ap)" "names_utf8 (ap_sv ap)" "json_utf8 params"
    and "ap_overflow_checks ap \<Longrightarrow> totals_fit (ap_sv ap)"
  shows "fst (tools_call ap u params w) \<noteq> CallPanic e"
  using assms(1,2,4,3) by (rule calm_call)

theorem tools_never_panic_witness:
  "fst (tools_call silent_app user_one (JObj [(''name'', JStr ''ingest_raw''), (''arguments'',
      JObj [(''text'', JStr ''a TEA''), (''metadata'', JObj [(''source_type'', JStr ''chat'')])])]) fresh_world) \<noteq> CallPanic BadSlice"
proof -
  have "lowercases (ap_lower silent_app) (ap_lower_char silent_app)" by (simp add: silent_app_def sample_lowercases)
  moreover have "names_utf8 (ap_sv silent_app)" by (simp add: silent_app_def silent_services_def names_utf8_def)
  moreover have "totals_fit (ap_sv silent_app)" by (simp add: silent_app_def silent_services_def totals_fit_def)
  ultimately show ?thesis
    by (intro tools_never_panic) (simp_all add: json_utf8.simps(3) utf8_def utf8_char_def is_cont_def cont_count_def)
qed

end
