(* ===== verification/Vp_Transport.thy ===== *)
theory Vp_Transport
  imports Json_Rpc Vp_Contract Vp_Ingest
begin

text \<open>
  \<open>mcp/transport.rs\<close> of \<open>vegapunk-memory-server\<close>: the methods of its MCP endpoint, and the contract of
  \<open>Json_Rpc\<close> kept by its dispatcher.
\<close>

definition SERVER_NAME :: string where "SERVER_NAME = ''vegapunk-memory-server''"

section \<open>Dispatch\<close>

definition call_error_message :: "call_error \<Rightarrow> string" where
  "call_error_message e = (case e of
       ParamsNotObject \<Rightarrow> ''Invalid params: must be a JSON object''
     | MissingName \<Rightarrow> ''Invalid params: missing '' @ quoted ''name''
     | NameNotString \<Rightarrow> ''Invalid params: '' @ quoted ''name'' @ '' must be a string''
     | EmptyName \<Rightarrow> ''Invalid params: '' @ quoted ''name'' @ '' must not be empty''
     | UnknownTool name \<Rightarrow> ''Invalid params: unknown tool '' @ quoted name)"

definition call_response :: "json option \<Rightarrow> call_result \<Rightarrow> panic + jsonrpc_response" where
  "call_response i res = (case res of
       CallError e \<Rightarrow> Inr (rpc_error i (- 32602) (call_error_message e))
     | CallContent c \<Rightarrow> Inr (rpc_success i c)
     | CallPanic e \<Rightarrow> Inl e)"

definition method_response :: "wording \<Rightarrow> app \<Rightarrow> auth_user \<Rightarrow> jsonrpc_request \<Rightarrow> (world, panic, jsonrpc_response) act" where
  "method_response wo ap u req =
     (let i = jq_id req; meth = jq_method req in
      if meth = ''initialize'' then okA (rpc_success i (JObj [(''protocolVersion'', JStr MCP_PROTOCOL_VERSION),
          (''capabilities'', JObj [(''tools'', JObj [(''listChanged'', JBool False)])]),
          (''serverInfo'', JObj [(''name'', JStr SERVER_NAME), (''version'', JStr (wo_version wo))])]))
      else if meth = ''ping'' then okA (rpc_success i (JObj []))
      else if meth = ''tools/list'' then okA (rpc_success i tools_list)
      else if meth = ''tools/call'' then (\<lambda>w. case tools_call ap u (jq_params req) w of (res, w') \<Rightarrow> (call_response i res, w'))
      else okA (rpc_error i (- 32601) ''Method not found''))"

definition dispatch_one :: "wording \<Rightarrow> app \<Rightarrow> auth_user \<Rightarrow> jsonrpc_request \<Rightarrow> (world, panic, outcome) act" where
  "dispatch_one wo ap u req =
     (if starts_with (jq_method req) ''notifications/'' then
        (if jq_id req \<noteq> None
         then okA (Response (rpc_error (jq_id req) (- 32600) (''Invalid Request: '' @ quoted (jq_method req)
                @ '' must be sent as a Notification (no id)'')))
         else okA Notification)
      else seqA (method_response wo ap u req) (\<lambda>r. okA (if jq_id req = None then Notification else Response r)))"

definition handle :: "wording \<Rightarrow> app \<Rightarrow> auth_user \<Rightarrow> json option \<Rightarrow> http_answer run" where
  "handle wo ap u body = rpc_handle wo (dispatch_one wo ap u) body"

section \<open>The dispatcher keeps its contract\<close>

lemma call_response_well_formed: "call_response i res = Inr r \<Longrightarrow> well_formed i r"
  by (auto simp: call_response_def well_formed_def split: call_result.splits)

lemma method_response_well_formed:
  "method_response wo ap u req w = (Inr r, w') \<Longrightarrow> well_formed (jq_id req) r"
  by (auto simp: method_response_def Let_def well_formed_def split: if_splits prod.splits
      dest!: call_response_well_formed [unfolded well_formed_def])

interpretation vp_rpc: dispatcher "dispatch_one wo ap u"
proof unfold_locales
  fix req w out w' assume d: "dispatch_one wo ap u req w = (Inr out, w')"
  show "jq_id req = None \<Longrightarrow> out = Notification" using d by (auto simp: dispatch_one_def seqA_Inr_iff split: if_splits)
  show "\<exists>r. out = Response r \<and> well_formed (Some i) r" if "jq_id req = Some i" for i
    using d that by (auto simp: dispatch_one_def seqA_Inr_iff split: if_splits dest: method_response_well_formed)
qed

section \<open>Nothing panics, nothing leaks\<close>

lemma de_request_utf8: "json_utf8 e \<Longrightarrow> de_request e = Some r \<Longrightarrow> json_utf8 (jq_params r)"
  by (fastforce simp: de_request_def de_fields_def de_default_def json_utf8.simps(3) split: json.splits list.splits option.splits
      dest: arg_cong [of _ _ set])

lemma dispatch_one_calm:
  assumes "lowercases (ap_lower ap) (ap_lower_char ap)" "names_utf8 (ap_sv ap)" "ap_overflow_checks ap \<Longrightarrow> totals_fit (ap_sv ap)"
    "json_utf8 (jq_params req)"
  shows "\<exists>out w'. dispatch_one wo ap u req w = (Inr out, w')"
proof -
  have "\<forall>e. fst (tools_call ap u (jq_params req) w) \<noteq> CallPanic e" by (intro allI calm_call [OF assms])
  then have "\<exists>r w'. method_response wo ap u req w = (Inr r, w')"
    by (auto simp: method_response_def Let_def call_response_def split: prod.splits call_result.splits)
  then show ?thesis by (auto simp: dispatch_one_def)
qed

lemma guarded_dispatch: "keeps (guarded ap u w0) (dispatch_one wo ap u req)"
proof -
  have "keeps (guarded ap u w0) (\<lambda>w. case tools_call ap u p w of (res, w') \<Rightarrow> (call_response i res, w'))" for p i
    using guarded_trans [OF _ guarded_call [of ap u _ p]] by (simp add: keeps_def split_beta)
  then have "keeps (guarded ap u w0) (method_response wo ap u req)"
    by (auto simp: method_response_def Let_def)
  then show ?thesis by (auto simp: dispatch_one_def)
qed

section \<open>Property\<close>

text \<open>C32. One HTTP request never breaks: whatever UTF-8 JSON it carries, a batch is answered by the array of the answers
  to exactly its entries that are not notifications, in order, each with the entry's id (null when the
  entry is no request) and either a result or an error; a request alone is answered alone, notifications
  alone by status 202; and everything sent to the backend on the way is allowed for the caller.\<close>

theorem jsonrpc_answers:
  assumes "lowercases (ap_lower ap) (ap_lower_char ap)" "names_utf8 (ap_sv ap)" "json_utf8 v"
    and "es = (case v of JArr xs \<Rightarrow> xs | _ \<Rightarrow> [v])" "es \<noteq> []" "handle wo ap u (Some v) w = (a, w')"
    and totals: "ap_overflow_checks ap \<Longrightarrow> totals_fit (ap_sv ap)"
  shows "(\<exists>rs. list_all2 answers (filter (\<lambda>e. \<not> is_notification e) es) rs
      \<and> a = (if rs = [] then HttpAccepted else if as_array v \<noteq> None then HttpJson (JArr rs) else HttpJson (hd rs)))
    \<and> (\<exists>qs. wd_log w' = wd_log w @ qs \<and> log_allowed ap u (length (wd_log w)) (wd_log w) w' qs)"
proof -
  have es: "es = (case as_array v of None \<Rightarrow> [v] | Some xs \<Rightarrow> xs)"
    using assms(4) by (simp add: as_array_def split: json.splits)
  have u: "\<forall>e \<in> set es. json_utf8 e" using assms(3,4) by (auto split: json.splits)
  have "\<exists>out w'. dispatch_one wo ap u req w = (Inr out, w')" if "e \<in> set es" "de_request e = Some req" for e req w
    by (rule dispatch_one_calm [OF assms(1,2) totals de_request_utf8 [OF u [rule_format, OF that(1)] that(2)]])
  then have "\<exists>os w1. rpc_outcomes wo (dispatch_one wo ap u) es w = (Inr os, w1)" by (rule rpc_outcomes_total)
  then obtain os w1 where o: "rpc_outcomes wo (dispatch_one wo ap u) es w = (Inr os, w1)" by blast
  from vp_rpc.handle_answers [OF o es assms(5)] obtain rs where rs: "list_all2 answers (filter (\<lambda>e. \<not> is_notification e) es) rs"
    "rpc_handle wo (dispatch_one wo ap u) (Some v) w =
       ((if rs = [] then HttpAccepted else if as_array v \<noteq> None then HttpJson (JArr rs) else HttpJson (hd rs)), w1)" by blast
  have a: "a = (if rs = [] then HttpAccepted else if as_array v \<noteq> None then HttpJson (JArr rs) else HttpJson (hd rs))"
    using assms(6) unfolding handle_def rs(2) by simp
  have "keeps (guarded ap u w) (rpc_handle wo (dispatch_one wo ap u) (Some v))"
    by (rule keeps_rpc_handle) (rule guarded_dispatch)
  then have g: "guarded ap u w w'" using assms(6) guarded_refl [of ap u w] by (auto simp: handle_def keeps_def dest: spec [of _ w])
  then have "\<exists>qs. wd_log w' = wd_log w @ qs \<and> log_allowed ap u (length (wd_log w)) (wd_log w) w' qs"
    by (rule guardedD) blast
  with rs(1) a show ?thesis by blast
qed

theorem jsonrpc_answers_witness:
  "fst (handle \<lparr>wo_serde = \<lambda>_. [], wo_debug = \<lambda>s. s, wo_version = ''0''\<rparr> silent_app user_one
     (Some (JArr [JObj [(''jsonrpc'', JStr ''2.0''), (''method'', JStr ''notifications/initialized'')],
                  JObj [(''jsonrpc'', JStr ''2.0''), (''id'', JNull), (''method'', JStr ''ping'')]])) fresh_world)
   = HttpJson (JArr [JObj [(''jsonrpc'', JStr ''2.0''), (''id'', JNull), (''result'', JObj [])]])"
proof -
  let ?wo = "\<lparr>wo_serde = \<lambda>_. [], wo_debug = \<lambda>s. s, wo_version = ''0''\<rparr>"
  let ?n = "JObj [(''jsonrpc'', JStr ''2.0''), (''method'', JStr ''notifications/initialized'')]"
  let ?p = "JObj [(''jsonrpc'', JStr ''2.0''), (''id'', JNull), (''method'', JStr ''ping'')]"
  have l: "lowercases (ap_lower silent_app) (ap_lower_char silent_app)" by (simp add: silent_app_def sample_lowercases)
  have n: "names_utf8 (ap_sv silent_app)" by (simp add: silent_app_def silent_services_def names_utf8_def)
  have u: "json_utf8 (JArr [?n, ?p])"
    by (simp add: json_utf8.simps(3) utf8_def utf8_char_def is_cont_def cont_count_def)
  have dn: "de_request ?n = Some \<lparr>jq_jsonrpc = ''2.0'', jq_id = None, jq_method = ''notifications/initialized'', jq_params = JNull\<rparr>"
    and dp: "de_request ?p = Some \<lparr>jq_jsonrpc = ''2.0'', jq_id = Some JNull, jq_method = ''ping'', jq_params = JNull\<rparr>"
    by (simp_all add: de_request_def de_fields_def de_default_def de_req_def)
  have run: "handle ?wo silent_app user_one (Some (JArr [?n, ?p])) fresh_world
      = (HttpJson (JArr [response_json (rpc_success (Some JNull) (JObj []))]), fresh_world)"
    by (simp add: handle_def rpc_handle_def rpc_entry_def dn dp jsonrpc_version_is_valid_def id_type_is_valid_def
        dispatch_one_def starts_with_def method_response_def into_response_value_def as_array_def List.map_filter_simps)
  have "totals_fit (ap_sv silent_app)" by (simp add: silent_app_def silent_services_def totals_fit_def)
  with jsonrpc_answers [OF l n u _ _ run] obtain rs
    where "list_all2 answers (filter (\<lambda>e. \<not> is_notification e) [?n, ?p]) rs"
      "JArr [response_json (rpc_success (Some JNull) (JObj []))] = JArr rs"
    by (auto simp: as_array_def split: if_splits)
  with run show ?thesis by (simp add: response_json_def rpc_success_def json_opt_def)
qed

end
