(* ===== verification/Vp_Site.thy ===== *)
theory Vp_Site
  imports Vp_Tenants Vp_Transport
begin

text \<open>
  The whole of \<open>vegapunk-memory-server\<close> (\<open>app.rs\<close>): the authorization server, and the MCP endpoint behind the
  bearer check. The two work on one database; its users are the rows \<open>tool_ownership\<close> may refer to.
\<close>

section \<open>Serving\<close>

record vp_site =
  vsi_auth :: auth
  vsi_world :: world

datatype vp_call =
    VpWeb web_request
  | VpMcp "string option" "json option"
  | VpHealth

datatype vp_reply =
    VpResponse response
  | VpRefused http_refusal
  | VpAnswer http_answer
  | VpHealthy

definition check_bearer :: "auth_env \<Rightarrow> string option \<Rightarrow> (auth, http_refusal, authenticated_user) act" where
  "check_bearer env bearer s = (let t = snd (clock_ms s) in
     case require_auth env bearer (at_now t) (at_store t) of (r, st) \<Rightarrow> (r, t\<lparr>at_store := st\<rparr>))"

definition mcp_user :: "authenticated_user \<Rightarrow> auth_user" where
  "mcp_user a = \<lparr>au_id = us_user_id a, au_schema = us_schema a\<rparr>"

definition with_users :: "auth \<Rightarrow> world \<Rightarrow> world" where
  "with_users t w = w\<lparr>wd_users := map vu_id (vs_users (at_store t))\<rparr>"

definition vp_serve :: "wording \<Rightarrow> auth_env \<Rightarrow> app \<Rightarrow> vp_call \<Rightarrow> vp_site \<Rightarrow> vp_reply \<times> vp_site" where
  "vp_serve wo env ap q s = (case q of
       VpWeb r \<Rightarrow> (case serve env r (vsi_auth s) of (a, t) \<Rightarrow> (VpResponse a, s\<lparr>vsi_auth := t\<rparr>))
     | VpMcp bearer body \<Rightarrow> (case check_bearer env bearer (vsi_auth s) of
           (Inl e, t) \<Rightarrow> (VpRefused e, s\<lparr>vsi_auth := t\<rparr>)
         | (Inr u, t) \<Rightarrow> (case handle wo ap (mcp_user u) body (with_users t (vsi_world s)) of
               (a, w) \<Rightarrow> (VpAnswer a, \<lparr>vsi_auth = t, vsi_world = w\<rparr>)))
     | VpHealth \<Rightarrow> (VpHealthy, s))"

fun vp_run :: "wording \<Rightarrow> auth_env \<Rightarrow> app \<Rightarrow> vp_call list \<Rightarrow> vp_site \<Rightarrow> vp_site" where
  "vp_run wo env ap [] s = s"
| "vp_run wo env ap (q # qs) s = vp_run wo env ap qs (snd (vp_serve wo env ap q s))"

text \<open>What a request sends to the backend while it is served.\<close>

definition sent :: "vp_site \<Rightarrow> vp_site \<Rightarrow> request list" where
  "sent s s' = drop (length (wd_log (vsi_world s))) (wd_log (vsi_world s'))"

definition names_schema :: "request \<Rightarrow> string option" where
  "names_schema q = (case q of
       RSearch r \<Rightarrow> Some (sr_schema r)
     | RGetSchema n \<Rightarrow> Some n
     | RListSchemas \<Rightarrow> None
     | RIngest r \<Rightarrow> Some (ir_schema r)
     | RIngestRaw r \<Rightarrow> Some (irr_schema r)
     | RQueryNodes r \<Rightarrow> Some (qn_schema r)
     | RGetStats r \<Rightarrow> gs_schema r
     | RChain r \<Rightarrow> tc_schema r
     | RFeedback f \<Rightarrow> None
     | RJobStatus i \<Rightarrow> None
     | RListJobs lq \<Rightarrow> None
     | RGemini p n \<Rightarrow> None)"

definition rates :: "request \<Rightarrow> string option" where
  "rates q = (case q of RFeedback f \<Rightarrow> Some (fb_search_id f) | _ \<Rightarrow> None)"

section \<open>The bearer check leaves the users\<close>

lemma require_auth_users: "vs_users (snd (require_auth env b now st)) = vs_users st"
proof -
  have "vs_users (snd (vp_find_by_id i st)) = vs_users st" for i st
    by (simp add: vp_find_by_id_def vquery_users)
  then show ?thesis
    by (auto simp: require_auth_def seqA_def split_beta of_option_def split: sum.split option.split)
qed

lemma clock_store: "at_store (snd (clock_ms t)) = at_store t"
  by (simp add: clock_ms_def split: list.split)

lemma check_bearer_users: "vs_users (at_store (snd (check_bearer env b t))) = vs_users (at_store t)"
  using require_auth_users by (simp add: check_bearer_def Let_def split_beta clock_store)

lemma check_bearer_Inr:
  "check_bearer env b t = (Inr u, t') \<Longrightarrow> \<exists>now. fst (require_auth env b now (at_store t)) = Inr u"
  by (auto simp: check_bearer_def Let_def split_beta clock_store)

lemma check_bearer_row:
  assumes "check_bearer env b t = (Inr u, t')"
  shows "\<exists>r \<in> set (vs_users (at_store t)). vu_id r = us_user_id u \<and> vu_schema r = us_schema u"
  using check_bearer_Inr [OF assms] bearer_row by blast

section \<open>Invariants of a run\<close>

text \<open>Users stay, each in the schema of its own subject; who owns an identifier stays its owner.\<close>

definition users_after :: "vp_user list \<Rightarrow> vstore \<Rightarrow> bool" where
  "users_after us st \<longleftrightarrow> set us \<subseteq> set (vs_users st) \<and> users_inv st \<and> (\<forall>u \<in> set (vs_users st). tenant_row u)"

definition site_tenancy :: "vp_user list \<Rightarrow> ownership list \<Rightarrow> vp_site \<Rightarrow> bool" where
  "site_tenancy us os s \<longleftrightarrow> users_after us (at_store (vsi_auth s)) \<and> (\<exists>xs. wd_owned (vsi_world s) = os @ xs)"

lemma users_after_cong: "vs_users st' = vs_users st \<Longrightarrow> users_after us st' = users_after us st"
  by (simp add: users_after_def users_inv_def)

lemma users_after_serve:
  assumes "users_after us (at_store t)"
  shows "users_after us (at_store (snd (serve env q t)))"
proof -
  have "tenancy_at (at_store t) t" using assms by (simp add: users_after_def tenancy_at_def tenancy_def lasts_refl)
  then have "tenancy_at (at_store t) (snd (serve env q t))"
    using keeps_web_step [OF keeps_tenancy] unfolding web_step_def by blast
  then show ?thesis using assms by (auto simp: users_after_def tenancy_at_def tenancy_def lasts_def)
qed

text \<open>One MCP request: the requests it sends are allowed for its user.\<close>

lemma guarded_handle: "guarded ap u w (snd (handle wo ap u body w))"
proof -
  have "keeps (guarded ap u w) (handle wo ap u body)"
    unfolding handle_def by (rule keeps_rpc_handle) (rule guarded_dispatch)
  then show ?thesis using guarded_refl by (simp add: keeps_def)
qed

lemma vp_serve_McpD:
  assumes "check_bearer env b (vsi_auth s) = (Inr u, t)"
  shows "guarded ap (mcp_user u) (with_users t (vsi_world s)) (vsi_world (snd (vp_serve wo env ap (VpMcp b body) s)))"
    "vsi_auth (snd (vp_serve wo env ap (VpMcp b body) s)) = t"
  using guarded_handle [of ap "mcp_user u" "with_users t (vsi_world s)" wo body] by (simp_all add: vp_serve_def assms split_beta)

lemma site_tenancy_serve:
  assumes s: "site_tenancy us os s"
  shows "site_tenancy us os (snd (vp_serve wo env ap q s))"
proof (cases q)
  case (VpWeb r)
  then show ?thesis using s users_after_serve by (simp add: site_tenancy_def vp_serve_def split_beta)
next
  case (VpMcp b body)
  obtain r t where c: "check_bearer env b (vsi_auth s) = (r, t)" by fastforce
  have u: "users_after us (at_store t)"
  proof -
    have "vs_users (at_store t) = vs_users (at_store (vsi_auth s))" using check_bearer_users [of env b "vsi_auth s"] by (simp add: c)
    from users_after_cong [OF this, of us] s show ?thesis by (simp add: site_tenancy_def)
  qed
  show ?thesis
  proof (cases r)
    case (Inl e)
    then show ?thesis using s u c VpMcp by (simp add: site_tenancy_def vp_serve_def)
  next
    case (Inr a)
    with c have c: "check_bearer env b (vsi_auth s) = (Inr a, t)" by simp
    have "extends (with_users t (vsi_world s)) (vsi_world (snd (vp_serve wo env ap (VpMcp b body) s)))"
      using vp_serve_McpD(1) [OF c] by (simp add: guarded_def)
    then have "\<exists>xs. wd_owned (vsi_world (snd (vp_serve wo env ap q s))) = os @ xs"
      using s by (auto simp: extends_def with_users_def site_tenancy_def VpMcp)
    then show ?thesis using u vp_serve_McpD(2) [OF c] by (simp add: site_tenancy_def VpMcp)
  qed
qed (use s in \<open>simp add: vp_serve_def\<close>)

lemma site_tenancy_run: "site_tenancy us os s \<Longrightarrow> site_tenancy us os (vp_run wo env ap qs s)"
  by (induction qs arbitrary: s) (simp_all add: site_tenancy_serve)

section \<open>Tenants apart, end to end\<close>

lemma allowed_schema: "allowed ap u n' h w q \<Longrightarrow> names_schema q = Some n \<Longrightarrow> n = au_schema u \<or> n = ap_shared_schema ap"
  by (auto simp: allowed_def names_schema_def split: request.splits)

lemma allowed_rating: "allowed ap u n h w q \<Longrightarrow> rates q = Some i \<Longrightarrow> owned_by w Search i (au_id u)"
  by (auto simp: allowed_def rates_def split: request.splits)

lemma owner_unique: "wd_owned w' = wd_owned w @ xs \<Longrightarrow> owned_by w k i u \<Longrightarrow> owned_by w' k i u' \<Longrightarrow> u = u'"
  by (auto simp: owned_by_def find_append_some)

text \<open>
  C2. Two users never make the server touch the same data of the backend. Whatever requests were served before and in
  between (registrations, logins, other users' calls), if the bearers of two MCP requests are accepted as different
  users, then no schema is named in what is sent to the backend for both, except the shared one, and no
  search is rated by both.
\<close>
theorem tenants_end_to_end:
  assumes start: "users_inv (at_store (vsi_auth s0))" "\<forall>u \<in> set (vs_users (at_store (vsi_auth s0))). tenant_row u"
    and one: "s = vp_run wo env ap qs s0" "check_bearer env b (vsi_auth s) = (Inr u, t)"
      "s1 = snd (vp_serve wo env ap (VpMcp b body) s)"
    and two: "s' = vp_run wo env ap qs' s1" "check_bearer env b' (vsi_auth s') = (Inr u', t')"
      "s2 = snd (vp_serve wo env ap (VpMcp b' body') s')"
    and other: "us_user_id u \<noteq> us_user_id u'" and q: "q \<in> set (sent s s1)" "q' \<in> set (sent s' s2)"
  shows "(names_schema q \<noteq> None \<longrightarrow> names_schema q = names_schema q' \<longrightarrow> names_schema q = Some (ap_shared_schema ap))
     \<and> (rates q \<noteq> None \<longrightarrow> rates q \<noteq> rates q')"
proof -
  have st: "site_tenancy (vs_users (at_store (vsi_auth s))) (wd_owned (vsi_world s1)) s'"
  proof -
    have "site_tenancy [] [] s0" using start by (simp add: site_tenancy_def users_after_def)
    then have "site_tenancy [] [] s" unfolding one(1) by (rule site_tenancy_run)
    then have "site_tenancy (vs_users (at_store (vsi_auth s))) [] s" by (simp add: site_tenancy_def users_after_def)
    then have "site_tenancy (vs_users (at_store (vsi_auth s))) [] s1" unfolding one(3) by (rule site_tenancy_serve)
    then have "site_tenancy (vs_users (at_store (vsi_auth s))) (wd_owned (vsi_world s1)) s1" by (simp add: site_tenancy_def)
    then show ?thesis unfolding two(1) by (rule site_tenancy_run)
  qed
  obtain n h m g where a: "allowed ap (mcp_user u) n h (vsi_world s1) q" "allowed ap (mcp_user u') m g (vsi_world s2) q'"
    using vp_serve_McpD(1) [OF one(2), of ap wo body] vp_serve_McpD(1) [OF two(2), of ap wo body'] q one(3) two(3)
    by (auto simp: guarded_def sent_def with_users_def dest!: log_allowedD)
  have sch: "us_schema u \<noteq> us_schema u'"
  proof -
    from check_bearer_row [OF one(2)] st obtain r where r: "r \<in> set (vs_users (at_store (vsi_auth s')))"
      "vu_id r = us_user_id u" "vu_schema r = us_schema u" by (auto simp: site_tenancy_def users_after_def)
    from check_bearer_row [OF two(2)] obtain r' where r': "r' \<in> set (vs_users (at_store (vsi_auth s')))"
      "vu_id r' = us_user_id u'" "vu_schema r' = us_schema u'" by blast
    have i: "inj_on (\<lambda>u. (vu_provider u, vu_subject u)) (set (vs_users (at_store (vsi_auth s'))))"
      and rows: "tenant_row r" "tenant_row r'"
      using st r(1) r'(1) by (auto simp: site_tenancy_def users_after_def users_inv_def distinct_map)
    have "r \<noteq> r'" using other r(2) r'(2) by auto
    with inj_onD [OF i _ r(1) r'(1)] rows have "vu_schema r \<noteq> vu_schema r'" by (auto simp: tenant_row_def)
    with r(3) r'(3) show ?thesis by simp
  qed
  obtain xs ys where o: "wd_owned (vsi_world s2) = wd_owned (vsi_world s1) @ xs @ ys"
  proof -
    have "extends (with_users t' (vsi_world s')) (vsi_world s2)"
      using vp_serve_McpD(1) [OF two(2)] two(3) by (simp add: guarded_def)
    with st show ?thesis by (auto simp: site_tenancy_def extends_def with_users_def intro: that)
  qed
  have "rates q \<noteq> rates q'" if r: "rates q = Some i" for i
  proof
    assume e: "rates q = rates q'"
    have "owned_by (vsi_world s1) Search i (us_user_id u)" "owned_by (vsi_world s2) Search i (us_user_id u')"
      using allowed_rating [OF a(1) r] allowed_rating [OF a(2)] r e by (simp_all add: mcp_user_def)
    from owner_unique [OF o this] other show False by simp
  qed
  moreover have "n = ap_shared_schema ap" if "names_schema q = Some n" "names_schema q' = Some n" for n
    using allowed_schema [OF a(1) that(1)] allowed_schema [OF a(2) that(2)] sch by (auto simp: mcp_user_def)
  ultimately show ?thesis by auto
qed

text \<open>Two users who both ask for their schema.\<close>

definition two_site :: vp_site where
  "two_site = \<lparr>vsi_auth = demo_start\<lparr>at_store := demo_users\<lparr>vs_users := vs_users demo_users @ [\<lparr>vu_id = ''v'',
     vu_provider = ''google'', vu_subject = ''x'', vu_email = None, vu_schema = ''user-x'', vu_created_at = 0\<rparr>]\<rparr>\<rparr>,
     vsi_world = fresh_world\<rparr>"

definition ask_schema :: json where
  "ask_schema = JObj [(''jsonrpc'', JStr ''2.0''), (''id'', JInt 1), (''method'', JStr ''tools/call''),
     (''params'', JObj [(''name'', JStr ''get_schema''), (''arguments'', JObj [])])]"

definition plain_wording :: wording where
  "plain_wording = \<lparr>wo_serde = \<lambda>_. [], wo_debug = \<lambda>s. s, wo_version = ''0''\<rparr>"

lemma ask_schema_sends:
  "wd_log (snd (handle plain_wording silent_app u (Some ask_schema) w)) = wd_log w @ [RGetSchema (au_schema u), RGetSchema ''shared'']"
proof -
  have d: "de_request ask_schema = Some \<lparr>jq_jsonrpc = ''2.0'', jq_id = Some (JInt 1), jq_method = ''tools/call'',
      jq_params = JObj [(''name'', JStr ''get_schema''), (''arguments'', JObj [])]\<rparr>"
    by (simp add: ask_schema_def de_request_def de_fields_def de_default_def de_req_def)
  have e: "as_array ask_schema = None" by (simp add: ask_schema_def as_array_def)
  show ?thesis
    by (simp add: handle_def rpc_handle_def e rpc_entry_def d jsonrpc_version_is_valid_def id_type_is_valid_def plain_wording_def
      dispatch_one_def starts_with_def method_response_def Let_def tools_call_def tool_handler_def tool_get_schema_def seqA_def
      runR_def join2_def or_fail_def silent_app_def silent_services_def call_response_def into_response_value_def
      List.map_filter_simps)
qed

lemma two_bearers:
  "check_bearer demo_bearer (Some ''u'') (vsi_auth two_site)
     = (Inr \<lparr>us_user_id = ''u'', us_client_id = ''c'', us_schema = ''user-s''\<rparr>, vsi_auth two_site)"
  "check_bearer demo_bearer (Some ''v'') (vsi_auth two_site)
     = (Inr \<lparr>us_user_id = ''v'', us_client_id = ''c'', us_schema = ''user-x''\<rparr>, vsi_auth two_site)"
  by (simp_all add: two_site_def check_bearer_def clock_ms_def demo_start_def demo_users_def demo_bearer_def demo_defs
      require_auth_def jwt_verify_def vp_find_by_id_def vquery_def vstmt_def Let_def)

lemma two_logs:
  assumes "check_bearer demo_bearer b (vsi_auth s) = (Inr u, t)"
  shows "sent s (snd (vp_serve plain_wording demo_bearer silent_app (VpMcp b (Some ask_schema)) s))
    = [RGetSchema (us_schema u), RGetSchema ''shared'']"
  by (simp add: sent_def vp_serve_def assms split_beta ask_schema_sends with_users_def mcp_user_def)

theorem tenants_end_to_end_witness:
  "let s1 = snd (vp_serve plain_wording demo_bearer silent_app (VpMcp (Some ''u'') (Some ask_schema)) two_site);
       s2 = snd (vp_serve plain_wording demo_bearer silent_app (VpMcp (Some ''v'') (Some ask_schema)) s1) in
     sent two_site s1 = [RGetSchema ''user-s'', RGetSchema ''shared''] \<and> sent s1 s2 = [RGetSchema ''user-x'', RGetSchema ''shared'']
     \<and> (\<forall>q \<in> set (sent two_site s1). \<forall>q' \<in> set (sent s1 s2).
          names_schema q = names_schema q' \<longrightarrow> names_schema q \<noteq> None \<longrightarrow> names_schema q = Some ''shared'')"
proof -
  let ?s1 = "snd (vp_serve plain_wording demo_bearer silent_app (VpMcp (Some ''u'') (Some ask_schema)) two_site)"
  let ?s2 = "snd (vp_serve plain_wording demo_bearer silent_app (VpMcp (Some ''v'') (Some ask_schema)) ?s1)"
  have start: "users_inv (at_store (vsi_auth two_site))" "\<forall>u \<in> set (vs_users (at_store (vsi_auth two_site))). tenant_row u"
    by (simp_all add: two_site_def demo_users_def users_inv_def tenant_row_def)
  have v: "vsi_auth ?s1 = vsi_auth two_site" by (rule vp_serve_McpD(2) [OF two_bearers(1)])
  note b = two_bearers(2) [folded v]
  have one: "two_site = vp_run plain_wording demo_bearer silent_app [] two_site" "?s1 = vp_run plain_wording demo_bearer silent_app [] ?s1"
    by simp_all
  have "names_schema q = Some ''shared''" if "q \<in> set (sent two_site ?s1)" "q' \<in> set (sent ?s1 ?s2)"
    "names_schema q = names_schema q'" "names_schema q \<noteq> None" for q q'
    using tenants_end_to_end [OF start one(1) two_bearers(1) refl one(2) b refl _ that(1,2)] that(3,4)
    by (simp add: silent_app_def)
  then show ?thesis using two_logs [OF two_bearers(1)] two_logs [OF b] by (simp add: Let_def)
qed

end
