(* ===== verification/Environment.thy ===== *)
theory Environment
  imports Rust_Text
begin

text \<open>
  What both servers read at their start: environment variables (\<open>std::env::var\<close>, with Unicode values), and the
  numbers in them (\<open>usize\<close> and \<open>u64\<close>, 64 bits).
\<close>

type_synonym environment = "(string \<times> string) list"

definition env_var :: "environment \<Rightarrow> string \<Rightarrow> string option" where
  "env_var vars k = map_of vars k"

definition env_or :: "environment \<Rightarrow> string \<Rightarrow> string \<Rightarrow> string" where
  "env_or vars k d = (case env_var vars k of None \<Rightarrow> d | Some v \<Rightarrow> v)"

text \<open>An error is given another type (\<open>map_err\<close>).\<close>

lemma map_sum_Inr: "map_sum f g x = Inr y \<longleftrightarrow> (\<exists>z. x = Inr z \<and> y = g z)"
  by (cases x) auto

datatype config_error = MissingVar string | BlankVar string

definition some_or_default :: "'a \<Rightarrow> 'a option \<Rightarrow> 'a" where
  "some_or_default d x = (case x of None \<Rightarrow> d | Some v \<Rightarrow> v)"

text \<open>The redirect URI given to Google.\<close>

definition google_redirect_uri :: "string \<Rightarrow> string" where
  "google_redirect_uri public_url = public_url @ ''/oauth/callback/google''"

text \<open>\<open>str::parse\<close> of an unsigned number: an optional plus sign, at least one digit, a value in range.\<close>

definition parse_u64 :: "string \<Rightarrow> nat option" where
  "parse_u64 s =
     (let ds = (case s of c # cs \<Rightarrow> if c = CHR ''+'' then cs else s | [] \<Rightarrow> [])
      in if ds = [] then None
         else case parse_digits 0 ds of None \<Rightarrow> None | Some n \<Rightarrow> if n < 2 ^ 64 then Some n else None)"

lemma parse_u64_bound: "parse_u64 s = Some n \<Longrightarrow> n < 2 ^ 64"
  by (auto simp: parse_u64_def Let_def split: if_splits option.splits)

lemma show_nat_no_plus: "\<exists>c cs. show_nat n = c # cs \<and> c \<noteq> CHR ''+''"
proof (induction n rule: show_nat.induct)
  case (1 n)
  show ?case
  proof (cases "n < 10")
    case True
    have "digit_val (digit_char n) = Some n" using True by simp
    then have "digit_char n \<noteq> CHR ''+''" by (auto simp: digit_val_def)
    then show ?thesis using True by (simp add: show_nat.simps [of n])
  next
    case False
    with 1 obtain c cs where "show_nat (n div 10) = c # cs" "c \<noteq> CHR ''+''" by blast
    then show ?thesis using False by (simp add: show_nat.simps [of n])
  qed
qed

lemma parse_u64_show: "n < 2 ^ 64 \<Longrightarrow> parse_u64 (show_nat n) = Some n"
  using show_nat_no_plus [of n] parse_show_nat [of n] by (auto simp: parse_u64_def)

text \<open>\<open>trim_end_matches\<close> cuts nothing else.\<close>

lemma trim_end_matches_cut: "\<exists>k. s = trim_end_matches c s @ replicate k c"
proof -
  have "takeWhile (\<lambda>x. x = c) (rev s) = replicate (length (takeWhile (\<lambda>x. x = c) (rev s))) c"
    by (rule replicate_eqI [symmetric, OF refl, THEN sym]) (auto dest: set_takeWhileD)
  then have "rev s = replicate (length (takeWhile (\<lambda>x. x = c) (rev s))) c @ dropWhile (\<lambda>x. x = c) (rev s)"
    by (metis takeWhile_dropWhile_id)
  then have "s = trim_end_matches c s @ replicate (length (takeWhile (\<lambda>x. x = c) (rev s))) c"
    by (metis rev_append rev_replicate rev_rev_ident trim_end_matches_def)
  then show ?thesis ..
qed

lemma trim_end_matches_id: "trim_end_matches c s = s \<longleftrightarrow> s = [] \<or> last s \<noteq> c"
proof
  assume "trim_end_matches c s = s"
  then show "s = [] \<or> last s \<noteq> c" using trim_end_matches_last [of c s] by simp
next
  assume "s = [] \<or> last s \<noteq> c"
  then show "trim_end_matches c s = s" by (cases s rule: rev_cases) (auto simp: trim_end_matches_def)
qed

end
