(* ===== verification/Vp_Startup.thy ===== *)
theory Vp_Startup
  imports Vp_Site Environment
begin

text \<open>
  The start of \<open>vegapunk-memory-server\<close> (\<open>config.rs\<close>, \<open>app.rs\<close>, \<open>main.rs\<close>), the connection to the backend
  (\<open>vegapunk-client\<close>) and the provisioning of schemas (\<open>schema_provisioner.rs\<close>). Whether a pool opens, an
  endpoint is reached or a text is a URL is a parameter.
\<close>

section \<open>Configuration\<close>

record vp_config =
  vc_database_url :: string
  vc_bind_addr :: string
  vc_public_url :: string
  vc_google_client_id :: string
  vc_google_client_secret :: string
  vc_grpc_endpoint :: string
  vc_bearer_token :: string
  vc_trusted_proxy_count :: nat
  vc_shared_schema :: string
  vc_template :: string
  vc_gemini_key :: "string option"
  vc_gemini_model :: string
  vc_gemini_timeout :: nat
  vc_gemini_base :: string

definition normalize_public_url :: "string \<Rightarrow> string" where
  "normalize_public_url raw = trim_end_matches CHR ''/'' raw"

definition env_required :: "environment \<Rightarrow> string \<Rightarrow> config_error + string" where
  "env_required vars k =
     bindE (of_option (MissingVar k) (env_var vars k)) (\<lambda>v.
     bindE (guardE (\<not> blank v) (BlankVar k)) (\<lambda>_. Inr v))"

text \<open>An optional text: trimmed, and taken for absent when nothing is left.\<close>

definition env_trimmed :: "environment \<Rightarrow> string \<Rightarrow> string option" where
  "env_trimmed vars k = (case map_option trim (env_var vars k) of Some v \<Rightarrow> if v = [] then None else Some v | None \<Rightarrow> None)"

definition gemini_timeout :: "environment \<Rightarrow> nat" where
  "gemini_timeout vars = (case Option.bind (map_option trim (env_var vars ''GEMINI_TIMEOUT_SECS'')) parse_u64 of
       Some n \<Rightarrow> if n > 0 then n else 30 | None \<Rightarrow> 30)"

definition gemini_base :: "environment \<Rightarrow> string" where
  "gemini_base vars = (case map_option (\<lambda>s. trim_end_matches CHR ''/'' (trim s)) (env_var vars ''GEMINI_ENDPOINT_BASE'') of
       Some v \<Rightarrow> if v = [] then ''https://generativelanguage.googleapis.com/v1beta'' else v
     | None \<Rightarrow> ''https://generativelanguage.googleapis.com/v1beta'')"

definition vp_config_from_env :: "environment \<Rightarrow> config_error + vp_config" where
  "vp_config_from_env vars =
     bindE (env_required vars ''PUBLIC_URL'') (\<lambda>raw.
     bindE (env_required vars ''DATABASE_URL'') (\<lambda>database_url.
     bindE (env_required vars ''GOOGLE_OAUTH_CLIENT_ID'') (\<lambda>client_id.
     bindE (env_required vars ''GOOGLE_OAUTH_CLIENT_SECRET'') (\<lambda>client_secret.
     bindE (env_required vars ''VEGAPUNK_GRPC_ENDPOINT'') (\<lambda>endpoint.
     bindE (env_required vars ''VEGAPUNK_BEARER_TOKEN'') (\<lambda>tok.
     Inr \<lparr>vc_database_url = database_url,
       vc_bind_addr = env_or vars ''BIND_ADDR'' ''0.0.0.0:8081'',
       vc_public_url = normalize_public_url raw,
       vc_google_client_id = client_id,
       vc_google_client_secret = client_secret,
       vc_grpc_endpoint = endpoint,
       vc_bearer_token = tok,
       vc_trusted_proxy_count = some_or_default 1 (Option.bind (env_var vars ''TRUSTED_PROXY_COUNT'') parse_u64),
       vc_shared_schema = some_or_default ''sivira-shared'' (env_trimmed vars ''VEGAPUNK_SHARED_SCHEMA_NAME''),
       vc_template = some_or_default ''discussion'' (env_trimmed vars ''VEGAPUNK_DEFAULT_SCHEMA_TEMPLATE''),
       vc_gemini_key = env_trimmed vars ''GEMINI_API_KEY'',
       vc_gemini_model = some_or_default ''gemini-3.5-flash'' (env_trimmed vars ''GEMINI_MODEL''),
       vc_gemini_timeout = gemini_timeout vars,
       vc_gemini_base = gemini_base vars\<rparr>))))))"

section \<open>The connection to the backend\<close>

datatype bearer_token_error = EmptyToken | InvalidHeaderChars

datatype connect_error = InvalidEndpoint | ConnectFailed | InvalidToken bearer_token_error

text \<open>What the libraries and the machine answer at the start.\<close>

record platform =
  pf_unbase64 :: "string \<Rightarrow> string option"
  pf_pool :: "string \<Rightarrow> bool"
  pf_header :: "string \<Rightarrow> bool"
  pf_endpoint :: "string \<Rightarrow> bool"
  pf_connect :: "string \<Rightarrow> bool"
  pf_client :: "nat \<Rightarrow> bool"
  pf_redirect :: "string \<Rightarrow> bool"
  pf_bind :: "string \<Rightarrow> bool"

definition bearer_interceptor :: "platform \<Rightarrow> string \<Rightarrow> bearer_token_error + string" where
  "bearer_interceptor pf tok =
     bindE (guardE (\<not> blank tok) EmptyToken) (\<lambda>_.
     (let raw = ''Bearer '' @ tok in bindE (guardE (pf_header pf raw) InvalidHeaderChars) (\<lambda>_. Inr raw)))"

definition intercept :: "string \<Rightarrow> (string \<times> string) list \<Rightarrow> (string \<times> string) list" where
  "intercept tok md = (''authorization'', tok) # remove_key ''authorization'' md"

text \<open>The token is checked before the network is used.\<close>

definition connect :: "platform \<Rightarrow> string \<Rightarrow> string \<Rightarrow> connect_error + string" where
  "connect pf uri tok =
     bindE (map_sum InvalidToken id (bearer_interceptor pf tok)) (\<lambda>interceptor.
     bindE (guardE (pf_endpoint pf uri) InvalidEndpoint) (\<lambda>_.
     bindE (guardE (pf_connect pf uri) ConnectFailed) (\<lambda>_. Inr interceptor)))"

section \<open>Start\<close>

record gemini_canonicalizer =
  gc_api_key :: string
  gc_model :: string
  gc_endpoint_base :: string
  gc_timeout :: nat

record vp_server =
  vr_config :: vp_config
  vr_keys :: jwt_keys
  vr_bearer :: string
  vr_canonicalizer :: "gemini_canonicalizer option"

datatype start_error =
    BadConfig config_error
  | BadKeys key_error
  | BadPool
  | BadConnection connect_error
  | BadClient
  | RedirectUrlPanic
  | BadBind

definition new_canonicalizer :: "platform \<Rightarrow> string \<Rightarrow> string \<Rightarrow> string \<Rightarrow> nat \<Rightarrow> start_error + gemini_canonicalizer" where
  "new_canonicalizer pf key model base timeout =
     bindE (guardE (pf_client pf timeout) BadClient) (\<lambda>_.
     Inr \<lparr>gc_api_key = key, gc_model = model, gc_endpoint_base = trim_end_matches CHR ''/'' base, gc_timeout = timeout\<rparr>)"

definition vp_build_state :: "platform \<Rightarrow> vp_config \<Rightarrow> jwt_keys \<Rightarrow> start_error + vp_server" where
  "vp_build_state pf cfg keys =
     bindE (guardE (pf_pool pf (vc_database_url cfg)) BadPool) (\<lambda>_.
     bindE (map_sum BadConnection id (connect pf (vc_grpc_endpoint cfg) (vc_bearer_token cfg))) (\<lambda>bearer.
     bindE (case vc_gemini_key cfg of
              Some key \<Rightarrow> map_sum id Some (new_canonicalizer pf key (vc_gemini_model cfg) (vc_gemini_base cfg) (vc_gemini_timeout cfg))
            | None \<Rightarrow> Inr None) (\<lambda>canonicalizer.
     Inr \<lparr>vr_config = cfg, vr_keys = keys, vr_bearer = bearer, vr_canonicalizer = canonicalizer\<rparr>)))"

text \<open>The environment of the authorization server (\<open>AsState::new\<close>) and of the tools.\<close>

definition as_state :: "auth_env \<Rightarrow> vp_server \<Rightarrow> auth_env" where
  "as_state libs srv = libs\<lparr>ae_keys := vr_keys srv,
     ae_public_url := trim_end_matches CHR ''/'' (vc_public_url (vr_config srv)),
     ae_shared_schema := vc_shared_schema (vr_config srv)\<rparr>"

definition app_state :: "app \<Rightarrow> vp_server \<Rightarrow> app" where
  "app_state libs srv = libs\<lparr>ap_shared_schema := vc_shared_schema (vr_config srv), ap_llm := vr_canonicalizer srv \<noteq> None\<rparr>"

definition vp_build_router :: "platform \<Rightarrow> vp_server \<Rightarrow> start_error + unit" where
  "vp_build_router pf srv = guardE (pf_redirect pf (google_redirect_uri (vc_public_url (vr_config srv)))) RedirectUrlPanic"

definition vp_main :: "platform \<Rightarrow> environment \<Rightarrow> start_error + vp_server" where
  "vp_main pf vars =
     bindE (map_sum BadConfig id (vp_config_from_env vars)) (\<lambda>cfg.
     bindE (map_sum BadKeys id (keys_from_env (pf_unbase64 pf) vars)) (\<lambda>keys.
     bindE (vp_build_state pf cfg keys) (\<lambda>srv.
     bindE (vp_build_router pf srv) (\<lambda>_.
     bindE (guardE (pf_bind pf (vc_bind_addr cfg)) BadBind) (\<lambda>_. Inr srv)))))"

section \<open>Provisioning\<close>

text \<open>\<open>CreateSchema\<close> of the backend, for a name and a template.\<close>

definition ensure_schema :: "(string \<Rightarrow> string \<Rightarrow> status + unit) \<Rightarrow> string \<Rightarrow> string \<Rightarrow> string + unit" where
  "ensure_schema create_schema template name = (case create_schema name template of
       Inr _ \<Rightarrow> Inr ()
     | Inl st \<Rightarrow> if st_code st = AlreadyExists then Inr ()
                 else Inl (''CreateSchema('' @ name @ '') failed: gRPC '' @ code_debug (st_code st) @ '': '' @ st_message st))"

lemma ensure_schema_Inr:
  "ensure_schema create t n = Inr u \<longleftrightarrow> (case create n t of Inr _ \<Rightarrow> True | Inl st \<Rightarrow> st_code st = AlreadyExists)"
  by (simp add: ensure_schema_def split: sum.split)

section \<open>What a started server can rely on\<close>

definition required_vars :: "string list" where
  "required_vars = [''PUBLIC_URL'', ''DATABASE_URL'', ''GOOGLE_OAUTH_CLIENT_ID'', ''GOOGLE_OAUTH_CLIENT_SECRET'',
     ''VEGAPUNK_GRPC_ENDPOINT'', ''VEGAPUNK_BEARER_TOKEN'']"

definition refusal :: "environment \<Rightarrow> string \<Rightarrow> config_error option" where
  "refusal vars k = (case env_var vars k of None \<Rightarrow> Some (MissingVar k) | Some v \<Rightarrow> if blank v then Some (BlankVar k) else None)"

definition given :: "environment \<Rightarrow> string \<Rightarrow> bool" where
  "given vars k \<longleftrightarrow> (\<exists>v. env_var vars k = Some v \<and> \<not> blank v)"

lemma refusal_None: "refusal vars k = None \<longleftrightarrow> given vars k"
  by (simp add: refusal_def given_def split: option.split)

lemma env_required_refusal:
  "env_required vars k = (case refusal vars k of Some e \<Rightarrow> Inl e | None \<Rightarrow> Inr (the (env_var vars k)))"
  by (simp add: env_required_def refusal_def bindE_def of_option_def guardE_def split: option.split)

lemma config_refusal:
  "case List.map_filter (refusal vars) required_vars of
     [] \<Rightarrow> \<exists>c. vp_config_from_env vars = Inr c
   | e # _ \<Rightarrow> vp_config_from_env vars = Inl e"
  by (simp add: vp_config_from_env_def required_vars_def env_required_refusal bindE_def List.map_filter_simps split: option.split)

text \<open>What is read is usable.\<close>

definition config_ok :: "vp_config \<Rightarrow> bool" where
  "config_ok c \<longleftrightarrow> (vc_public_url c = [] \<or> last (vc_public_url c) \<noteq> CHR ''/'') \<and> vc_shared_schema c \<noteq> [] \<and> vc_template c \<noteq> []
     \<and> vc_gemini_key c \<noteq> Some [] \<and> vc_gemini_model c \<noteq> [] \<and> 0 < vc_gemini_timeout c \<and> vc_gemini_timeout c < 2 ^ 64
     \<and> vc_trusted_proxy_count c < 2 ^ 64 \<and> vc_gemini_base c \<noteq> [] \<and> last (vc_gemini_base c) \<noteq> CHR ''/''"

lemma env_trimmed_nonempty: "env_trimmed vars k \<noteq> Some []"
  by (simp add: env_trimmed_def split: option.split)

lemma default_nonempty: "d \<noteq> [] \<Longrightarrow> some_or_default d (env_trimmed vars k) \<noteq> []"
  using env_trimmed_nonempty [of vars k] by (auto simp: some_or_default_def split: option.split)

lemma gemini_timeout_ok: "0 < gemini_timeout vars" "gemini_timeout vars < 2 ^ 64"
  by (auto simp: gemini_timeout_def bind_eq_Some_conv dest: parse_u64_bound split: option.splits)

lemma gemini_base_ok: "gemini_base vars \<noteq> [] \<and> last (gemini_base vars) \<noteq> CHR ''/''"
proof (cases "env_var vars ''GEMINI_ENDPOINT_BASE''")
  case (Some v)
  then show ?thesis using trim_end_matches_last [of "CHR ''/''" "trim v"] by (auto simp: gemini_base_def)
qed (simp add: gemini_base_def)

lemma proxies_ok: "some_or_default 1 (Option.bind x parse_u64) < 2 ^ 64"
proof (cases "Option.bind x parse_u64")
  case (Some n)
  then have "n < 2 ^ 64" using parse_u64_bound by (auto simp: bind_eq_Some_conv)
  then show ?thesis by (simp add: some_or_default_def Some)
qed (simp add: some_or_default_def)

lemma config_from_env_ok:
  assumes "vp_config_from_env vars = Inr c"
  shows "config_ok c \<and> (\<forall>k \<in> set required_vars. given vars k)"
proof -
  obtain raw where c: "vc_public_url c = normalize_public_url raw"
    "vc_shared_schema c = some_or_default ''sivira-shared'' (env_trimmed vars ''VEGAPUNK_SHARED_SCHEMA_NAME'')"
    "vc_template c = some_or_default ''discussion'' (env_trimmed vars ''VEGAPUNK_DEFAULT_SCHEMA_TEMPLATE'')"
    "vc_gemini_key c = env_trimmed vars ''GEMINI_API_KEY''"
    "vc_gemini_model c = some_or_default ''gemini-3.5-flash'' (env_trimmed vars ''GEMINI_MODEL'')"
    "vc_gemini_timeout c = gemini_timeout vars" "vc_gemini_base c = gemini_base vars"
    "vc_trusted_proxy_count c = some_or_default 1 (Option.bind (env_var vars ''TRUSTED_PROXY_COUNT'') parse_u64)"
    using assms by (auto simp: vp_config_from_env_def)
  have "config_ok c"
    using trim_end_matches_last [of "CHR ''/''" raw] gemini_timeout_ok [of vars] gemini_base_ok [of vars] proxies_ok env_trimmed_nonempty
    by (simp add: config_ok_def c normalize_public_url_def default_nonempty)
  moreover have "given vars k" if "k \<in> set required_vars" for k
  proof (rule ccontr)
    assume "\<not> given vars k"
    then obtain e where "refusal vars k = Some e" using refusal_None by fastforce
    with that have "List.map_filter (refusal vars) required_vars \<noteq> []" by (force simp: List.map_filter_def filter_empty_conv)
    with config_refusal [of vars] assms show False by (auto split: list.splits)
  qed
  ultimately show ?thesis by blast
qed

lemma keys_from_env_ok:
  assumes "keys_from_env un vars = Inr ks"
  shows "map_of (jk_keys ks) (jk_current ks) \<noteq> None \<and> (\<forall>k b. map_of (jk_keys ks) k = Some b \<longrightarrow> MIN_HS256_KEY_BYTES \<le> length b)"
proof -
  from assms have c: "collect_keys un vars \<lparr>jk_current = [], jk_keys = []\<rparr> = Inr ks" "jk_keys ks \<noteq> []" by (auto simp: keys_from_env_def)
  from collect_keys_current [OF c(1)] c(2) have "map_of (jk_keys ks) (jk_current ks) \<noteq> None" by simp
  moreover have "MIN_HS256_KEY_BYTES \<le> length b" if "map_of (jk_keys ks) k = Some b" for k b
    using collect_keys_sound [OF c(1) that] by auto
  ultimately show ?thesis by blast
qed

lemma state_fields: "vp_build_state pf cfg keys = Inr srv \<Longrightarrow> vr_config srv = cfg \<and> vr_keys srv = keys"
  by (auto simp: vp_build_state_def)

lemma started_parts:
  assumes "vp_main pf vars = Inr srv"
  shows "vp_config_from_env vars = Inr (vr_config srv) \<and> keys_from_env (pf_unbase64 pf) vars = Inr (vr_keys srv)
    \<and> vp_build_state pf (vr_config srv) (vr_keys srv) = Inr srv \<and> vp_build_router pf srv = Inr ()"
proof -
  obtain cfg keys where "vp_config_from_env vars = Inr cfg" "keys_from_env (pf_unbase64 pf) vars = Inr keys"
    and b: "vp_build_state pf cfg keys = Inr srv" "vp_build_router pf srv = Inr ()"
    using assms by (auto simp: vp_main_def map_sum_Inr)
  then show ?thesis using state_fields [OF b(1)] by simp
qed

lemma state_canonicalizer:
  assumes "vp_build_state pf cfg keys = Inr srv" "config_ok cfg"
  shows "case vr_canonicalizer srv of None \<Rightarrow> vc_gemini_key cfg = None
     | Some g \<Rightarrow> vc_gemini_key cfg = Some (gc_api_key g) \<and> gc_api_key g \<noteq> [] \<and> 0 < gc_timeout g \<and> gc_endpoint_base g = vc_gemini_base cfg"
  using assms
  by (auto simp: vp_build_state_def new_canonicalizer_def map_sum_Inr config_ok_def trim_end_matches_id split: option.splits)

lemma issue_has_key:
  assumes "map_of (jk_keys (ae_keys env)) (jk_current (ae_keys env)) \<noteq> None"
  shows "jwt_issue env u c ttl now \<in> insert (Inl JwtLibrary) (range Inr)"
  using assms by (auto simp: jwt_issue_def Let_def of_option_def split: option.split)

lemma as_public_url: "config_ok (vr_config srv) \<Longrightarrow> ae_public_url (as_state libs srv) = vc_public_url (vr_config srv)"
  by (auto simp: as_state_def config_ok_def trim_end_matches_id)

text \<open>
  C39. vegapunk-memory-server either refuses to start or can work. The first required variable that is missing or
  blank is named, before any signing key is read or anything is connected. A server that has started has all of
  them; its signing keys have at least 32 bytes, and the key it signs with is among them, so no token fails for want of
  a key; the URLs it advertises and the one it gives to Google join one base, which has no slash at the end;
  the schema it creates as shared is the one its tools read; and the language model is called with a key, in a
  positive time, at a base without a slash at the end.
\<close>
theorem vp_server_started:
  "(\<forall>e es. List.map_filter (refusal vars) required_vars = e # es \<longrightarrow> vp_main pf vars = Inl (BadConfig e))
   \<and> (\<forall>srv. vp_main pf vars = Inr srv \<longrightarrow>
        (\<forall>k \<in> set required_vars. given vars k)
      \<and> (\<forall>k b. map_of (jk_keys (vr_keys srv)) k = Some b \<longrightarrow> 32 \<le> length b)
      \<and> (\<forall>libs u c ttl now. jwt_issue (as_state libs srv) u c ttl now \<in> insert (Inl JwtLibrary) (range Inr))
      \<and> (\<exists>url. (url = [] \<or> last url \<noteq> CHR ''/'') \<and> (\<forall>libs. metadata (as_state libs srv) = metadata (libs\<lparr>ae_public_url := url\<rparr>))
           \<and> pf_redirect pf (url @ ''/oauth/callback/google''))
      \<and> (\<forall>auth tools. ae_shared_schema (as_state auth srv) = ap_shared_schema (app_state tools srv))
      \<and> vc_shared_schema (vr_config srv) \<noteq> []
      \<and> (\<forall>g. vr_canonicalizer srv = Some g \<longrightarrow> gc_api_key g \<noteq> [] \<and> 0 < gc_timeout g \<and> gc_endpoint_base g \<noteq> []
           \<and> last (gc_endpoint_base g) \<noteq> CHR ''/''))"
proof (intro conjI allI impI)
  fix e es assume "List.map_filter (refusal vars) required_vars = e # es"
  then show "vp_main pf vars = Inl (BadConfig e)" using config_refusal [of vars] by (simp add: vp_main_def)
next
  fix srv assume m: "vp_main pf vars = Inr srv"
  have p: "vp_config_from_env vars = Inr (vr_config srv)" "keys_from_env (pf_unbase64 pf) vars = Inr (vr_keys srv)"
    "vp_build_state pf (vr_config srv) (vr_keys srv) = Inr srv" "vp_build_router pf srv = Inr ()" using started_parts [OF m] by simp_all
  have ok: "config_ok (vr_config srv)" using config_from_env_ok [OF p(1)] by blast
  note k = keys_from_env_ok [OF p(2)]
  show "\<forall>k \<in> set required_vars. given vars k" using config_from_env_ok [OF p(1)] by blast
  show "32 \<le> length b" if "map_of (jk_keys (vr_keys srv)) x = Some b" for x b using k that by (auto simp: MIN_HS256_KEY_BYTES_def)
  show "jwt_issue (as_state libs srv) u c ttl now \<in> insert (Inl JwtLibrary) (range Inr)" for libs u c ttl now
    by (rule issue_has_key) (use k in \<open>simp add: as_state_def\<close>)
  show "\<exists>url. (url = [] \<or> last url \<noteq> CHR ''/'') \<and> (\<forall>libs. metadata (as_state libs srv) = metadata (libs\<lparr>ae_public_url := url\<rparr>))
      \<and> pf_redirect pf (url @ ''/oauth/callback/google'')"
    using ok p(4) as_public_url [OF ok]
    by (intro exI [of _ "vc_public_url (vr_config srv)"]) (simp add: config_ok_def metadata_def vp_build_router_def google_redirect_uri_def)
  show "ae_shared_schema (as_state auth srv) = ap_shared_schema (app_state tools srv)" for auth tools
    by (simp add: as_state_def app_state_def)
  show "vc_shared_schema (vr_config srv) \<noteq> []" using ok by (simp add: config_ok_def)
  show "gc_api_key g \<noteq> []" "0 < gc_timeout g" "gc_endpoint_base g \<noteq> []" "last (gc_endpoint_base g) \<noteq> CHR ''/''"
    if "vr_canonicalizer srv = Some g" for g
    using state_canonicalizer [OF p(3) ok] that ok by (simp_all add: config_ok_def)
qed

text \<open>A start, and one that is refused.\<close>

definition demo_vars :: environment where
  "demo_vars = [(''PUBLIC_URL'', ''https://h/''), (''DATABASE_URL'', ''d''), (''GOOGLE_OAUTH_CLIENT_ID'', ''i''),
     (''GOOGLE_OAUTH_CLIENT_SECRET'', ''s''), (''VEGAPUNK_GRPC_ENDPOINT'', ''e''), (''VEGAPUNK_BEARER_TOKEN'', ''b''),
     (''JWT_SIGNING_KEY_v1'', ''k'')]"

definition demo_platform :: platform where
  "demo_platform = \<lparr>pf_unbase64 = \<lambda>_. Some (replicate 32 CHR ''x''), pf_pool = \<lambda>_. True, pf_header = \<lambda>_. True, pf_endpoint = \<lambda>_. True,
     pf_connect = \<lambda>_. True, pf_client = \<lambda>_. True, pf_redirect = \<lambda>_. True, pf_bind = \<lambda>_. True\<rparr>"

lemma demo_given: "\<not> blank [c]" if "c \<in> {CHR ''d'', CHR ''i'', CHR ''s'', CHR ''e'', CHR ''b''}"
  using that by (auto simp: blank_def trim_def is_whitespace_def is_cont_def)

lemma demo_url_given: "\<not> blank ''https://h/''"
  by (simp add: blank_def trim_def is_whitespace_def is_cont_def)

lemma demo_starts: "\<exists>srv. vp_main demo_platform demo_vars = Inr srv"
  using demo_given demo_url_given
  by (simp add: vp_main_def vp_config_from_env_def env_required_def env_var_def demo_vars_def demo_platform_def keys_from_env_def
    starts_with_def key_variable_def MIN_HS256_KEY_BYTES_def vp_build_state_def connect_def bearer_interceptor_def Let_def
    env_trimmed_def vp_build_router_def)

theorem vp_server_started_witness:
  "(\<exists>srv. vp_main demo_platform demo_vars = Inr srv \<and> vc_shared_schema (vr_config srv) \<noteq> [] \<and> given demo_vars ''DATABASE_URL'')
   \<and> vp_main demo_platform (tl demo_vars) = Inl (BadConfig (MissingVar ''PUBLIC_URL''))"
proof -
  obtain srv where m: "vp_main demo_platform demo_vars = Inr srv" using demo_starts by blast
  have "vc_shared_schema (vr_config srv) \<noteq> [] \<and> given demo_vars ''DATABASE_URL''"
    using vp_server_started [of demo_vars demo_platform] m by (simp add: required_vars_def)
  moreover have "\<exists>es. List.map_filter (refusal (tl demo_vars)) required_vars = MissingVar ''PUBLIC_URL'' # es"
    by (simp add: required_vars_def List.map_filter_simps refusal_def env_var_def demo_vars_def)
  then have "vp_main demo_platform (tl demo_vars) = Inl (BadConfig (MissingVar ''PUBLIC_URL''))"
    using vp_server_started [of "tl demo_vars" demo_platform] by blast
  ultimately show ?thesis using m by blast
qed

end
