(* ===== verification/Input_Builder.thy ===== *)
theory Input_Builder
  imports Storage
begin

text \<open>
  \<open>llm-memory-coordinator/src/input_builder.rs\<close>: the raws a wiki synthesis sees. The set \<open>seen\<close>
  of the code always holds the ids of \<open>out\<close>, so membership is tested on \<open>out\<close>. A loop that
  returns early hands back \<open>True\<close>.
\<close>

definition INPUT_LIMIT :: nat where "INPUT_LIMIT = 50"

fun add_refs :: "string list \<Rightarrow> raw list \<Rightarrow> (raw list \<times> bool) dbop" where
  "add_refs [] out = okA (out, False)"
| "add_refs (i # refs) out =
     (if i \<in> r_id ` set out then add_refs refs out
      else seqA (raws_get i) (\<lambda>row. case row of
             None \<Rightarrow> add_refs refs out
           | Some r \<Rightarrow> (let out' = out @ [r] in
               if length out' \<ge> INPUT_LIMIT then okA (out', True) else add_refs refs out')))"

fun add_raws :: "raw list \<Rightarrow> raw list \<Rightarrow> raw list \<times> bool" where
  "add_raws [] out = (out, False)"
| "add_raws (r # rs) out =
     (if r_id r \<in> r_id ` set out then add_raws rs out
      else (let out' = out @ [r] in
            if length out' \<ge> INPUT_LIMIT then (out', True) else add_raws rs out'))"

definition fts_query :: "scope \<Rightarrow> string \<Rightarrow> string \<Rightarrow> nat \<Rightarrow> search_query" where
  "fts_query sc owner concept remaining = \<lparr>sq_query = concept, sq_scope = Some sc,
     sq_owner = Some owner, sq_limit = int remaining * 2\<rparr>"

definition build ::
  "fts \<Rightarrow> scope \<Rightarrow> string \<Rightarrow> string \<Rightarrow> string list \<Rightarrow> raw list \<Rightarrow> raw list dbop" where
  "build fts sc owner concept existing_source_refs new_raws =
     seqA (add_refs existing_source_refs []) (\<lambda>(out, full).
       if full then okA out
       else (let (out, full) = add_raws new_raws out in
         if full then okA out
         else (let remaining = INPUT_LIMIT - length out in
           if remaining > 0
           then seqA (search_raws fts (fts_query sc owner concept remaining))
                  (\<lambda>hits. okA (fst (add_raws hits out)))
           else okA out)))"

section \<open>The reference definition\<close>

text \<open>Rows in the order of preference, first occurrence of an id kept, cut at the limit.\<close>

fun dedup :: "raw list \<Rightarrow> raw list \<Rightarrow> raw list" where
  "dedup out [] = out"
| "dedup out (r # rs) = (if r_id r \<in> r_id ` set out then dedup out rs else dedup (out @ [r]) rs)"

definition ref_rows :: "db \<Rightarrow> string list \<Rightarrow> raw list" where
  "ref_rows d refs = map the (filter (\<lambda>x. x \<noteq> None) (map (\<lambda>i. find (\<lambda>r. r_id r = i) (t_raws d)) refs))"

definition search_hits :: "fts \<Rightarrow> search_query \<Rightarrow> db \<Rightarrow> raw list" where
  "search_hits fts q d = take (nat (clamp (sq_limit q) 1 100)) (filter
        (\<lambda>r. (case sq_scope q of None \<Rightarrow> True | Some s \<Rightarrow> r_scope r = scope_as_str s)
             \<and> (case sq_owner q of None \<Rightarrow> True | Some ow \<Rightarrow> r_owner r = ow))
        (fts (t_raws d) (fts5_escape (sq_query q))))"

lemma dedup_append: "dedup out (xs @ ys) = dedup (dedup out xs) ys"
  by (induction out xs rule: dedup.induct) simp_all

lemma dedup_prefix: "\<exists>zs. dedup out xs = out @ zs"
  by (induction out xs rule: dedup.induct) auto

lemma dedup_length: "length out \<le> length (dedup out xs)"
  using dedup_prefix [of out xs] by auto

lemma dedup_distinct: "distinct (map r_id out) \<Longrightarrow> distinct (map r_id (dedup out xs))"
  by (induction out xs rule: dedup.induct) auto

lemma dedup_set: "set (dedup out xs) \<subseteq> set out \<union> set xs"
  by (induction out xs rule: dedup.induct) auto

lemma add_raws_eq:
  "length out < INPUT_LIMIT \<Longrightarrow>
     add_raws rs out = (take INPUT_LIMIT (dedup out rs), INPUT_LIMIT \<le> length (dedup out rs))"
proof (induction rs arbitrary: out)
  case (Cons r rs)
  have "take INPUT_LIMIT (dedup (out @ [r]) rs) = out @ [r]" if "Suc (length out) = INPUT_LIMIT"
    using dedup_prefix [of "out @ [r]" rs] by (auto simp: that [symmetric])
  moreover have "INPUT_LIMIT \<le> length (dedup (out @ [r]) rs)" if "Suc (length out) = INPUT_LIMIT"
    using dedup_length [of "out @ [r]" rs] that by simp
  ultimately show ?case using Cons by (auto simp: Let_def not_le)
qed auto

lemma ref_rows_simps [simp]:
  "ref_rows d [] = []"
  "ref_rows d (i # refs) = (case find (\<lambda>r. r_id r = i) (t_raws d) of
      None \<Rightarrow> ref_rows d refs | Some r \<Rightarrow> r # ref_rows d refs)"
  "ref_rows (d\<lparr>faults := fs\<rparr>) refs = ref_rows d refs"
  by (simp_all add: ref_rows_def split: option.splits)

lemma add_refs_Inr:
  assumes "add_refs refs out d = (Inr res, d')"
  shows "res = add_raws (ref_rows d refs) out \<and> (\<exists>fs. d' = d\<lparr>faults := fs\<rparr>)"
  using assms
proof (induction refs arbitrary: out d)
  case Nil
  then show ?case by (cases d) auto
next
  case (Cons i refs)
  show ?case
  proof (cases "i \<in> r_id ` set out")
    case True
    with Cons.prems have "add_refs refs out d = (Inr res, d')" by simp
    from Cons.IH [OF this] True show ?thesis
      by (auto split: option.splits dest!: find_SomeD)
  next
    case False
    with Cons.prems obtain row d1 where g: "raws_get i d = (Inr row, d1)"
      and r: "(case row of None \<Rightarrow> add_refs refs out
               | Some r \<Rightarrow> (let out' = out @ [r] in
                   if INPUT_LIMIT \<le> Suc (length out) then okA (out', True) else add_refs refs out')) d1 = (Inr res, d')"
      by (auto simp: seqA_Inr_iff)
    from g obtain fs where d1: "d1 = d\<lparr>faults := fs\<rparr>" and row: "row = find (\<lambda>r. r_id r = i) (t_raws d)"
      by (auto simp: raws_get_def elim!: query_Inr)
    show ?thesis
    proof (cases row)
      case None
      with r have "add_refs refs out d1 = (Inr res, d')" by simp
      from Cons.IH [OF this] None row d1 show ?thesis by auto
    next
      case (Some x)
      then have x: "r_id x = i" using row by (auto dest: find_SomeD)
      show ?thesis
      proof (cases "INPUT_LIMIT \<le> Suc (length out)")
        case True
        then show ?thesis using r Some row d1 False x by auto
      next
        case l: False
        with r Some have "add_refs refs (out @ [x]) d1 = (Inr res, d')" by (simp add: Let_def)
        from Cons.IH [OF this] show ?thesis using l Some row d1 False x by auto
      qed
    qed
  qed
qed

lemma search_raws_Inr:
  assumes "search_raws fts q d = (Inr hits, d')"
  shows "hits = search_hits fts q d \<and> (\<exists>fs. d' = d\<lparr>faults := fs\<rparr>)"
  using assms by (auto simp: search_raws_def search_hits_def Let_def elim!: query_Inr)

lemma search_hits_faults [simp]: "search_hits fts q (d\<lparr>faults := fs\<rparr>) = search_hits fts q d"
  by (simp add: search_hits_def)

lemma build_Inr:
  assumes "build fts sc owner concept refs new d = (Inr rows, d')"
  shows "\<exists>n \<le> INPUT_LIMIT. rows = take INPUT_LIMIT (dedup [] (ref_rows d refs @ new
             @ search_hits fts (fts_query sc owner concept n) d))
         \<and> (\<exists>fs. d' = d\<lparr>faults := fs\<rparr>)"
proof -
  have full: "take INPUT_LIMIT (dedup out xs) = take INPUT_LIMIT out" if "INPUT_LIMIT \<le> length out" for out xs
    using dedup_prefix [of out xs] that by auto
  have small: "take INPUT_LIMIT out = out" if "\<not> INPUT_LIMIT \<le> length out" for out :: "raw list"
    using that by simp
  have pos: "0 < INPUT_LIMIT" by (simp add: INPUT_LIMIT_def)
  let ?o1 = "dedup [] (ref_rows d refs)" and ?o2 = "dedup [] (ref_rows d refs @ new)"
  from assms obtain res d1 where a: "add_refs refs [] d = (Inr res, d1)"
    by (auto simp: build_def seqA_Inr_iff)
  from add_refs_Inr [OF a] pos obtain fs where d1: "d1 = d\<lparr>faults := fs\<rparr>"
    and res: "res = (take INPUT_LIMIT ?o1, INPUT_LIMIT \<le> length ?o1)" by (auto simp: add_raws_eq)
  show ?thesis
  proof (cases "INPUT_LIMIT \<le> length ?o1")
    case True
    with assms a res d1 show ?thesis
      by (intro exI [of _ 0])
        (auto simp: build_def dedup_append [of "[]" "ref_rows d refs" "new @ _"] full [OF True])
  next
    case False
    then have r2: "add_raws new ?o1 = (take INPUT_LIMIT ?o2, INPUT_LIMIT \<le> length ?o2)"
      by (simp add: add_raws_eq dedup_append)
    show ?thesis
    proof (cases "INPUT_LIMIT \<le> length ?o2")
      case True
      have "take INPUT_LIMIT (dedup ?o2 xs) = take INPUT_LIMIT ?o2" for xs using full [OF True] .
      with assms a res d1 False r2 True show ?thesis
        by (intro exI [of _ 0]) (auto simp: build_def dedup_append small)
    next
      case two: False
      let ?n = "INPUT_LIMIT - length ?o2"
      let ?h = "search_hits fts (fts_query sc owner concept ?n) d"
      from assms a res False r2 two obtain hits where
        s: "search_raws fts (fts_query sc owner concept ?n) d1 = (Inr hits, d')"
        and rows: "rows = fst (add_raws hits ?o2)"
        by (auto simp: build_def seqA_Inr_iff small Let_def)
      from search_raws_Inr [OF s] d1 have "hits = ?h" "\<exists>fs. d' = d\<lparr>faults := fs\<rparr>" by auto
      with rows two show ?thesis
        by (intro exI [of _ ?n]) (simp add: add_raws_eq dedup_append)
    qed
  qed
qed

text \<open>
  C23. The raws given to a synthesis are the reference selection: the rows of the existing
  references, then the new raws, then the full-text hits of this owner, each id once at its first
  place, cut at 50. So they are at most 50, pairwise different, and each is a row of the table, a
  new raw, or a hit, whatever the stored reference list holds.
\<close>
theorem build_reference:
  assumes "build fts sc owner concept refs new d = (Inr rows, d')"
  shows "(\<exists>n \<le> 50. rows = take 50 (dedup [] (ref_rows d refs @ new
             @ search_hits fts (fts_query sc owner concept n) d)))
         \<and> distinct (map r_id rows) \<and> length rows \<le> 50 \<and> t_raws d' = t_raws d"
proof -
  from build_Inr [OF assms] obtain n fs where n: "n \<le> 50"
    and rows: "rows = take 50 (dedup [] (ref_rows d refs @ new
             @ search_hits fts (fts_query sc owner concept n) d))" and d': "d' = d\<lparr>faults := fs\<rparr>"
    by (auto simp: INPUT_LIMIT_def)
  have "distinct (map r_id rows)"
    unfolding rows take_map [symmetric] by (intro distinct_take dedup_distinct) simp
  with n rows d' show ?thesis by auto
qed

lemma ref_rows_in_table: "r \<in> set (ref_rows d refs) \<Longrightarrow> r \<in> set (t_raws d) \<and> r_id r \<in> set refs"
  by (induction refs) (auto split: option.splits dest: find_SomeD)

lemma build_members:
  assumes "build fts sc owner concept refs new d = (Inr rows, d')" "r \<in> set rows"
  shows "(r \<in> set (t_raws d) \<and> r_id r \<in> set refs) \<or> r \<in> set new
    \<or> (r \<in> set (fts (t_raws d) (fts5_escape concept)) \<and> r_scope r = scope_as_str sc \<and> r_owner r = owner)"
proof -
  from build_Inr [OF assms(1)] obtain n where
    "rows = take INPUT_LIMIT (dedup [] (ref_rows d refs @ new
             @ search_hits fts (fts_query sc owner concept n) d))" by auto
  with assms(2) have "r \<in> set (dedup [] (ref_rows d refs @ new
             @ search_hits fts (fts_query sc owner concept n) d))" by (auto dest: in_set_takeD)
  then have "r \<in> set (ref_rows d refs) \<or> r \<in> set new
      \<or> r \<in> set (search_hits fts (fts_query sc owner concept n) d)"
    using dedup_set [of "[]"] by fastforce
  then show ?thesis
    by (auto simp: search_hits_def fts_query_def dest: ref_rows_in_table in_set_takeD)
qed

theorem build_reference_witness:
  "let r = \<lparr>r_id = ''1'', r_scope = ''personal'', r_owner = ''u'', r_title = ''t'', r_content = ''c'',
            r_source = ''s'', r_tags = None, r_created_by = None, r_created_at = 5\<rparr>;
       d = empty_db\<lparr>t_raws := [r, r\<lparr>r_id := ''2''\<rparr>]\<rparr>
   in fst (build (\<lambda>rs _. rs) Personal ''u'' ''ab'' [''2'', ''9'', ''2''] [r\<lparr>r_id := ''2''\<rparr>] d)
        = Inr [r\<lparr>r_id := ''2''\<rparr>, r] \<and> distinct (map r_id [r\<lparr>r_id := ''2''\<rparr>, r])"
proof -
  let ?r = "\<lparr>r_id = ''1'', r_scope = ''personal'', r_owner = ''u'', r_title = ''t'', r_content = ''c'',
            r_source = ''s'', r_tags = None, r_created_by = None, r_created_at = 5\<rparr>"
  let ?d = "empty_db\<lparr>t_raws := [?r, ?r\<lparr>r_id := ''2''\<rparr>]\<rparr>"
  have e: "build (\<lambda>rs _. rs) Personal ''u'' ''ab'' [''2'', ''9'', ''2''] [?r\<lparr>r_id := ''2''\<rparr>] ?d
      = (Inr [?r\<lparr>r_id := ''2''\<rparr>, ?r], ?d)"
    by (simp add: build_def seqA_def raws_get_def search_raws_def query_def stmt_def empty_db_def
        INPUT_LIMIT_def fts_query_def clamp_def Let_def)
  from build_reference [OF e] e show ?thesis by (simp add: Let_def)
qed

end
