(* ===== verification/Rebuild_State.thy ===== *)
theory Rebuild_State
  imports Core_Ids
begin

text \<open>
  \<open>llm-memory-coordinator/src/state.rs\<close>: the per-owner rebuild slots. The \<open>HashMap\<close> behind the
  mutex is a partial map; every operation holds the mutex from its first to its last line, so
  it is one atomic step.
\<close>

datatype rebuild_mode = Append | Manual "string option"

record rebuild_state =
  running :: bool
  manual_pending :: "rebuild_mode option"
  append_missed :: bool

type_synonym state_map = "owner_key \<rightharpoonup> rebuild_state"

datatype start_outcome = Started rebuild_mode | AlreadyRunning | Pending

definition default_state :: rebuild_state where
  "default_state = \<lparr>running = False, manual_pending = None, append_missed = False\<rparr>"

definition entry_or_default :: "state_map \<Rightarrow> owner_key \<Rightarrow> rebuild_state" where
  "entry_or_default m k = (case m k of None \<Rightarrow> default_state | Some e \<Rightarrow> e)"

definition is_manual :: "rebuild_mode \<Rightarrow> bool" where
  "is_manual md = (case md of Manual _ \<Rightarrow> True | Append \<Rightarrow> False)"

fun merge_pending :: "rebuild_mode option \<Rightarrow> rebuild_mode \<Rightarrow> rebuild_mode" where
  "merge_pending (Some (Manual None)) _ = Manual None"
| "merge_pending _ (Manual None) = Manual None"
| "merge_pending _ md = md"

definition try_start :: "state_map \<Rightarrow> owner_key \<Rightarrow> rebuild_mode \<Rightarrow> state_map \<times> start_outcome" where
  "try_start m k mode =
     (let e = entry_or_default m k in
      if running e then
        (case mode of
           Manual c \<Rightarrow>
             (m(k \<mapsto> e\<lparr>manual_pending := Some (merge_pending (manual_pending e) (Manual c))\<rparr>), Pending)
         | Append \<Rightarrow> (m(k \<mapsto> e\<lparr>append_missed := True\<rparr>), AlreadyRunning))
      else
        (let (e', starting) =
           (if append_missed e \<and> is_manual mode
            then (e\<lparr>append_missed := False,
                    manual_pending := Some (merge_pending (manual_pending e) mode)\<rparr>, Append)
            else ((if append_missed e \<and> mode = Append then e\<lparr>append_missed := False\<rparr> else e), mode))
         in (m(k \<mapsto> e'\<lparr>running := True\<rparr>), Started starting)))"

definition mark_idle_or_continue :: "state_map \<Rightarrow> owner_key \<Rightarrow> state_map \<times> rebuild_mode option" where
  "mark_idle_or_continue m k =
     (let e = entry_or_default m k in
      if append_missed e then (m(k \<mapsto> e\<lparr>append_missed := False\<rparr>), Some Append)
      else case manual_pending e of
             Some md \<Rightarrow> (m(k \<mapsto> e\<lparr>manual_pending := None\<rparr>), Some md)
           | None \<Rightarrow> (m(k \<mapsto> e\<lparr>running := False\<rparr>), None))"

definition force_idle :: "state_map \<Rightarrow> owner_key \<Rightarrow> state_map" where
  "force_idle m k = (case m k of None \<Rightarrow> m
     | Some e \<Rightarrow> m(k \<mapsto> e\<lparr>running := False, manual_pending := None, append_missed := False\<rparr>))"

definition release_running_preserve_pending :: "state_map \<Rightarrow> owner_key \<Rightarrow> state_map" where
  "release_running_preserve_pending m k = (case m k of None \<Rightarrow> m
     | Some e \<Rightarrow> m(k \<mapsto> e\<lparr>running := False\<rparr>))"

definition is_running :: "state_map \<Rightarrow> owner_key \<Rightarrow> bool" where
  "is_running m k = (case m k of None \<Rightarrow> False | Some e \<Rightarrow> running e)"

text \<open>What is owed to an owner: the two flags, read as the code reads an absent entry.\<close>

definition missed :: "state_map \<Rightarrow> owner_key \<Rightarrow> bool" where
  "missed m k = append_missed (entry_or_default m k)"

definition pending :: "state_map \<Rightarrow> owner_key \<Rightarrow> rebuild_mode option" where
  "pending m k = manual_pending (entry_or_default m k)"

section \<open>Laws of the slots\<close>

lemma is_running_entry: "is_running m k = running (entry_or_default m k)"
  by (simp add: is_running_def entry_or_default_def default_state_def split: option.splits)

lemma is_manual_simps [simp]: "is_manual (Manual c)" "\<not> is_manual Append"
  by (simp_all add: is_manual_def)

lemma entry_upd [simp]:
  "entry_or_default (m(k \<mapsto> e)) k' = (if k' = k then e else entry_or_default m k')"
  by (simp add: entry_or_default_def)

lemma merge_pending_manual: "is_manual md \<Longrightarrow> is_manual (merge_pending p md)"
  by (induction p md rule: merge_pending.induct) auto

lemma merge_pending_None [simp]: "merge_pending p (Manual None) = Manual None"
  by (cases "(p, Manual None)" rule: merge_pending.cases) auto

lemma merge_pending_eq:
  "merge_pending p md = (if p = Some (Manual None) then Manual None else md)"
  by (induction p md rule: merge_pending.induct) auto

lemmas slot_defs = try_start_def mark_idle_or_continue_def force_idle_def
  release_running_preserve_pending_def is_running_entry missed_def pending_def Let_def

lemma try_start_idle:
  "\<not> is_running m k \<Longrightarrow> \<exists>md. snd (try_start m k mode) = Started md \<and> is_running (fst (try_start m k mode)) k"
  by (auto simp: slot_defs)

lemma try_start_busy:
  "is_running m k \<Longrightarrow> snd (try_start m k mode) \<notin> range Started \<and> is_running (fst (try_start m k mode)) k"
  by (auto simp: slot_defs split: rebuild_mode.splits)

lemma try_start_frame: "k' \<noteq> k \<Longrightarrow> fst (try_start m k mode) k' = m k'"
  by (auto simp: try_start_def Let_def split: rebuild_mode.splits)

lemma mark_frame: "k' \<noteq> k \<Longrightarrow> fst (mark_idle_or_continue m k) k' = m k'"
  by (auto simp: mark_idle_or_continue_def Let_def split: option.splits)

lemma force_frame: "k' \<noteq> k \<Longrightarrow> force_idle m k k' = m k'"
  by (auto simp: force_idle_def split: option.splits)

lemma release_frame: "k' \<noteq> k \<Longrightarrow> release_running_preserve_pending m k k' = m k'"
  by (auto simp: release_running_preserve_pending_def split: option.splits)

lemma mark_running:
  "is_running m k \<Longrightarrow> is_running (fst (mark_idle_or_continue m k)) k \<longleftrightarrow> snd (mark_idle_or_continue m k) \<noteq> None"
  by (auto simp: slot_defs split: option.splits)

lemma force_idle_clears:
  "\<not> is_running (force_idle m k) k \<and> \<not> missed (force_idle m k) k \<and> pending (force_idle m k) k = None"
  by (auto simp: slot_defs entry_or_default_def default_state_def split: option.splits)

lemma release_keeps:
  "\<not> is_running (release_running_preserve_pending m k) k
   \<and> missed (release_running_preserve_pending m k) k = missed m k
   \<and> pending (release_running_preserve_pending m k) k = pending m k"
  by (auto simp: slot_defs entry_or_default_def default_state_def split: option.splits)

end
