(* ===== verification/Coordinator.thy ===== *)
theory Coordinator
  imports Rebuild_State "HOL-Library.Multiset"
begin

text \<open>
  \<open>llm-memory-coordinator/src/coordinator.rs\<close>, the spawn wrapper of \<open>worker.rs\<close> and the decision
  \<open>run_worker\<close> takes between two sessions. Requests and workers of any number of owners
  interleave: each locked operation of the slots is one labelled step, a worker is a task that
  is inside a session or has returned to its wrapper, and the wrapper's clean-up is a step of
  its own, so other steps can come between a worker's return and its clean-up.
\<close>

section \<open>Between two sessions\<close>

datatype session_outcome = Done | DrainCapped

definition MAX_CONSECUTIVE_CAPS :: nat where "MAX_CONSECUTIVE_CAPS = 3"

record loop_state =
  consecutive_caps :: nat
  remainder_drain_used :: bool

definition loop_init :: loop_state where
  "loop_init = \<lparr>consecutive_caps = 0, remainder_drain_used = False\<rparr>"

text \<open>
  One pass of the body of the \<open>while let\<close> of \<open>run_worker\<close> after \<open>run_session\<close>: \<open>remaining\<close> is
  the number of raws the look-up found, \<open>None\<close> when it failed (read as "some are left").
\<close>

fun after_session ::
  "session_outcome \<Rightarrow> nat option \<Rightarrow> state_map \<Rightarrow> owner_key \<Rightarrow> loop_state
     \<Rightarrow> state_map \<times> loop_state \<times> rebuild_mode option" where
  "after_session Done remaining m k l =
     (let (m', next) = mark_idle_or_continue m k in (m', l\<lparr>consecutive_caps := 0\<rparr>, next))"
| "after_session DrainCapped remaining m k l =
     (let l' = l\<lparr>consecutive_caps := consecutive_caps l + 1\<rparr> in
      if consecutive_caps l' \<ge> MAX_CONSECUTIVE_CAPS then
        (let remainder_present = (case remaining of None \<Rightarrow> True | Some n \<Rightarrow> n > 0) in
         if remainder_present \<and> \<not> remainder_drain_used l'
         then (m, l'\<lparr>remainder_drain_used := True, consecutive_caps := 0\<rparr>, Some Append)
         else (let (m', next) = mark_idle_or_continue m k in (m', l', next)))
      else (m, l', Some Append))"

section \<open>Requests, workers and the spawn wrapper\<close>

datatype join_result = JoinOk | JoinErr | JoinPanic | JoinCancelled

datatype phase = InSession rebuild_mode loop_state | Returned join_result

record worker =
  w_key :: owner_key
  w_phase :: phase

record coordinator =
  slots :: state_map
  workers :: "worker list"
  in_flight :: int
  rebuild_failed :: nat

datatype manual_outcome = ManualStarted | ManualPending

definition spawn_worker :: "coordinator \<Rightarrow> owner_key \<Rightarrow> rebuild_mode \<Rightarrow> coordinator" where
  "spawn_worker c k md = c\<lparr>in_flight := in_flight c + 1,
     workers := workers c @ [\<lparr>w_key = k, w_phase = InSession md loop_init\<rparr>]\<rparr>"

definition notify_append :: "coordinator \<Rightarrow> string \<Rightarrow> coordinator \<times> bool" where
  "notify_append c u =
     (let key = owner_personal u; (m, out) = try_start (slots c) key Append; c' = c\<lparr>slots := m\<rparr>
      in case out of Started md \<Rightarrow> (spawn_worker c' key md, True) | _ \<Rightarrow> (c', False))"

definition request_manual :: "coordinator \<Rightarrow> string \<Rightarrow> string option \<Rightarrow> coordinator \<times> manual_outcome" where
  "request_manual c u concept =
     (let key = owner_personal u; (m, out) = try_start (slots c) key (Manual concept);
          c' = c\<lparr>slots := m\<rparr>
      in case out of
           Started md \<Rightarrow> (spawn_worker c' key md, ManualStarted)
         | Pending \<Rightarrow> (c', ManualPending)
         | AlreadyRunning \<Rightarrow> (c', ManualPending))"

text \<open>What the outer task does with the inner task's join result.\<close>

definition wrapper_cleanup :: "join_result \<Rightarrow> owner_key \<Rightarrow> coordinator \<Rightarrow> coordinator" where
  "wrapper_cleanup r k c =
     (let c1 = c\<lparr>in_flight := in_flight c - 1\<rparr> in
      case r of
        JoinOk \<Rightarrow> c1
      | JoinErr \<Rightarrow> c1\<lparr>rebuild_failed := rebuild_failed c1 + 1,
                      slots := release_running_preserve_pending (slots c1) k\<rparr>
      | JoinPanic \<Rightarrow> c1\<lparr>rebuild_failed := rebuild_failed c1 + 1, slots := force_idle (slots c1) k\<rparr>
      | JoinCancelled \<Rightarrow> c1\<lparr>rebuild_failed := rebuild_failed c1 + 1,
                      slots := force_idle (slots c1) k\<rparr>)"

definition coordinator_init :: coordinator where
  "coordinator_init = \<lparr>slots = Map.empty, workers = [], in_flight = 0, rebuild_failed = 0\<rparr>"

datatype label =
    LNotify string
  | LManual string "string option"
  | LSession owner_key
  | LFail owner_key join_result
  | LCleanup owner_key join_result

definition phase_after :: "loop_state \<times> rebuild_mode option \<Rightarrow> phase" where
  "phase_after x = (case x of (l, Some md) \<Rightarrow> InSession md l | (l, None) \<Rightarrow> Returned JoinOk)"

inductive coord_step :: "coordinator \<Rightarrow> label \<Rightarrow> coordinator \<Rightarrow> bool" where
  notify: "coord_step c (LNotify u) (fst (notify_append c u))"
| manual: "coord_step c (LManual u q) (fst (request_manual c u q))"
| session: "workers c = us @ \<lparr>w_key = k, w_phase = InSession md l\<rparr> # vs \<Longrightarrow>
     after_session out remaining (slots c) k l = (m', l', next) \<Longrightarrow>
     coord_step c (LSession k)
       (c\<lparr>slots := m', workers := us @ \<lparr>w_key = k, w_phase = phase_after (l', next)\<rparr> # vs\<rparr>)"
| fail: "workers c = us @ \<lparr>w_key = k, w_phase = InSession md l\<rparr> # vs \<Longrightarrow> r \<noteq> JoinOk \<Longrightarrow>
     coord_step c (LFail k r) (c\<lparr>workers := us @ \<lparr>w_key = k, w_phase = Returned r\<rparr> # vs\<rparr>)"
| cleanup: "workers c = us @ \<lparr>w_key = k, w_phase = Returned r\<rparr> # vs \<Longrightarrow>
     coord_step c (LCleanup k r) (wrapper_cleanup r k (c\<lparr>workers := us @ vs\<rparr>))"

inductive coord_run :: "coordinator \<Rightarrow> label list \<Rightarrow> coordinator \<Rightarrow> bool" where
  start: "coord_run c [] c"
| step: "coord_run c ls c' \<Longrightarrow> coord_step c' l c'' \<Longrightarrow> coord_run c (ls @ [l]) c''"

section \<open>The interface the coordinator relies on\<close>

text \<open>
  A registry of exclusive slots: asking grants exactly when the slot is free and leaves it
  claimed; finishing keeps the claim exactly when it hands out more work; giving up frees it;
  other keys are untouched. \<open>agrees\<close> relates the registry to the keys of the live holders.
\<close>

definition agrees :: "('k \<Rightarrow> bool) \<Rightarrow> 'k multiset \<Rightarrow> bool" where
  "agrees claimed ks \<longleftrightarrow> (\<forall>k. count ks k = (if claimed k then 1 else 0))"

locale slot_registry =
  fixes claimed :: "'m \<Rightarrow> 'k \<Rightarrow> bool"
    and ask :: "'m \<Rightarrow> 'k \<Rightarrow> 'r \<Rightarrow> 'm \<times> 'o"
    and granted :: "'o \<Rightarrow> bool"
    and finish :: "'m \<Rightarrow> 'k \<Rightarrow> 'm \<times> 'n option"
    and give_up :: "'m \<Rightarrow> 'k \<Rightarrow> 'm"
  assumes ask_claims: "claimed (fst (ask m k r)) k' \<longleftrightarrow> k' = k \<or> claimed m k'"
    and ask_grants: "granted (snd (ask m k r)) \<longleftrightarrow> \<not> claimed m k"
    and finish_claims: "claimed m k \<Longrightarrow>
      claimed (fst (finish m k)) k' \<longleftrightarrow> (if k' = k then snd (finish m k) \<noteq> None else claimed m k')"
    and give_up_claims: "claimed (give_up m k) k' \<longleftrightarrow> k' \<noteq> k \<and> claimed m k'"
begin

lemma agrees_ask:
  assumes "agrees (claimed m) ks"
  shows "agrees (claimed (fst (ask m k r)))
           (if granted (snd (ask m k r)) then add_mset k ks else ks)"
  using assms unfolding agrees_def ask_grants by (auto simp: ask_claims)

lemma agrees_finish:
  assumes "agrees (claimed m) (add_mset k ks)"
  shows "agrees (claimed (fst (finish m k)))
           (if snd (finish m k) = None then ks else add_mset k ks)"
proof -
  have at: "count (add_mset k ks) k' = (if claimed m k' then 1 else 0)" for k'
    using assms by (simp add: agrees_def)
  from at [of k] have c: "claimed m k" by (simp split: if_splits)
  have "count ks k' = (if k' \<noteq> k \<and> claimed m k' then 1 else 0)" for k'
    using at [of k'] by (auto split: if_splits)
  then show ?thesis
    using c unfolding agrees_def finish_claims [OF c] by auto
qed

lemma agrees_give_up:
  assumes "agrees (claimed m) (add_mset k ks)"
  shows "agrees (claimed (give_up m k)) ks"
  unfolding agrees_def give_up_claims
proof
  fix k'
  from assms have "count (add_mset k ks) k' = (if claimed m k' then 1 else 0)"
    by (simp add: agrees_def)
  then show "count ks k' = (if k' \<noteq> k \<and> claimed m k' then 1 else 0)"
    by (auto split: if_splits)
qed

lemma exclusive: "agrees (claimed m) ks \<Longrightarrow> count ks k \<le> 1"
  by (simp add: agrees_def)

end

abbreviation "grants out \<equiv> (\<exists>md. out = Started md)"

lemma try_start_claims: "is_running (fst (try_start m k md)) k' \<longleftrightarrow> k' = k \<or> is_running m k'"
  by (cases "k' = k") (auto simp: slot_defs split: rebuild_mode.splits)

lemma try_start_grants: "grants (snd (try_start m k md)) \<longleftrightarrow> \<not> is_running m k"
  by (auto simp: slot_defs split: rebuild_mode.splits)

lemma mark_claims: "is_running m k \<Longrightarrow> is_running (fst (mark_idle_or_continue m k)) k' \<longleftrightarrow>
    (if k' = k then snd (mark_idle_or_continue m k) \<noteq> None else is_running m k')"
  by (cases "k' = k") (auto simp: slot_defs split: option.splits)

interpretation panic: slot_registry is_running try_start "\<lambda>out. grants out"
    mark_idle_or_continue force_idle
proof unfold_locales
  show "is_running (force_idle m k) k' \<longleftrightarrow> k' \<noteq> k \<and> is_running m k'" for m k k'
    by (auto simp: is_running_def force_idle_def split: option.splits)
qed (simp_all add: try_start_claims try_start_grants mark_claims)

interpretation soft: slot_registry is_running try_start "\<lambda>out. grants out"
    mark_idle_or_continue release_running_preserve_pending
proof unfold_locales
  show "is_running (release_running_preserve_pending m k) k' \<longleftrightarrow> k' \<noteq> k \<and> is_running m k'" for m k k'
    by (auto simp: is_running_def release_running_preserve_pending_def split: option.splits)
qed (simp_all add: try_start_claims try_start_grants mark_claims)

section \<open>Invariants of the runs\<close>

text \<open>A worker claims its owner's slot until it returns normally; a failed one until its clean-up.\<close>

definition claiming :: "worker \<Rightarrow> bool" where
  "claiming w \<longleftrightarrow> w_phase w \<noteq> Returned JoinOk"

definition holders :: "worker list \<Rightarrow> owner_key multiset" where
  "holders ws = image_mset w_key (filter_mset claiming (mset ws))"

definition coord_inv :: "coordinator \<Rightarrow> bool" where
  "coord_inv c \<longleftrightarrow> agrees (is_running (slots c)) (holders (workers c))
     \<and> in_flight c = int (length (workers c))"

text \<open>Work is owed to an owner when an append was missed or a manual rebuild is queued.\<close>

definition owed :: "state_map \<Rightarrow> owner_key \<Rightarrow> bool" where
  "owed m k \<longleftrightarrow> missed m k \<or> pending m k \<noteq> None"

lemma holders_simps [simp]:
  "holders [] = {#}"
  "holders (us @ vs) = holders us + holders vs"
  "holders (w # ws) = (if claiming w then add_mset (w_key w) (holders ws) else holders ws)"
  by (simp_all add: holders_def)

lemma claiming_simps [simp]:
  "claiming \<lparr>w_key = k, w_phase = InSession md l\<rparr>"
  "claiming \<lparr>w_key = k, w_phase = Returned r\<rparr> \<longleftrightarrow> r \<noteq> JoinOk"
  by (simp_all add: claiming_def)

lemma claiming_phase_after [simp]:
  "claiming \<lparr>w_key = k, w_phase = phase_after (l, next)\<rparr> \<longleftrightarrow> next \<noteq> None"
  by (simp add: phase_after_def split: option.splits)

lemma after_session_cases:
  assumes "after_session out remaining m k l = (m', l', next)"
  obtains "m' = m" "next = Some Append" "out = DrainCapped"
    | "mark_idle_or_continue m k = (m', next)"
  using assms
  by (cases out; cases "mark_idle_or_continue m k")
    (auto simp: Let_def split: if_splits)

lemma coord_inv_spawn:
  assumes "coord_inv c" "try_start (slots c) k md = (m, out)"
  shows "coord_inv (case out of Started md' \<Rightarrow> spawn_worker (c\<lparr>slots := m\<rparr>) k md' | _ \<Rightarrow> c\<lparr>slots := m\<rparr>)"
proof -
  from assms have "agrees (is_running m) (if grants out then add_mset k (holders (workers c)) else holders (workers c))"
    using panic.agrees_ask [of "slots c" "holders (workers c)" k md] by (simp add: coord_inv_def)
  with assms show ?thesis
    by (auto simp: coord_inv_def spawn_worker_def split: start_outcome.splits)
qed

lemma coord_inv_session:
  assumes "coord_inv c" "workers c = us @ \<lparr>w_key = k, w_phase = InSession md l\<rparr> # vs"
    "after_session out remaining (slots c) k l = (m', l', next)"
  shows "coord_inv (c\<lparr>slots := m', workers := us @ \<lparr>w_key = k, w_phase = phase_after (l', next)\<rparr> # vs\<rparr>)"
  using assms(3)
proof (cases rule: after_session_cases)
  case 2
  with assms show ?thesis
    using panic.agrees_finish [of "slots c" k "holders (us @ vs)"]
    by (auto simp: coord_inv_def split: if_splits)
qed (use assms in \<open>auto simp: coord_inv_def\<close>)

lemma coord_inv_cleanup:
  assumes "coord_inv c" "workers c = us @ \<lparr>w_key = k, w_phase = Returned r\<rparr> # vs"
  shows "coord_inv (wrapper_cleanup r k (c\<lparr>workers := us @ vs\<rparr>))"
  using assms panic.agrees_give_up [of "slots c" k "holders (us @ vs)"]
    soft.agrees_give_up [of "slots c" k "holders (us @ vs)"]
  by (cases r) (auto simp: coord_inv_def wrapper_cleanup_def Let_def)

lemma coord_inv_step: "coord_step c lb c' \<Longrightarrow> coord_inv c \<Longrightarrow> coord_inv c'"
proof (induction rule: coord_step.induct)
  case (notify c u)
  then show ?case
    using coord_inv_spawn [of c "owner_personal u" Append]
    by (cases "try_start (slots c) (owner_personal u) Append")
      (auto simp: notify_append_def Let_def split: start_outcome.splits)
next
  case (manual c u q)
  then show ?case
    using coord_inv_spawn [of c "owner_personal u" "Manual q"]
    by (cases "try_start (slots c) (owner_personal u) (Manual q)")
      (auto simp: request_manual_def Let_def split: start_outcome.splits)
next
  case (fail c us k md l vs r)
  then show ?case by (simp add: coord_inv_def)
qed (auto intro: coord_inv_session coord_inv_cleanup)

lemma coord_inv_init: "coord_inv coordinator_init"
  by (simp add: coord_inv_def coordinator_init_def agrees_def is_running_def)

lemma coord_inv_run: "coord_run c ls c' \<Longrightarrow> coord_inv c \<Longrightarrow> coord_inv c'"
  by (induction rule: coord_run.induct) (auto intro: coord_inv_step)

lemma count_holders: "count (holders ws) k = length (filter (\<lambda>w. w_key w = k \<and> claiming w) ws)"
  by (induction ws) auto

text \<open>Nothing owed is left behind an idle slot, as long as no worker fails recoverably.\<close>

definition owed_inv :: "coordinator \<Rightarrow> bool" where
  "owed_inv c \<longleftrightarrow> (\<forall>k. owed (slots c) k \<longrightarrow> is_running (slots c) k)
     \<and> (\<forall>w \<in> set (workers c). w_phase w \<noteq> Returned JoinErr)"

lemma owed_other:
  "m' k' = m k' \<Longrightarrow> owed m' k' = owed m k'" "m' k' = m k' \<Longrightarrow> is_running m' k' = is_running m k'"
  by (simp_all add: owed_def missed_def pending_def entry_or_default_def is_running_def)

definition covered :: "state_map \<Rightarrow> bool" where
  "covered m \<longleftrightarrow> (\<forall>k. owed m k \<longrightarrow> is_running m k)"

lemma covered_change:
  assumes "covered m" "\<And>k'. k' \<noteq> k \<Longrightarrow> m' k' = m k'" "owed m' k \<Longrightarrow> is_running m' k"
  shows "covered m'"
  unfolding covered_def
proof (intro allI impI)
  fix k' assume "owed m' k'"
  then show "is_running m' k'"
    using assms by (cases "k' = k") (auto simp: covered_def owed_other [of m' k' m])
qed

lemma covered_try: "covered m \<Longrightarrow> covered (fst (try_start m k md))"
  by (erule covered_change [where k = k]) (auto simp: try_start_frame try_start_claims)

lemma mark_None_not_owed:
  "snd (mark_idle_or_continue m k) = None \<Longrightarrow>
     \<not> owed (fst (mark_idle_or_continue m k)) k \<and> \<not> owed m k"
  by (auto simp: owed_def slot_defs split: if_splits option.splits)

lemma covered_mark: "covered m \<Longrightarrow> is_running m k \<Longrightarrow> covered (fst (mark_idle_or_continue m k))"
proof (rule covered_change [where k = k])
  assume "is_running m k" "owed (fst (mark_idle_or_continue m k)) k"
  then show "is_running (fst (mark_idle_or_continue m k)) k"
    using mark_None_not_owed [of m k] mark_running by blast
qed (simp_all add: mark_frame)

lemma covered_force: "covered m \<Longrightarrow> covered (force_idle m k)"
  by (erule covered_change [where k = k])
    (use force_idle_clears [of m k] in \<open>auto simp: owed_def force_frame\<close>)

lemma owed_inv_covered:
  "owed_inv c \<longleftrightarrow> covered (slots c) \<and> (\<forall>w \<in> set (workers c). w_phase w \<noteq> Returned JoinErr)"
  by (simp add: owed_inv_def covered_def)

lemma owed_inv_step:
  "coord_step c lb c' \<Longrightarrow> coord_inv c \<Longrightarrow> owed_inv c \<Longrightarrow> (\<And>k. lb \<noteq> LFail k JoinErr) \<Longrightarrow> owed_inv c'"
proof (induction rule: coord_step.induct)
  case (notify c u)
  then show ?case
    using covered_try [of "slots c" "owner_personal u" Append]
    by (auto simp: owed_inv_covered notify_append_def spawn_worker_def Let_def
        split: start_outcome.splits prod.splits)
next
  case (manual c u q)
  then show ?case
    using covered_try [of "slots c" "owner_personal u" "Manual q"]
    by (auto simp: owed_inv_covered request_manual_def spawn_worker_def Let_def
        split: start_outcome.splits prod.splits)
next
  case (session c us k md l vs out remaining m' l' "next")
  then have run: "is_running (slots c) k"
    by (auto simp: coord_inv_def agrees_def dest!: spec [of _ k] split: if_splits)
  have ph: "phase_after (l', next) \<noteq> Returned JoinErr"
    by (simp add: phase_after_def split: option.splits)
  from session(2) show ?case
  proof (cases rule: after_session_cases)
    case 2
    then show ?thesis
      using session ph covered_mark [OF _ run] by (auto simp: owed_inv_covered)
  qed (use session ph in \<open>auto simp: owed_inv_covered\<close>)
next
  case (cleanup c us k r vs)
  then show ?case
    by (cases r) (auto simp: owed_inv_covered wrapper_cleanup_def Let_def covered_force)
qed (auto simp: owed_inv_covered)

lemma owed_inv_init: "owed_inv coordinator_init"
  by (simp add: owed_inv_def coordinator_init_def owed_def missed_def pending_def
      entry_or_default_def default_state_def)

lemma owed_inv_run:
  "coord_run c ls c' \<Longrightarrow> coord_inv c \<Longrightarrow> owed_inv c \<Longrightarrow> (\<And>k. LFail k JoinErr \<notin> set ls) \<Longrightarrow> owed_inv c'"
proof (induction rule: coord_run.induct)
  case (step c ls c' l c'')
  then show ?case
    by (auto intro: owed_inv_step coord_inv_run)
qed auto

section \<open>Properties\<close>

text \<open>
  C4. In every state reachable by any interleaving of notifications, manual requests, session
  ends, failures and clean-ups, an owner has exactly one claiming worker when its slot is marked
  running and none otherwise, and the in-flight gauge is the number of live tasks: two rebuild
  workers never run for one owner.
\<close>
theorem one_worker_per_owner:
  assumes "coord_run coordinator_init ls c"
  shows "length (filter (\<lambda>w. w_key w = k \<and> claiming w) (workers c))
           = (if is_running (slots c) k then 1 else 0)
         \<and> in_flight c = int (length (workers c))"
  using coord_inv_run [OF assms coord_inv_init]
  by (simp add: coord_inv_def agrees_def count_holders)

text \<open>
  C5. In every run with no recoverable failure, a missed append or a queued manual rebuild always
  belongs to an owner with a live claiming worker: no accepted request is left without a worker
  that will pick it up.
\<close>
theorem no_request_stranded:
  assumes "coord_run coordinator_init ls c" "\<And>k. LFail k JoinErr \<notin> set ls"
    and "owed (slots c) k"
  shows "\<exists>w \<in> set (workers c). w_key w = k \<and> claiming w"
proof -
  have "is_running (slots c) k"
    using owed_inv_run [OF assms(1) coord_inv_init owed_inv_init assms(2)] assms(3)
    by (simp add: owed_inv_def)
  then have "count (holders (workers c)) k \<noteq> 0"
    using coord_inv_run [OF assms(1) coord_inv_init] by (simp add: coord_inv_def agrees_def)
  then show ?thesis
    unfolding count_holders by (auto simp: filter_empty_conv)
qed

text \<open>
  After a recoverable failure nothing owed is forgotten, and when an append had been missed
  the next manual request starts an Append session and queues itself behind it; the worker's
  first normal end then hands out that manual rebuild.
\<close>
lemma manual_waits_for_missed_append:
  assumes "missed m k" and "m1 = release_running_preserve_pending m k"
    and "try_start m1 k (Manual q) = (m2, out)"
    and "mark_idle_or_continue m2 k = (m3, next)"
  shows "out = Started Append \<and> is_running m2 k \<and> \<not> missed m2 k
         \<and> next = Some (merge_pending (pending m k) (Manual q)) \<and> is_running m3 k"
proof -
  have r: "\<not> is_running m1 k" "missed m1 k" "pending m1 k = pending m k"
    using assms release_keeps by auto
  show ?thesis
    using r assms(3,4) by (auto simp: slot_defs)
qed

lemma run_notify_manual:
  "coord_run coordinator_init [LNotify u, LManual v q]
     (fst (request_manual (fst (notify_append coordinator_init u)) v q))"
  using coord_run.step [OF coord_run.step [OF coord_run.start coord_step.notify] coord_step.manual]
  by simp

theorem one_worker_per_owner_witness:
  "length (filter (\<lambda>w. w_key w = owner_personal ''u'' \<and> claiming w)
     (workers (fst (request_manual (fst (notify_append coordinator_init ''u'')) ''u'' None)))) = 1"
  using one_worker_per_owner [OF run_notify_manual [of "''u''" "''u''" None], of "owner_personal ''u''"]
  by (simp add: notify_append_def request_manual_def slot_defs coordinator_init_def spawn_worker_def)

theorem no_request_stranded_witness:
  "\<exists>w \<in> set (workers (fst (request_manual (fst (notify_append coordinator_init ''u'')) ''u'' None))).
     w_key w = owner_personal ''u'' \<and> claiming w"
  by (rule no_request_stranded [OF run_notify_manual])
    (auto simp: owed_def notify_append_def request_manual_def slot_defs coordinator_init_def spawn_worker_def)

text \<open>
  C25. A failed Append session is not made up for: in any reachable state, when the Append session of an owner with
  nothing else owed ends in a recoverable failure, the manual rebuild of one concept that is requested next
  gets a worker that starts with that concept at once, and no Append session is owed before or after it
  (only a new append asks for one), so the failed session's raws do not reach the other concepts first.
\<close>
theorem failed_append_not_retried:
  assumes "coord_run coordinator_init ls c" "workers c = us @ \<lparr>w_key = owner_personal u, w_phase = InSession Append l\<rparr> # vs"
    and "\<not> owed (slots c) (owner_personal u)"
  shows "\<exists>c'. coord_run coordinator_init
           (ls @ [LFail (owner_personal u) JoinErr, LCleanup (owner_personal u) JoinErr, LManual u (Some q)]) c'
     \<and> workers c' = us @ vs @ [\<lparr>w_key = owner_personal u, w_phase = InSession (Manual (Some q)) loop_init\<rparr>]
     \<and> snd (mark_idle_or_continue (slots c') (owner_personal u)) = None"
proof -
  let ?k = "owner_personal u"
  let ?c1 = "c\<lparr>workers := us @ \<lparr>w_key = ?k, w_phase = Returned JoinErr\<rparr> # vs\<rparr>"
  let ?c2 = "wrapper_cleanup JoinErr ?k (?c1\<lparr>workers := us @ vs\<rparr>)"
  let ?c3 = "fst (request_manual ?c2 u (Some q))"
  have f: "coord_run coordinator_init (ls @ [LFail ?k JoinErr]) ?c1"
    by (rule coord_run.step [OF assms(1)]) (rule coord_step.fail [OF assms(2)], simp)
  have "coord_run coordinator_init ((ls @ [LFail ?k JoinErr]) @ [LCleanup ?k JoinErr]) ?c2"
    by (rule coord_run.step [OF f]) (rule coord_step.cleanup, simp)
  note run = coord_run.step [OF this coord_step.manual [of ?c2 u "Some q"]]
  have "\<not> is_running (slots ?c2) ?k \<and> \<not> missed (slots ?c2) ?k \<and> pending (slots ?c2) ?k = None"
    using release_keeps [of "slots c" ?k] assms(3) by (simp add: wrapper_cleanup_def owed_def Let_def)
  then have "workers ?c3 = us @ vs @ [\<lparr>w_key = ?k, w_phase = InSession (Manual (Some q)) loop_init\<rparr>]
      \<and> snd (mark_idle_or_continue (slots ?c3) ?k) = None"
    by (auto simp: request_manual_def wrapper_cleanup_def slot_defs spawn_worker_def)
  with run show ?thesis by auto
qed

theorem failed_append_not_retried_witness:
  "\<exists>c'. coord_run coordinator_init
     ([LNotify ''u''] @ [LFail (owner_personal ''u'') JoinErr, LCleanup (owner_personal ''u'') JoinErr, LManual ''u'' (Some ''c'')]) c'
     \<and> workers c' = [\<lparr>w_key = owner_personal ''u'', w_phase = InSession (Manual (Some ''c'')) loop_init\<rparr>]"
proof -
  have "coord_run coordinator_init ([] @ [LNotify ''u'']) (fst (notify_append coordinator_init ''u''))"
    by (rule coord_run.step [OF coord_run.start coord_step.notify])
  then have "coord_run coordinator_init [LNotify ''u''] (fst (notify_append coordinator_init ''u''))" by simp
  moreover have "workers (fst (notify_append coordinator_init ''u'')) = [] @ \<lparr>w_key = owner_personal ''u'', w_phase = InSession Append loop_init\<rparr> # []"
    "\<not> owed (slots (fst (notify_append coordinator_init ''u''))) (owner_personal ''u'')"
    by (simp_all add: owed_def notify_append_def slot_defs coordinator_init_def spawn_worker_def entry_or_default_def default_state_def)
  ultimately show ?thesis using failed_append_not_retried [where us = "[]" and vs = "[]" and q = "''c''"] by fastforce
qed

end
