(* ===== verification/Llm.thy ===== *)
theory Llm
  imports Json
begin

text \<open>
  The crate \<open>llm-memory-llm\<close>: requests and errors (\<open>client.rs\<close>, \<open>error.rs\<close>), the Vertex AI
  payload and response reading (\<open>client_http.rs\<close>), the concept extractor (\<open>haiku.rs\<close>), the wiki
  synthesiser (\<open>sonnet.rs\<close>) and the scripted client of the tests (\<open>mock.rs\<close>). A client is a
  function from its state and a request to a result and its next state. The JSON text format is
  the library's: \<open>ser\<close> and \<open>par\<close> are parameters, as are the two prompt texts.
\<close>

section \<open>Requests, errors and clients\<close>

record message =
  msg_role :: string
  msg_content :: string

record complete_request =
  cr_model :: string
  cr_system :: string
  cr_messages :: "message list"
  cr_max_tokens :: nat
  cr_response_schema :: "json option"
  cr_thinking_budget :: "nat option"

datatype llm_error = Api nat string | ParseErr string | Reqwest | JsonErr

type_synonym 's llm_client = "'s \<Rightarrow> complete_request \<Rightarrow> (llm_error + string) \<times> 's"

record mock_client =
  responses :: "(string + string) list"
  captured :: "complete_request list"

definition push_text :: "string \<Rightarrow> mock_client \<Rightarrow> mock_client" where
  "push_text s m = m\<lparr>responses := responses m @ [Inr s]\<rparr>"

definition push_error :: "string \<Rightarrow> mock_client \<Rightarrow> mock_client" where
  "push_error e m = m\<lparr>responses := responses m @ [Inl e]\<rparr>"

definition mock_complete :: "mock_client llm_client" where
  "mock_complete m req =
     (let m1 = m\<lparr>captured := captured m @ [req]\<rparr> in
      case responses m1 of
        [] \<Rightarrow> (Inl (Api 500 ''mock: no response queued''), m1)
      | r # rs \<Rightarrow> (case r of Inr c \<Rightarrow> Inr c | Inl e \<Rightarrow> Inl (Api 500 e), m1\<lparr>responses := rs\<rparr>))"

section \<open>Vertex AI\<close>

definition part_json :: "string \<Rightarrow> json" where
  "part_json t = JObj [(''text'', JStr t)]"

definition build_gemini_payload :: "complete_request \<Rightarrow> json" where
  "build_gemini_payload req =
     (let contents = map (\<lambda>m. JObj
            [(''role'', JStr (if msg_role m = ''assistant'' \<or> msg_role m = ''model''
                             then ''model'' else ''user'')),
             (''parts'', JArr [part_json (msg_content m)])]) (cr_messages req);
          mime_schema = (case cr_response_schema req of
              Some s \<Rightarrow> [(''responseMimeType'', JStr ''application/json''), (''responseSchema'', s)]
            | None \<Rightarrow> []);
          thinking = (case cr_thinking_budget req of
              Some b \<Rightarrow> [(''thinkingConfig'', JObj [(''thinkingBudget'', JInt (int b))])]
            | None \<Rightarrow> [])
      in JObj [(''contents'', JArr contents),
               (''systemInstruction'', JObj [(''parts'', JArr [part_json (cr_system req)])]),
               (''generationConfig'', JObj ((''maxOutputTokens'', JInt (int (cr_max_tokens req)))
                                           # mime_schema @ thinking))])"

record resp_candidate =
  rc_parts :: "string option list option"
  rc_finish_reason :: "string option"

record gemini_response =
  gr_candidates :: "resp_candidate list option"
  gr_block_reason :: "string option"

text \<open>
  The derived deserialisers. \<open>RespContent\<close> and \<open>PromptFeedback\<close> have one optional field each, so
  the code's \<open>and_then\<close> chains read only that field.
\<close>

definition de_obj :: "(jobject \<Rightarrow> 'a option) \<Rightarrow> json \<Rightarrow> 'a option" where
  "de_obj f v = (case v of JObj m \<Rightarrow> f m | _ \<Rightarrow> None)"

definition de_part :: "json \<Rightarrow> string option option" where
  "de_part = de_obj (\<lambda>m. de_opt as_str m ''text'')"

definition de_content :: "json \<Rightarrow> string option list option option" where
  "de_content = de_obj (\<lambda>m. de_opt (de_list de_part) m ''parts'')"

definition de_candidate :: "json \<Rightarrow> resp_candidate option" where
  "de_candidate = de_obj (\<lambda>m.
     case (de_opt de_content m ''content'', de_opt as_str m ''finishReason'') of
       (Some c, Some f) \<Rightarrow> Some \<lparr>rc_parts = Option.bind c id, rc_finish_reason = f\<rparr>
     | _ \<Rightarrow> None)"

definition de_feedback :: "json \<Rightarrow> string option option" where
  "de_feedback = de_obj (\<lambda>m. de_opt as_str m ''blockReason'')"

definition de_gemini_response :: "json \<Rightarrow> gemini_response option" where
  "de_gemini_response = de_obj (\<lambda>m.
     case (de_opt (de_list de_candidate) m ''candidates'', de_opt de_feedback m ''promptFeedback'') of
       (Some cs, Some fb) \<Rightarrow> Some \<lparr>gr_candidates = cs, gr_block_reason = Option.bind fb id\<rparr>
     | _ \<Rightarrow> None)"

definition somes :: "'a option list \<Rightarrow> 'a list" where
  "somes xs = map the (filter (\<lambda>x. x \<noteq> None) xs)"

definition first_candidate :: "gemini_response \<Rightarrow> resp_candidate option" where
  "first_candidate resp = Option.bind (gr_candidates resp) (\<lambda>cs. case cs of [] \<Rightarrow> None | c # _ \<Rightarrow> Some c)"

definition parse_gemini_response :: "gemini_response \<Rightarrow> llm_error + string" where
  "parse_gemini_response resp =
     (case gr_block_reason resp of
        Some reason \<Rightarrow> Inl (ParseErr (''vertex: prompt blocked by safety filter ('' @ reason @ '')''))
      | None \<Rightarrow>
     (case first_candidate resp of
        None \<Rightarrow> Inl (ParseErr ''vertex: no candidate in response'')
      | Some candidate \<Rightarrow>
     bindE (case rc_finish_reason candidate of
        Some reason \<Rightarrow> guardE (reason = ''STOP'')
          (ParseErr (''vertex: candidate finishReason='' @ reason @ '' (output may be truncated or blocked)''))
      | None \<Rightarrow> Inr ())
     (\<lambda>_. of_option (ParseErr ''vertex: empty candidate content'')
        (Option.bind (rc_parts candidate)
          (\<lambda>ps. let joined = concat (somes ps) in if joined = [] then None else Some joined)))))"

text \<open>The reply of the HTTP client: a transport error, or a status and a body (\<open>None\<close>: unreadable).\<close>

record http_reply =
  hr_status :: nat
  hr_body :: "string option"

definition vertex_url :: "string \<Rightarrow> string \<Rightarrow> string \<Rightarrow> string \<Rightarrow> string" where
  "vertex_url base_url project location model =
     base_url @ ''/v1/projects/'' @ project @ ''/locations/'' @ location
       @ ''/publishers/google/models/'' @ model @ '':generateContent''"

definition vertex_complete ::
  "(string \<Rightarrow> json option) \<Rightarrow> llm_error + string \<Rightarrow> (string \<Rightarrow> string \<Rightarrow> json \<Rightarrow> http_reply option)
     \<Rightarrow> string \<Rightarrow> string \<Rightarrow> string \<Rightarrow> complete_request \<Rightarrow> llm_error + string" where
  "vertex_complete parse access_token post base_url project location req =
     bindE access_token (\<lambda>token.
     let url = vertex_url base_url project location (cr_model req) in
     case post url token (build_gemini_payload req) of
       None \<Rightarrow> Inl Reqwest
     | Some res \<Rightarrow>
         if \<not> (200 \<le> hr_status res \<and> hr_status res < 300)
         then Inl (Api (hr_status res) (case hr_body res of None \<Rightarrow> [] | Some b \<Rightarrow> b))
         else (case Option.bind (Option.bind (hr_body res) parse) de_gemini_response of
                 None \<Rightarrow> Inl Reqwest
               | Some resp \<Rightarrow> parse_gemini_response resp))"

section \<open>The extractor and the synthesiser\<close>

definition thinking_budget_for_model :: "string \<Rightarrow> nat option" where
  "thinking_budget_for_model model =
     (if \<not> contains_sub model ''2.5'' then None
      else if contains_sub model ''flash'' then Some 0 else Some 128)"

definition extract_json :: "string \<Rightarrow> string option" where
  "extract_json s =
     (case find_char (CHR 0x7B) s of None \<Rightarrow> None
      | Some start \<Rightarrow> (case rfind_char (CHR 0x7D) s of None \<Rightarrow> None
      | Some end' \<Rightarrow> if start < end' then Some (drop start (take (Suc end') s)) else None))"

record affected_concepts =
  affected_existing :: "string list"
  new_concepts :: "string list"

record wiki_synth =
  ws_content :: string
  ws_source_refs :: "string list"

definition strings_schema :: json where
  "strings_schema = JObj [(''type'', JStr ''array''), (''items'', JObj [(''type'', JStr ''string'')])]"

definition extract_response_schema :: json where
  "extract_response_schema = JObj [(''type'', JStr ''object''),
     (''properties'', JObj [(''affected_existing'', strings_schema), (''new_concepts'', strings_schema)]),
     (''required'', JArr [JStr ''affected_existing'', JStr ''new_concepts''])]"

definition synth_response_schema :: json where
  "synth_response_schema = JObj [(''type'', JStr ''object''),
     (''properties'', JObj [(''content'', JObj [(''type'', JStr ''string'')]), (''source_refs'', strings_schema)]),
     (''required'', JArr [JStr ''content'', JStr ''source_refs''])]"

definition de_affected :: "json \<Rightarrow> affected_concepts option" where
  "de_affected = de_obj (\<lambda>m.
     case (de_req (de_list as_str) m ''affected_existing'', de_req (de_list as_str) m ''new_concepts'') of
       (Some a, Some n) \<Rightarrow> Some \<lparr>affected_existing = a, new_concepts = n\<rparr> | _ \<Rightarrow> None)"

definition de_synth :: "json \<Rightarrow> wiki_synth option" where
  "de_synth = de_obj (\<lambda>m.
     case (de_req as_str m ''content'', de_req (de_list as_str) m ''source_refs'') of
       (Some c, Some r) \<Rightarrow> Some \<lparr>ws_content = c, ws_source_refs = r\<rparr> | _ \<Rightarrow> None)"

text \<open>The library's JSON text format and the two prompt texts.\<close>

record texts =
  ser :: "json \<Rightarrow> string"
  par :: "string \<Rightarrow> json option"
  extract_system :: string
  synth_system :: string

definition reply_json ::
  "texts \<Rightarrow> (json \<Rightarrow> 'a option) \<Rightarrow> string \<Rightarrow> llm_error + string \<Rightarrow> llm_error + 'a" where
  "reply_json T de what r =
     bindE r (\<lambda>content.
     bindE (of_option (ParseErr (what @ '': no JSON in response: '' @ content)) (extract_json content)) (\<lambda>txt.
     of_option JsonErr (Option.bind (par T txt) de)))"

definition extract_concepts ::
  "texts \<Rightarrow> 's llm_client \<Rightarrow> string \<Rightarrow> 's \<Rightarrow> (string \<times> string) list \<Rightarrow> string list
     \<Rightarrow> (llm_error + affected_concepts) \<times> 's" where
  "extract_concepts T client model s new_raws existing =
     (let user = ser T (JObj
            [(''new_raws'', JArr (map (\<lambda>(t, c). JObj [(''title'', JStr t), (''content'', JStr c)]) new_raws)),
             (''existing_concepts'', JArr (map JStr existing))]);
          (r, s') = client s \<lparr>cr_model = model, cr_system = extract_system T,
            cr_messages = [\<lparr>msg_role = ''user'', msg_content = user\<rparr>], cr_max_tokens = 8192,
            cr_response_schema = Some extract_response_schema,
            cr_thinking_budget = thinking_budget_for_model model\<rparr>
      in (reply_json T de_affected ''extract'' r, s'))"

record synth_input =
  si_concept :: string
  si_existing_wiki :: "string option"
  si_raws :: "(string \<times> string \<times> string) list"

definition synthesize ::
  "texts \<Rightarrow> 's llm_client \<Rightarrow> string \<Rightarrow> 's \<Rightarrow> synth_input \<Rightarrow> (llm_error + wiki_synth) \<times> 's" where
  "synthesize T client model s i =
     (let user = ser T (JObj
            [(''concept'', JStr (si_concept i)), (''existing_wiki'', json_opt JStr (si_existing_wiki i)),
             (''raws'', JArr (map (\<lambda>(d, t, c). JObj [(''id'', JStr d), (''title'', JStr t), (''content'', JStr c)])
                              (si_raws i)))]);
          (r, s') = client s \<lparr>cr_model = model, cr_system = synth_system T,
            cr_messages = [\<lparr>msg_role = ''user'', msg_content = user\<rparr>], cr_max_tokens = 32768,
            cr_response_schema = Some synth_response_schema,
            cr_thinking_budget = thinking_budget_for_model model\<rparr>
      in (reply_json T de_synth ''synthesize'' r, s'))"

section \<open>Facts\<close>

lemma find_char_Some: "find_char c s = Some i \<longleftrightarrow> i < length s \<and> s ! i = c \<and> c \<notin> set (take i s)"
proof
  assume "find_char c s = Some i"
  then show "i < length s \<and> s ! i = c \<and> c \<notin> set (take i s)"
    using pos_of_Some [of "\<lambda>x. x = c" s i] by (auto simp: find_char_def in_set_conv_nth)
next
  assume r: "i < length s \<and> s ! i = c \<and> c \<notin> set (take i s)"
  then have "pos_of (\<lambda>x. x = c) s \<noteq> None"
    by (metis (mono_tags, lifting) nth_mem pos_of_None)
  then obtain k where k: "pos_of (\<lambda>x. x = c) s = Some k" by auto
  note kk = pos_of_Some [OF k]
  have "\<not> k < i" using kk r by (auto simp: in_set_conv_nth)
  moreover have "\<not> i < k" using kk r by blast
  ultimately show "find_char c s = Some i" using k by (simp add: find_char_def)
qed

lemma find_char_append: "c \<notin> set a \<Longrightarrow> find_char c (a @ c # b) = Some (length a)"
  by (simp add: find_char_Some)

lemma rfind_char_append: "c \<notin> set b \<Longrightarrow> rfind_char c (a @ c # b) = Some (length a)"
  using find_char_append [of c "rev b" "rev a"] by (simp add: rfind_char_def find_char_def)

lemma extract_json_append:
  assumes "CHR 0x7B \<notin> set pre" "CHR 0x7D \<notin> set post"
  shows "extract_json (pre @ CHR 0x7B # mid @ CHR 0x7D # post) = Some (CHR 0x7B # mid @ [CHR 0x7D])"
proof -
  have "rfind_char (CHR 0x7D) ((pre @ CHR 0x7B # mid) @ CHR 0x7D # post)
          = Some (length (pre @ CHR 0x7B # mid))"
    by (rule rfind_char_append [OF assms(2)])
  with find_char_append [OF assms(1)] show ?thesis
    by (simp add: extract_json_def)
qed

lemma extract_json_SomeD:
  assumes "extract_json s = Some t"
  shows "\<exists>pre mid post. s = pre @ CHR 0x7B # mid @ CHR 0x7D # post
           \<and> t = CHR 0x7B # mid @ [CHR 0x7D] \<and> CHR 0x7B \<notin> set pre \<and> CHR 0x7D \<notin> set post"
proof -
  from assms obtain i j where i: "find_char (CHR 0x7B) s = Some i"
    and j: "rfind_char (CHR 0x7D) s = Some j" and ij: "i < j"
    by (auto simp: extract_json_def split: option.splits if_splits)
  from i have si: "s = take i s @ CHR 0x7B # drop (Suc i) s" and ni: "CHR 0x7B \<notin> set (take i s)"
    by (auto simp: find_char_Some) (metis id_take_nth_drop)
  from rfind_char_Some [OF j] have jl: "j < length s" "s ! j = CHR 0x7D"
    and nj: "CHR 0x7D \<notin> set (drop (Suc j) s)" by (auto simp: in_set_conv_nth)
  let ?mid = "take (j - Suc i) (drop (Suc i) s)"
  have "drop (Suc i) s = ?mid @ CHR 0x7D # drop (Suc j) s"
    using jl ij id_take_nth_drop [of "j - Suc i" "drop (Suc i) s"] by simp
  then have s: "s = take i s @ CHR 0x7B # ?mid @ CHR 0x7D # drop (Suc j) s"
    using si by simp
  have "extract_json s = Some (CHR 0x7B # ?mid @ [CHR 0x7D])"
    by (subst s) (rule extract_json_append [OF ni nj])
  then have "t = CHR 0x7B # ?mid @ [CHR 0x7D]" using assms by simp
  with s ni nj show ?thesis by (intro exI conjI)
qed

text \<open>
  The JSON text cut out of a model's reply is exactly the span from the first opening brace
  to the last closing brace, whatever surrounds it, and there is none exactly when no opening
  brace precedes a closing one.
\<close>
lemma extract_json_span:
  "extract_json s = Some t \<longleftrightarrow>
     (\<exists>pre mid post. s = pre @ CHR 0x7B # mid @ CHR 0x7D # post
        \<and> t = CHR 0x7B # mid @ [CHR 0x7D] \<and> CHR 0x7B \<notin> set pre \<and> CHR 0x7D \<notin> set post)"
  using extract_json_SomeD extract_json_append by metis

lemma de_affected_obj:
  "de_affected (JObj [(''affected_existing'', JArr (map JStr a)), (''new_concepts'', JArr (map JStr n))])
     = Some \<lparr>affected_existing = a, new_concepts = n\<rparr>"
  by (simp add: de_affected_def de_obj_def de_req_def de_list_strs)

lemma first_candidate_Some:
  "first_candidate resp = Some c \<longleftrightarrow> (\<exists>cs. gr_candidates resp = Some (c # cs))"
  by (cases "gr_candidates resp"; cases "the (gr_candidates resp)") (auto simp: first_candidate_def)

lemma parse_gemini_ok:
  "parse_gemini_response resp = Inr text \<longleftrightarrow>
     gr_block_reason resp = None
     \<and> (\<exists>c ps. first_candidate resp = Some c \<and> rc_finish_reason c \<in> {None, Some ''STOP''}
          \<and> rc_parts c = Some ps \<and> concat (somes ps) = text \<and> text \<noteq> [])"
proof (cases "first_candidate resp")
  case (Some c)
  then show ?thesis
    by (cases "gr_block_reason resp"; cases "rc_finish_reason c"; cases "rc_parts c")
      (auto simp: parse_gemini_response_def Let_def guardE_def bindE_def)
qed (simp add: parse_gemini_response_def split: option.splits)

text \<open>
  Text is taken from Vertex AI only out of a successful, unblocked response whose first
  candidate ended with STOP (or gave no reason) and has some text: a truncated or filtered
  output is never passed on, and a provider error keeps its status.
\<close>
lemma vertex_complete_accepts:
  "vertex_complete parse tok post b p l req = Inr text \<longleftrightarrow>
     (\<exists>token res body v resp c cs ps.
        tok = Inr token
        \<and> post (vertex_url b p l (cr_model req)) token (build_gemini_payload req) = Some res
        \<and> hr_status res \<in> {200..299} \<and> hr_body res = Some body \<and> parse body = Some v
        \<and> de_gemini_response v = Some resp \<and> gr_block_reason resp = None
        \<and> gr_candidates resp = Some (c # cs) \<and> rc_finish_reason c \<in> {None, Some ''STOP''}
        \<and> rc_parts c = Some ps \<and> concat (somes ps) = text \<and> text \<noteq> [])"
  unfolding vertex_complete_def Let_def bindE_eq_Inr
  by (auto simp: case_option_Inr parse_gemini_ok first_candidate_Some bind_eq_Some_conv)

end
