(* ===== verification/Worker.thy ===== *)
theory Worker
  imports Input_Builder Coordinator Llm
begin

text \<open>
  \<open>llm-memory-coordinator/src/worker.rs\<close>: \<open>synthesize_one\<close>, \<open>synthesize_concepts\<close>,
  \<open>run_session\<close> and \<open>run_worker\<close> with the database, the language model, the slots and the
  metrics they use. What other tasks do meanwhile reaches a worker at its clock readings: an
  \<open>event\<close> holds the time read, the raws inserted since the last reading (with any creation
  times) and the requests made for this owner.

  \<open>synthesize_concepts\<close> runs up to four concepts at a time; they write different rows and only
  read the raws, so any interleaving is some order of whole tasks: \<open>cf_order\<close> is that order.
\<close>

definition MAX_ITERATIONS :: nat where "MAX_ITERATIONS = 10"
definition CONCEPT_LIMIT_PER_OWNER :: int where "CONCEPT_LIMIT_PER_OWNER = 200"

datatype coordinator_error = CStorage storage_error | CLlm llm_error | WorkerPanic

record metrics =
  m_concept_rebuild_failed :: nat
  m_rebuild_drain_capped :: nat
  m_drain_iterations :: "nat list"
  m_llm_api_error :: nat

record event =
  ev_time :: int
  ev_raws :: "raw list"
  ev_requests :: "rebuild_mode list"

record 's world =
  g_db :: db
  g_llm :: 's
  g_slots :: state_map
  g_metrics :: metrics
  g_events :: "event list"
  g_now :: int

record 's worker_deps =
  cf_texts :: texts
  cf_client :: "'s llm_client"
  cf_model_extract :: string
  cf_model_synth :: string
  cf_fts :: fts
  cf_order :: "string list \<Rightarrow> string list"

type_synonym ('s, 'a) wact = "('s world, coordinator_error, 'a) act"

definition db_act :: "'a dbop \<Rightarrow> ('s, 'a) wact" where
  "db_act f w = (case f (g_db w) of
     (Inl e, d) \<Rightarrow> (Inl (CStorage e), w\<lparr>g_db := d\<rparr>) | (Inr x, d) \<Rightarrow> (Inr x, w\<lparr>g_db := d\<rparr>))"

definition llm_act :: "('s \<Rightarrow> (llm_error + 'a) \<times> 's) \<Rightarrow> ('s, 'a) wact" where
  "llm_act f w = (case f (g_llm w) of
     (Inl e, s) \<Rightarrow> (Inl (CLlm e), w\<lparr>g_llm := s\<rparr>) | (Inr x, s) \<Rightarrow> (Inr x, w\<lparr>g_llm := s\<rparr>))"

definition metric :: "(metrics \<Rightarrow> metrics) \<Rightarrow> ('s, unit) wact" where
  "metric f w = (Inr (), w\<lparr>g_metrics := f (g_metrics w)\<rparr>)"

definition is_api_error :: "coordinator_error \<Rightarrow> bool" where
  "is_api_error e = (case e of CLlm (Api _ _) \<Rightarrow> True | _ \<Rightarrow> False)"

definition requests :: "owner_key \<Rightarrow> rebuild_mode list \<Rightarrow> state_map \<Rightarrow> state_map" where
  "requests k ms m = fold (\<lambda>md m. fst (try_start m k md)) ms m"

definition now_ms :: "owner_key \<Rightarrow> ('s, int) wact" where
  "now_ms k w = (case g_events w of
       [] \<Rightarrow> (Inr (g_now w), w)
     | e # es \<Rightarrow> (Inr (ev_time e), w\<lparr>g_now := ev_time e, g_events := es,
          g_db := (g_db w)\<lparr>t_raws := t_raws (g_db w) @ ev_raws e\<rparr>,
          g_slots := requests k (ev_requests e) (g_slots w)\<rparr>))"

section \<open>One concept\<close>

definition stored_refs :: "texts \<Rightarrow> wiki option \<Rightarrow> string list" where
  "stored_refs T w = (case w of None \<Rightarrow> []
     | Some w \<Rightarrow> (case Option.bind (par T (w_source_refs w)) (de_list as_str) of
                    None \<Rightarrow> [] | Some refs \<Rightarrow> refs))"

definition synthesize_one ::
  "'s worker_deps \<Rightarrow> owner_key \<Rightarrow> string \<Rightarrow> raw list \<Rightarrow> int \<Rightarrow> ('s, unit) wact" where
  "synthesize_one deps key concept new_raws started_at =
     seqA (db_act (wikis_get (ok_scope key) (ok_owner key) concept)) (\<lambda>existing_wiki.
     let existing_refs = stored_refs (cf_texts deps) existing_wiki in
     seqA (db_act (build (cf_fts deps) (ok_scope key) (ok_owner key) concept existing_refs new_raws)) (\<lambda>inputs.
     let raws_tuple = map (\<lambda>r. (r_id r, r_title r, r_content r)) inputs in
     seqA (llm_act (\<lambda>s. synthesize (cf_texts deps) (cf_client deps) (cf_model_synth deps) s
             \<lparr>si_concept = concept, si_existing_wiki = map_option w_content existing_wiki,
              si_raws = raws_tuple\<rparr>)) (\<lambda>result.
     let filtered_refs = filter (\<lambda>i. i \<in> r_id ` set inputs) (ws_source_refs result);
         refs_json = ser (cf_texts deps) (JArr (map JStr filtered_refs)) in
     db_act (wikis_upsert (ok_scope key) (ok_owner key) concept (ws_content result) refs_json started_at))))"

definition count_failure :: "coordinator_error \<Rightarrow> metrics \<Rightarrow> metrics" where
  "count_failure e m =
     (let m1 = m\<lparr>m_concept_rebuild_failed := m_concept_rebuild_failed m + 1\<rparr>
      in if is_api_error e then m1\<lparr>m_llm_api_error := m_llm_api_error m1 + 1\<rparr> else m1)"

text \<open>A failed concept is counted and does not stop the others.\<close>

definition concept_task ::
  "'s worker_deps \<Rightarrow> owner_key \<Rightarrow> raw list \<Rightarrow> int \<Rightarrow> string \<Rightarrow> 's world \<Rightarrow> 's world" where
  "concept_task deps key new_raws started_at concept w =
     (case synthesize_one deps key concept new_raws started_at w of
        (Inr _, w') \<Rightarrow> w'
      | (Inl e, w') \<Rightarrow> w'\<lparr>g_metrics := count_failure e (g_metrics w')\<rparr>)"

definition synthesize_concepts ::
  "'s worker_deps \<Rightarrow> owner_key \<Rightarrow> string list \<Rightarrow> raw list \<Rightarrow> int \<Rightarrow> ('s, unit) wact" where
  "synthesize_concepts deps key affected new_raws started_at w =
     (Inr (), fold (concept_task deps key new_raws started_at) (cf_order deps affected) w)"

section \<open>One session\<close>

definition btree_set :: "string list \<Rightarrow> string list" where
  "btree_set xs = sort (remdups xs)"

text \<open>The filters on the extractor's answer: names the model may not introduce are dropped.\<close>

definition affected_of :: "string list \<Rightarrow> int \<Rightarrow> affected_concepts \<Rightarrow> string list" where
  "affected_of existing current_count a =
     (let known = filter (\<lambda>c. c \<in> set existing) (filter is_valid (affected_existing a));
          remaining = nat (max (CONCEPT_LIMIT_PER_OWNER - current_count) 0);
          valid_new = filter is_valid (new_concepts a)
      in btree_set (known @ take remaining valid_new))"

datatype plan = Finish | Skip | Rebuild "string list"

definition extract_act ::
  "'s worker_deps \<Rightarrow> raw list \<Rightarrow> string list \<Rightarrow> ('s, affected_concepts) wact" where
  "extract_act deps new_raws existing w =
     (case llm_act (\<lambda>s. extract_concepts (cf_texts deps) (cf_client deps) (cf_model_extract deps) s
              (map (\<lambda>r. (r_title r, r_content r)) new_raws) existing) w of
        (Inr a, w') \<Rightarrow> (Inr a, w')
      | (Inl e, w') \<Rightarrow> (Inl e, w'\<lparr>g_metrics := (g_metrics w')\<lparr>m_llm_api_error :=
           m_llm_api_error (g_metrics w') + (if is_api_error e then 1 else 0)\<rparr>\<rparr>))"

definition choose_concepts ::
  "'s worker_deps \<Rightarrow> owner_key \<Rightarrow> rebuild_mode \<Rightarrow> raw list \<Rightarrow> string list \<Rightarrow> ('s, plan) wact" where
  "choose_concepts deps key mode new_raws existing =
     (case mode of
        Append \<Rightarrow>
          (if new_raws = [] then okA Finish
           else seqA (extract_act deps new_raws existing) (\<lambda>extracted.
                seqA (db_act (wikis_count_concepts (ok_scope key) (ok_owner key))) (\<lambda>current_count.
                okA (Rebuild (affected_of existing current_count extracted)))))
      | Manual (Some c) \<Rightarrow>
          (if c \<in> set existing then okA (Rebuild [c])
           else seqA (db_act (wikis_count_concepts (ok_scope key) (ok_owner key))) (\<lambda>current_count.
                okA (if current_count \<ge> CONCEPT_LIMIT_PER_OWNER then Skip else Rebuild [c])))
      | Manual None \<Rightarrow> okA (Rebuild existing))"

definition observe_drain :: "nat \<Rightarrow> ('s, unit) wact" where
  "observe_drain n = metric (\<lambda>m. m\<lparr>m_drain_iterations := m_drain_iterations m @ [n]\<rparr>)"

text \<open>
  The body of the loop for one iteration: \<open>Inl\<close> ends the session, \<open>Inr\<close> goes on with a mode.
\<close>

definition iteration ::
  "'s worker_deps \<Rightarrow> owner_key \<Rightarrow> nat \<Rightarrow> rebuild_mode \<Rightarrow> ('s, session_outcome + rebuild_mode) wact" where
  "iteration deps key i mode =
     seqA (now_ms key) (\<lambda>started_at.
     seqA (db_act (wikis_max_last_rebuilt_at (ok_scope key) (ok_owner key))) (\<lambda>wm.
     seqA (db_act (raws_list_since (ok_scope key) (ok_owner key) wm started_at)) (\<lambda>new_raws.
     seqA (db_act (wikis_list_concepts (ok_scope key) (ok_owner key))) (\<lambda>existing.
     seqA (choose_concepts deps key mode new_raws existing) (\<lambda>p.
     case p of
       Finish \<Rightarrow> seqA (observe_drain i) (\<lambda>_. okA (Inl Done))
     | Skip \<Rightarrow> okA (Inr Append)
     | Rebuild affected \<Rightarrow>
         if affected = [] then seqA (observe_drain i) (\<lambda>_. okA (Inl Done))
         else seqA (synthesize_concepts deps key affected new_raws started_at) (\<lambda>_.
              if i = MAX_ITERATIONS
              then seqA (metric (\<lambda>m. m\<lparr>m_rebuild_drain_capped := m_rebuild_drain_capped m + 1\<rparr>))
                     (\<lambda>_. seqA (observe_drain i) (\<lambda>_. okA (Inl DrainCapped)))
              else okA (Inr Append)))))))"

fun session_loop ::
  "'s worker_deps \<Rightarrow> owner_key \<Rightarrow> nat list \<Rightarrow> rebuild_mode \<Rightarrow> ('s, session_outcome) wact" where
  "session_loop deps key [] mode = okA Done"
| "session_loop deps key (i # is) mode =
     seqA (iteration deps key i mode) (\<lambda>r. case r of
       Inl out \<Rightarrow> okA out | Inr mode' \<Rightarrow> session_loop deps key is mode')"

definition run_session ::
  "'s worker_deps \<Rightarrow> owner_key \<Rightarrow> rebuild_mode \<Rightarrow> ('s, session_outcome) wact" where
  "run_session deps key starting_mode =
     session_loop deps key [1..<Suc MAX_ITERATIONS] starting_mode"

section \<open>The worker\<close>

text \<open>The look-up of the remaining raws at the cap: only the watermark's failure ends the worker.\<close>

definition count_remaining :: "owner_key \<Rightarrow> ('s, nat option) wact" where
  "count_remaining key =
     seqA (db_act (wikis_max_last_rebuilt_at (ok_scope key) (ok_owner key))) (\<lambda>wm.
     seqA (now_ms key) (\<lambda>now w.
       case db_act (raws_list_since (ok_scope key) (ok_owner key) wm now) w of
         (Inr rs, w') \<Rightarrow> (Inr (Some (length rs)), w')
       | (Inl _, w') \<Rightarrow> (Inr None, w')))"

definition decide ::
  "owner_key \<Rightarrow> session_outcome \<Rightarrow> loop_state \<Rightarrow> ('s, loop_state \<times> rebuild_mode option) wact" where
  "decide key out l =
     seqA (if out = DrainCapped \<and> consecutive_caps l + 1 \<ge> MAX_CONSECUTIVE_CAPS
           then count_remaining key else okA None)
       (\<lambda>remaining w. let (m, l', md) = after_session out remaining (g_slots w) key l
                      in (Inr (l', md), w\<lparr>g_slots := m\<rparr>))"

text \<open>\<open>None\<close>: the fuel, a number of sessions, ran out.\<close>

fun run_worker_fuel ::
  "nat \<Rightarrow> 's worker_deps \<Rightarrow> owner_key \<Rightarrow> rebuild_mode \<Rightarrow> loop_state \<Rightarrow> 's world
     \<Rightarrow> ((coordinator_error + unit) \<times> 's world) option" where
  "run_worker_fuel 0 deps key mode l w = None"
| "run_worker_fuel (Suc n) deps key mode l w =
     (case seqA (run_session deps key mode) (\<lambda>out. decide key out l) w of
        (Inl e, w') \<Rightarrow> Some (Inl e, w')
      | (Inr (l', None), w') \<Rightarrow> Some (Inr (), w')
      | (Inr (l', Some md), w') \<Rightarrow> run_worker_fuel n deps key md l' w')"

definition worker_fuel :: "'s world \<Rightarrow> nat" where
  "worker_fuel w = 16 * (length (g_events w) + 1)"

definition run_worker ::
  "'s worker_deps \<Rightarrow> owner_key \<Rightarrow> rebuild_mode \<Rightarrow> 's world \<Rightarrow> ((coordinator_error + unit) \<times> 's world) option" where
  "run_worker deps key initial_mode w = run_worker_fuel (worker_fuel w) deps key initial_mode loop_init w"

section \<open>What one concept's task changes\<close>

text \<open>Everything but the wikis, the language model and the metrics stays.\<close>

definition other_tables :: "db \<Rightarrow> schema_row list \<times> shared_memory list \<times> user list \<times> token_row list \<times> oauth_client list" where
  "other_tables d = (t_schemas d, t_shared d, t_users d, t_tokens d, t_clients d)"

lemma other_tables_simps [simp]:
  "other_tables (d\<lparr>t_wikis := ws\<rparr>) = other_tables d" "other_tables (d\<lparr>t_raws := rs\<rparr>) = other_tables d"
  "other_tables (d\<lparr>faults := fs\<rparr>) = other_tables d"
  by (simp_all add: other_tables_def)

definition steady :: "'s world \<Rightarrow> 's world \<Rightarrow> bool" where
  "steady w w' \<longleftrightarrow> t_raws (g_db w') = t_raws (g_db w) \<and> other_tables (g_db w') = other_tables (g_db w) \<and> g_slots w' = g_slots w
     \<and> g_events w' = g_events w \<and> g_now w' = g_now w"

lemma steady_refl [simp]: "steady w w"
  by (simp add: steady_def)

lemma steady_trans: "steady a b \<Longrightarrow> steady b c \<Longrightarrow> steady a c"
  by (simp add: steady_def)

lemma db_act_eq: "db_act f w = (map_sum CStorage id (fst (f (g_db w))), w\<lparr>g_db := snd (f (g_db w))\<rparr>)"
  by (auto simp: db_act_def split: prod.splits sum.splits)

lemma llm_act_eq: "llm_act f w = (map_sum CLlm id (fst (f (g_llm w))), w\<lparr>g_llm := snd (f (g_llm w))\<rparr>)"
  by (auto simp: llm_act_def split: prod.splits sum.splits)

lemma db_act_read:
  "read_only f \<Longrightarrow> db_act f w = (r, w') \<Longrightarrow>
     steady w w' \<and> t_wikis (g_db w') = t_wikis (g_db w) \<and> g_metrics w' = g_metrics w \<and> g_llm w' = g_llm w"
  using same_tablesD [of "g_db w" "snd (f (g_db w))"]
  by (auto simp: db_act_eq read_only_def steady_def other_tables_def)

lemma read_only_case_option [intro]:
  "read_only a \<Longrightarrow> (\<And>x. read_only (f x)) \<Longrightarrow> read_only (case v of None \<Rightarrow> a | Some x \<Rightarrow> f x)"
  by (cases v) simp_all

lemma read_only_add_refs [simp]: "read_only (add_refs refs out)"
proof (induction refs arbitrary: out)
  case (Cons i refs)
  then show ?case by (auto simp: Let_def intro!: read_only_seqA read_only_case_option)
qed auto

lemma read_only_build [simp]: "read_only (build fts sc ow c refs new)"
  unfolding build_def
  by (rule read_only_seqA) (auto simp: Let_def split: prod.splits intro: read_only_seqA)

lemma db_act_Inr: "db_act f w = (Inr x, w') \<longleftrightarrow> (\<exists>d. f (g_db w) = (Inr x, d) \<and> w' = w\<lparr>g_db := d\<rparr>)"
  by (auto simp: db_act_def split: prod.splits sum.splits)

text \<open>The wikis a successful task leaves: one entry of this owner, with references it was shown.\<close>

definition wrote :: "'s worker_deps \<Rightarrow> owner_key \<Rightarrow> string \<Rightarrow> raw list \<Rightarrow> int \<Rightarrow> 's world \<Rightarrow> wiki list \<Rightarrow> bool" where
  "wrote deps key c new t w ws \<longleftrightarrow> (\<exists>wk inputs refs content d0 d1.
     wikis_get (ok_scope key) (ok_owner key) c (g_db w) = (Inr wk, d0)
     \<and> build (cf_fts deps) (ok_scope key) (ok_owner key) c (stored_refs (cf_texts deps) wk) new d0 = (Inr inputs, d1)
     \<and> set refs \<subseteq> r_id ` set inputs
     \<and> ws = wiki_put (ok_scope key) (ok_owner key) c content
              (ser (cf_texts deps) (JArr (map JStr refs))) t (t_wikis (g_db w)))"

lemma synthesize_one_effect:
  fixes deps :: "'s worker_deps"
  assumes "synthesize_one deps key c new t w = (r, w')"
  shows "steady w w' \<and> (t_wikis (g_db w') = t_wikis (g_db w) \<or> r = Inr () \<and> wrote deps key c new t w (t_wikis (g_db w')))"
proof -
  let ?get = "db_act (wikis_get (ok_scope key) (ok_owner key) c)"
  obtain r1 w1 where g: "?get w = (r1, w1)" by fastforce
  note f1 = db_act_read [OF _ g, simplified]
  show ?thesis
  proof (cases r1)
    case (Inl e)
    with assms g f1 show ?thesis by (auto simp: synthesize_one_def)
  next
    case 1: (Inr wk)
    let ?b = "db_act (build (cf_fts deps) (ok_scope key) (ok_owner key) c (stored_refs (cf_texts deps) wk) new)"
    obtain r2 w2 where b: "?b w1 = (r2, w2)" by fastforce
    note f2 = db_act_read [OF _ b, simplified]
    show ?thesis
    proof (cases r2)
      case (Inl e)
      with assms g 1 b f1 f2 show ?thesis
        by (auto simp: synthesize_one_def Let_def intro: steady_trans)
    next
      case 2: (Inr inputs)
      let ?l = "llm_act (\<lambda>s. synthesize (cf_texts deps) (cf_client deps) (cf_model_synth deps) s
             \<lparr>si_concept = c, si_existing_wiki = map_option w_content wk,
              si_raws = map (\<lambda>r. (r_id r, r_title r, r_content r)) inputs\<rparr>) :: ('s, wiki_synth) wact"
      obtain r3 w3 where l: "?l w2 = (r3, w3)" by fastforce
      then have f3: "g_db w3 = g_db w2" "steady w2 w3" by (auto simp: llm_act_eq steady_def)
      show ?thesis
      proof (cases r3)
        case (Inl e)
        with assms g 1 b 2 l f1 f2 f3 show ?thesis
          by (auto simp: synthesize_one_def Let_def intro: steady_trans)
      next
        case 3: (Inr result)
        let ?refs = "filter (\<lambda>i. i \<in> r_id ` set inputs) (ws_source_refs result)"
        let ?u = "wikis_upsert (ok_scope key) (ok_owner key) c (ws_content result)
             (ser (cf_texts deps) (JArr (map JStr ?refs))) t"
        from assms g 1 b 2 l 3 have u: "db_act ?u w3 = (r, w')"
          by (simp add: synthesize_one_def Let_def)
        from g 1 b 2 obtain d0 d1 where gb: "wikis_get (ok_scope key) (ok_owner key) c (g_db w) = (Inr wk, d0)"
            "build (cf_fts deps) (ok_scope key) (ok_owner key) c (stored_refs (cf_texts deps) wk) new d0 = (Inr inputs, d1)"
          by (auto simp: db_act_Inr)
        have ss: "steady w w3" using f1 f2 f3 by (blast intro: steady_trans)
        have tw: "t_wikis (g_db w3) = t_wikis (g_db w)" using f1 f2 f3 by simp
        have "set ?refs \<subseteq> r_id ` set inputs" by auto
        with gb have wr: "wrote deps key c new t w (wiki_put (ok_scope key) (ok_owner key) c (ws_content result)
             (ser (cf_texts deps) (JArr (map JStr ?refs))) t (t_wikis (g_db w)))"
          unfolding wrote_def by blast
        show ?thesis
          using u ss tw wr
          by (cases rule: stmt_cases [of "g_db w3" "\<lambda>d. (Inr (), d\<lparr>t_wikis := wiki_put (ok_scope key) (ok_owner key) c
               (ws_content result) (ser (cf_texts deps) (JArr (map JStr ?refs))) t (t_wikis d)\<rparr>)"])
            (auto simp: db_act_eq wikis_upsert_def steady_def)
      qed
    qed
  qed
qed

section \<open>What a session changes\<close>

definition quiet :: "('s, 'a) wact \<Rightarrow> bool" where
  "quiet m \<longleftrightarrow> (\<forall>w. steady w (snd (m w)) \<and> t_wikis (g_db (snd (m w))) = t_wikis (g_db w))"

lemma quietD: "quiet m \<Longrightarrow> m w = (r, w') \<Longrightarrow> steady w w' \<and> t_wikis (g_db w') = t_wikis (g_db w)"
  by (metis quiet_def snd_conv)

lemma quiet_db_act [intro, simp]: "read_only f \<Longrightarrow> quiet (db_act f)"
  unfolding quiet_def by (metis db_act_read prod.collapse)

lemma quiet_llm_act [intro, simp]: "quiet (llm_act f)"
  by (simp add: quiet_def llm_act_eq steady_def)

lemma quiet_metric [intro, simp]: "quiet (metric f)" "quiet (observe_drain n)"
  by (simp_all add: quiet_def metric_def observe_drain_def steady_def)

lemma quiet_okA [intro, simp]: "quiet (okA x)"
  by (simp add: quiet_def)

lemma quiet_seqA [intro]:
  assumes "quiet m" "\<And>x. quiet (f x)"
  shows "quiet (seqA m f)"
  unfolding quiet_def
proof
  fix w
  obtain r w1 where m: "m w = (r, w1)" by fastforce
  note q1 = quietD [OF assms(1) m]
  show "steady w (snd (seqA m f w)) \<and> t_wikis (g_db (snd (seqA m f w))) = t_wikis (g_db w)"
  proof (cases r)
    case (Inr x)
    obtain r2 w2 where f: "f x w1 = (r2, w2)" by fastforce
    with m Inr q1 quietD [OF assms(2) f] show ?thesis by (auto intro: steady_trans)
  qed (use m q1 in simp)
qed

lemma quiet_extract_act [simp]: "quiet (extract_act deps new existing)"
  by (auto simp: quiet_def extract_act_def llm_act_eq steady_def split: prod.splits sum.splits)

lemma quiet_choose [simp]: "quiet (choose_concepts deps key mode new existing)"
  unfolding choose_concepts_def
  by (auto split: rebuild_mode.splits option.splits intro!: quiet_seqA)

text \<open>What the choice of concepts allows.\<close>

definition allowed :: "rebuild_mode \<Rightarrow> raw list \<Rightarrow> string list \<Rightarrow> string list \<Rightarrow> bool" where
  "allowed mode new existing affected \<longleftrightarrow> (case mode of
       Append \<Rightarrow> new \<noteq> [] \<and> (\<exists>a. affected = affected_of existing (int (length existing)) a)
     | Manual (Some c) \<Rightarrow> affected = [c] \<and> (c \<in> set existing \<or> int (length existing) < CONCEPT_LIMIT_PER_OWNER)
     | Manual None \<Rightarrow> affected = existing)"

definition concepts :: "owner_key \<Rightarrow> 's world \<Rightarrow> string list" where
  "concepts key w = owner_concepts (ok_scope key) (ok_owner key) (t_wikis (g_db w))"

lemma count_concepts_Inr:
  assumes "db_act (wikis_count_concepts (ok_scope key) (ok_owner key)) w = (Inr n, w')"
  shows "n = int (length (concepts key w))"
  using assms
  by (auto simp: db_act_Inr wikis_count_concepts_def concepts_def owner_concepts_wikis [symmetric]
      owner_wikis_def elim!: query_Inr)

lemma choose_allowed:
  assumes "choose_concepts deps key mode new existing w = (Inr (Rebuild affected), w')"
    and "length existing = length (concepts key w)"
  shows "allowed mode new existing affected"
proof (cases mode)
  case Append
  with assms(1) obtain a w1 n w2 where e: "extract_act deps new existing w = (Inr a, w1)"
    and c: "db_act (wikis_count_concepts (ok_scope key) (ok_owner key)) w1 = (Inr n, w2)"
    and aff: "affected = affected_of existing n a" and ne: "new \<noteq> []"
    by (auto simp: choose_concepts_def seqA_Inr_iff split: if_splits)
  from quietD [OF quiet_extract_act e] have "concepts key w1 = concepts key w" by (simp add: concepts_def)
  with count_concepts_Inr [OF c] assms(2) aff ne Append show ?thesis by (auto simp: allowed_def)
next
  case (Manual q)
  with assms show ?thesis
    by (cases q) (auto simp: choose_concepts_def allowed_def seqA_Inr_iff dest!: count_concepts_Inr split: if_splits)
qed

lemma now_ms_wikis: "now_ms key w = (r, w') \<Longrightarrow> t_wikis (g_db w') = t_wikis (g_db w) \<and> (\<exists>t. r = Inr t)"
  by (auto simp: now_ms_def split: list.splits)

lemma quiet_seqA_step:
  assumes "quiet m" "seqA m f w = (r, w')"
  obtains (stop) e where "r = Inl e" "steady w w'" "t_wikis (g_db w') = t_wikis (g_db w)"
    | (go) x w1 where "m w = (Inr x, w1)" "f x w1 = (r, w')" "steady w w1" "t_wikis (g_db w1) = t_wikis (g_db w)"
proof -
  obtain r1 w1 where m: "m w = (r1, w1)" by fastforce
  note q = quietD [OF assms(1) m]
  show ?thesis
    using assms(2) m q stop go by (cases r1) auto
qed

lemma list_concepts_Inr:
  assumes "db_act (wikis_list_concepts (ok_scope key) (ok_owner key)) w = (Inr xs, w')"
  shows "xs = sort (concepts key w)"
  using assms by (auto simp: db_act_Inr wikis_list_concepts_def concepts_def owner_concepts_wikis [symmetric]
      owner_wikis_def elim!: query_Inr)

text \<open>The states an iteration passes: after the clock, after the choice, after the tasks.\<close>

lemma iteration_effect:
  assumes "iteration deps key i mode w = (r, w')"
  obtains (none) "steady (snd (now_ms key w)) w'" "t_wikis (g_db w') = t_wikis (g_db w)"
      "\<And>x. r = Inr x \<Longrightarrow> x = Inl Done \<or> x = Inr Append"
  | (tasks) started new affected w2 where
      "fst (now_ms key w) = Inr started" "steady (snd (now_ms key w)) w2"
      "t_wikis (g_db w2) = t_wikis (g_db w)"
      "new = raws_between (ok_scope key) (ok_owner key) (watermark (ok_scope key) (ok_owner key) (g_db w)) started
               (g_db (snd (now_ms key w)))"
      "allowed mode new (sort (concepts key w)) affected" "affected \<noteq> []"
      "steady (fold (concept_task deps key new started) (cf_order deps affected) w2) w'"
      "t_wikis (g_db w') = t_wikis (g_db (fold (concept_task deps key new started) (cf_order deps affected) w2))"
      "r = Inr (if i = MAX_ITERATIONS then Inl DrainCapped else Inr Append)"
proof -
  obtain started wa where n: "now_ms key w = (Inr started, wa)"
    using now_ms_wikis [of key w] by (metis surj_pair)
  then have ta: "t_wikis (g_db wa) = t_wikis (g_db w)" using now_ms_wikis by blast
  let ?sc = "ok_scope key" and ?ow = "ok_owner key"
  from assms n have s1: "seqA (db_act (wikis_max_last_rebuilt_at ?sc ?ow)) (\<lambda>wm.
     seqA (db_act (raws_list_since ?sc ?ow wm started)) (\<lambda>new_raws.
     seqA (db_act (wikis_list_concepts ?sc ?ow)) (\<lambda>existing.
     seqA (choose_concepts deps key mode new_raws existing) (\<lambda>p.
     case p of
       Finish \<Rightarrow> seqA (observe_drain i) (\<lambda>_. okA (Inl Done))
     | Skip \<Rightarrow> okA (Inr Append)
     | Rebuild affected \<Rightarrow>
         if affected = [] then seqA (observe_drain i) (\<lambda>_. okA (Inl Done))
         else seqA (synthesize_concepts deps key affected new_raws started) (\<lambda>_.
              if i = MAX_ITERATIONS
              then seqA (metric (\<lambda>m. m\<lparr>m_rebuild_drain_capped := m_rebuild_drain_capped m + 1\<rparr>))
                     (\<lambda>_. seqA (observe_drain i) (\<lambda>_. okA (Inl DrainCapped)))
              else okA (Inr Append)))))) wa = (r, w')"
    by (simp add: iteration_def)
  from quiet_db_act [OF read_only_stmts(5)] s1 show ?thesis
  proof (cases rule: quiet_seqA_step)
    case (go wm w1)
    then have wm: "wm = watermark ?sc ?ow (g_db w)"
      using ta by (auto simp: db_act_Inr wikis_max_last_rebuilt_at_def watermark_def owner_wikis_def elim!: query_Inr)
    from quiet_db_act [OF read_only_stmts(2)] go(2) show ?thesis
    proof (cases rule: quiet_seqA_step)
      case go2: (go new w2)
      then have new: "new = raws_between ?sc ?ow wm started (g_db wa)"
        using go(3) by (auto simp: db_act_Inr raws_list_since_def raws_between_def steady_def elim!: query_Inr)
      from quiet_db_act [OF read_only_stmts(4)] go2(2) show ?thesis
      proof (cases rule: quiet_seqA_step)
        case go3: (go existing w3)
        have ex: "existing = sort (concepts key w)"
          using list_concepts_Inr [OF go3(1)] go go2 ta by (simp add: concepts_def)
        have same3: "concepts key w3 = concepts key w" using go go2 go3 ta by (simp add: concepts_def)
        from quiet_choose go3(2) show ?thesis
        proof (cases rule: quiet_seqA_step)
          case go4: (go p w4)
          have st: "steady wa w4" "t_wikis (g_db w4) = t_wikis (g_db w)"
            using go go2 go3 go4 ta by (auto intro: steady_trans)
          note quiet_obs = quietD [OF quiet_metric(2) [of i]] quietD [OF quiet_metric(1)]
          show ?thesis
          proof (cases p)
            case (Rebuild affected)
            have al: "allowed mode new existing affected"
              using choose_allowed [of deps key mode new existing w3 affected w4] go4(1) Rebuild ex same3 by simp
            show ?thesis
            proof (cases "affected = []")
              case True
              with go4(2) Rebuild st n show ?thesis
                by (intro none) (auto simp: observe_drain_def metric_def seqA_def steady_def)
            next
              case False
              with go4(2) Rebuild st n al wm new ex show ?thesis
                by (intro tasks [of started w4 new affected])
                  (auto simp: synthesize_concepts_def observe_drain_def metric_def seqA_def steady_def split: if_splits)
            qed
          qed (use go4(2) st n in \<open>auto intro!: none simp: observe_drain_def metric_def seqA_def steady_def\<close>)
        qed (use go go2 go3 ta n in \<open>auto intro!: none simp: steady_def\<close>)
      qed (use go go2 ta n in \<open>auto intro!: none simp: steady_def\<close>)
    qed (use go ta n in \<open>auto intro!: none simp: steady_def\<close>)
  qed (use ta n in \<open>auto intro!: none\<close>)
qed

section \<open>The invariant of a worker\<close>

lemma concept_task_effect:
  "steady w (concept_task deps key new t c w) \<and>
   (t_wikis (g_db (concept_task deps key new t c w)) = t_wikis (g_db w)
    \<or> wrote deps key c new t w (t_wikis (g_db (concept_task deps key new t c w))))"
proof -
  obtain r w' where s: "synthesize_one deps key c new t w = (r, w')" by fastforce
  from synthesize_one_effect [OF s] s show ?thesis
    by (cases r) (auto simp: concept_task_def steady_def)
qed

lemma wrote_concepts:
  "wrote deps key c new t w ws \<Longrightarrow>
     owner_concepts (ok_scope key) (ok_owner key) ws
       = (if c \<in> set (concepts key w) then concepts key w else concepts key w @ [c])
     \<and> others (ok_scope key) (ok_owner key) ws = others (ok_scope key) (ok_owner key) (t_wikis (g_db w))"
  by (auto simp: wrote_def owner_concepts_put others_put concepts_def)

definition strangers :: "owner_key \<Rightarrow> 's world \<Rightarrow> wiki list" where
  "strangers key w = others (ok_scope key) (ok_owner key) (t_wikis (g_db w))"

lemma concept_task_concepts:
  "concepts key (concept_task deps key new t c w) \<in> {concepts key w, concepts key w @ [c]}
   \<and> (c \<in> set (concepts key w) \<longrightarrow> concepts key (concept_task deps key new t c w) = concepts key w)
   \<and> strangers key (concept_task deps key new t c w) = strangers key w"
  using concept_task_effect [of w deps key new t c] wrote_concepts [of deps key c new t w]
  by (auto simp: concepts_def strangers_def split: if_splits)

lemma fold_tasks:
  assumes "distinct (concepts key w)"
  shows "distinct (concepts key (fold (concept_task deps key new t) cs w))
    \<and> set (concepts key (fold (concept_task deps key new t) cs w)) \<subseteq> set (concepts key w) \<union> set cs
    \<and> strangers key (fold (concept_task deps key new t) cs w) = strangers key w
    \<and> steady w (fold (concept_task deps key new t) cs w)"
  using assms
proof (induction cs arbitrary: w)
  case (Cons c cs)
  let ?w = "concept_task deps key new t c w"
  have d: "distinct (concepts key ?w)" "set (concepts key ?w) \<subseteq> insert c (set (concepts key w))"
    using concept_task_concepts [of key deps new t c w] Cons.prems by auto
  from Cons.IH [OF d(1)] d(2) concept_task_concepts [of key deps new t c w] concept_task_effect [of w deps key new t c]
  show ?case by (auto intro: steady_trans)
qed simp

lemma affected_of_new:
  "\<exists>ns. set (affected_of existing n a) \<subseteq> set existing \<union> set ns
        \<and> length ns \<le> nat (max (CONCEPT_LIMIT_PER_OWNER - n) 0) \<and> (\<forall>c \<in> set ns. is_valid c)"
  by (rule exI [of _ "take (nat (max (CONCEPT_LIMIT_PER_OWNER - n) 0)) (filter is_valid (new_concepts a))"])
    (auto simp: affected_of_def btree_set_def Let_def dest!: in_set_takeD)

definition mode_ok :: "rebuild_mode \<Rightarrow> bool" where
  "mode_ok md \<longleftrightarrow> (\<forall>c. md = Manual (Some c) \<longrightarrow> is_valid c)"

lemma mode_ok_simps [simp]: "mode_ok Append" "mode_ok (Manual None)" "mode_ok (Manual (Some c)) = is_valid c"
  by (simp_all add: mode_ok_def)

lemma allowed_budget:
  assumes "allowed mode new existing affected" "mode_ok mode" "distinct existing"
  shows "\<exists>ns. set affected \<subseteq> set existing \<union> set ns \<and> (\<forall>c \<in> set ns. is_valid c)
           \<and> length existing + length ns \<le> max (length existing) 200"
proof (cases mode)
  case Append
  with assms(1) obtain a where "affected = affected_of existing (int (length existing)) a"
    by (auto simp: allowed_def)
  with affected_of_new [of existing "int (length existing)" a] show ?thesis
    by (auto simp: CONCEPT_LIMIT_PER_OWNER_def)
next
  case (Manual q)
  with assms show ?thesis
    by (cases q)
      (auto simp: allowed_def CONCEPT_LIMIT_PER_OWNER_def intro: exI [of _ "[]"] exI [of _ "[the q]"])
qed

text \<open>
  \<open>N\<close> bounds the number of wikis, \<open>C\<close> are the names that were there, \<open>O\<close> the other owners' rows.
\<close>

definition worker_inv :: "owner_key \<Rightarrow> nat \<Rightarrow> string set \<Rightarrow> wiki list \<Rightarrow> 's world \<Rightarrow> bool" where
  "worker_inv key N C rest w \<longleftrightarrow>
     distinct (concepts key w) \<and> length (concepts key w) \<le> N \<and> set (concepts key w) \<subseteq> C \<union> Collect is_valid
     \<and> strangers key w = rest
     \<and> (\<forall>md. pending (g_slots w) key = Some md \<longrightarrow> mode_ok md)
     \<and> (\<forall>e \<in> set (g_events w). \<forall>md \<in> set (ev_requests e). mode_ok md)"

lemma pending_requests:
  assumes "\<forall>md \<in> set ms. mode_ok md" "\<forall>md. pending m k = Some md \<longrightarrow> mode_ok md"
  shows "\<forall>md. pending (requests k ms m) k = Some md \<longrightarrow> mode_ok md"
  using assms
proof (induction ms arbitrary: m)
  case (Cons x ms)
  have "\<forall>md. pending (fst (try_start m k x)) k = Some md \<longrightarrow> mode_ok md"
    using Cons.prems by (auto simp: slot_defs merge_pending_eq split: rebuild_mode.splits if_splits)
  with Cons show ?case by (simp add: requests_def)
qed (simp add: requests_def)

lemma inv_now: "worker_inv key N C rest w \<Longrightarrow> worker_inv key N C rest (snd (now_ms key w))"
  using pending_requests [of _ "g_slots w" key]
  by (auto simp: worker_inv_def now_ms_def concepts_def strangers_def split: list.splits)

lemma inv_steady:
  "worker_inv key N C rest w \<Longrightarrow> steady w w' \<Longrightarrow> t_wikis (g_db w') = t_wikis (g_db w) \<Longrightarrow> worker_inv key N C rest w'"
  by (simp add: worker_inv_def steady_def concepts_def strangers_def)

lemma inv_iteration:
  assumes i: "iteration deps key i mode w = (r, w')" and I: "worker_inv key N C rest w"
    and mo: "mode_ok mode" and N: "200 \<le> N" and ord: "\<And>xs. set (cf_order deps xs) \<subseteq> set xs"
  shows "worker_inv key N C rest w' \<and> (\<forall>md. r = Inr (Inr md) \<longrightarrow> mode_ok md)"
  using i
proof (cases rule: iteration_effect)
  case none
  have "t_wikis (g_db (snd (now_ms key w))) = t_wikis (g_db w)"
    using now_ms_wikis [of key w] by (metis prod.collapse)
  with none inv_steady [OF inv_now [OF I]] show ?thesis by fastforce
next
  case (tasks started new affected w2)
  have "t_wikis (g_db (snd (now_ms key w))) = t_wikis (g_db w)"
    using now_ms_wikis [of key w] by (metis prod.collapse)
  with tasks inv_steady [OF inv_now [OF I]] have I2: "worker_inv key N C rest w2" by simp
  have c2: "concepts key w2 = concepts key w" using tasks by (simp add: concepts_def)
  have dist: "distinct (concepts key w2)" using I2 by (simp add: worker_inv_def)
  let ?w3 = "fold (concept_task deps key new started) (cf_order deps affected) w2"
  note f = fold_tasks [OF dist, of deps new started "cf_order deps affected"]
  obtain ns where ns: "set affected \<subseteq> set (concepts key w2) \<union> set ns" "\<forall>c \<in> set ns. is_valid c"
      "length (concepts key w2) + length ns \<le> max (length (concepts key w2)) 200"
    using allowed_budget [OF tasks(5) mo] dist c2 by auto
  have sub: "set (concepts key ?w3) \<subseteq> set (concepts key w2 @ ns)"
    using f ord [of affected] ns(1) by auto
  have "length (concepts key ?w3) = card (set (concepts key ?w3))"
    using f by (simp add: distinct_card)
  also have "\<dots> \<le> card (set (concepts key w2 @ ns))" by (rule card_mono [OF _ sub]) simp
  also have "\<dots> \<le> length (concepts key w2 @ ns)" by (rule card_length)
  also have "\<dots> \<le> N" using ns(3) I2 N unfolding worker_inv_def by (simp only: length_append) linarith
  finally have "length (concepts key ?w3) \<le> N" .
  moreover have "set (concepts key ?w3) \<subseteq> C \<union> Collect is_valid"
    using sub ns(2) I2 by (auto simp: worker_inv_def)
  ultimately have "worker_inv key N C rest ?w3"
    using I2 f by (simp add: worker_inv_def steady_def)
  from inv_steady [OF this tasks(7,8)] tasks(9) show ?thesis by (auto split: if_splits)
qed

lemma inv_session_loop:
  assumes "session_loop deps key iters mode w = (r, w')" "worker_inv key N C rest w" "mode_ok mode"
    and "200 \<le> N" "\<And>xs. set (cf_order deps xs) \<subseteq> set xs"
  shows "worker_inv key N C rest w'"
  using assms(1-3)
proof (induction iters arbitrary: mode w)
  case (Cons i iters)
  obtain r1 w1 where i: "iteration deps key i mode w = (r1, w1)" by fastforce
  note I1 = inv_iteration [OF i Cons.prems(2,3) assms(4,5)]
  show ?case
  proof (cases r1)
    case (Inr x)
    with Cons i I1 show ?thesis by (cases x) auto
  qed (use Cons.prems i I1 in auto)
qed auto

lemma inv_decide:
  assumes "decide key out l w = (r, w')" "worker_inv key N C rest w"
  shows "worker_inv key N C rest w' \<and> (\<forall>l' md. r = Inr (l', Some md) \<longrightarrow> mode_ok md)"
proof -
  have cr: "worker_inv key N C rest (snd (count_remaining key w))"
  proof -
    obtain r1 w1 where m: "db_act (wikis_max_last_rebuilt_at (ok_scope key) (ok_owner key)) w = (r1, w1)" by fastforce
    note i1 = inv_steady [OF assms(2)] quietD [OF quiet_db_act [OF read_only_stmts(5)] m]
    show ?thesis
    proof (cases r1)
      case (Inr wm)
      obtain t w2 where n: "now_ms key w1 = (Inr t, w2)" using now_ms_wikis [of key w1] by (metis surj_pair)
      have i2: "worker_inv key N C rest w2" using inv_now [of key N C rest w1] i1 n by simp
      obtain r3 w3 where l: "db_act (raws_list_since (ok_scope key) (ok_owner key) wm t) w2 = (r3, w3)" by fastforce
      have "worker_inv key N C rest w3"
        using inv_steady [OF i2] quietD [OF quiet_db_act [OF read_only_stmts(2)] l] by blast
      then show ?thesis using m Inr n l by (cases r3) (auto simp: count_remaining_def)
    qed (use m i1 in \<open>simp add: count_remaining_def\<close>)
  qed
  let ?m = "if out = DrainCapped \<and> consecutive_caps l + 1 \<ge> MAX_CONSECUTIVE_CAPS
           then count_remaining key else okA None"
  obtain r1 w1 where m: "?m w = (r1, w1)" by fastforce
  with cr assms(2) have I1: "worker_inv key N C rest w1" by (auto split: if_splits)
  show ?thesis
  proof (cases r1)
    case (Inr rem)
    obtain sl l' md where a: "after_session out rem (g_slots w1) key l = (sl, l', md)"
      by (metis surj_pair)
    with assms(1) m Inr have rw: "r = Inr (l', md)" "w' = w1\<lparr>g_slots := sl\<rparr>"
      by (auto simp: decide_def)
    from a have "(\<forall>x. pending sl key = Some x \<longrightarrow> mode_ok x) \<and> (\<forall>x. md = Some x \<longrightarrow> mode_ok x)"
    proof (cases rule: after_session_cases)
      case 2
      then show ?thesis
        using I1 by (auto simp: worker_inv_def slot_defs split: if_splits option.splits)
    qed (use I1 in \<open>auto simp: worker_inv_def\<close>)
    with rw I1 show ?thesis by (simp add: worker_inv_def concepts_def strangers_def)
  qed (use assms(1) m I1 in \<open>auto simp: decide_def\<close>)
qed

lemma inv_worker_fuel:
  assumes "run_worker_fuel n deps key mode l w = Some (r, w')" "worker_inv key N C rest w" "mode_ok mode"
    and "200 \<le> N" "\<And>xs. set (cf_order deps xs) \<subseteq> set xs"
  shows "worker_inv key N C rest w'"
  using assms(1-3)
proof (induction n arbitrary: mode l w)
  case (Suc n)
  obtain r1 w1 where s: "run_session deps key mode w = (r1, w1)" by fastforce
  have I1: "worker_inv key N C rest w1"
    using inv_session_loop [OF _ Suc.prems(2,3) assms(4,5)] s by (simp add: run_session_def)
  show ?case
  proof (cases r1)
    case (Inr out)
    obtain r2 w2 where d: "decide key out l w1 = (r2, w2)" by fastforce
    note I2 = inv_decide [OF d I1]
    show ?thesis
    proof (cases r2)
      case 2: (Inr x)
      obtain l' md where x: "x = (l', md)" by fastforce
      show ?thesis
        using Suc.prems s Inr d 2 x I2 Suc.IH by (cases md) auto
    qed (use Suc.prems s Inr d I2 in auto)
  qed (use Suc.prems s I1 in auto)
qed simp

section \<open>The worker always returns\<close>

lemma fold_steady: "steady w (fold (concept_task deps key new t) cs w)"
proof (induction cs arbitrary: w)
  case (Cons c cs)
  from Cons.IH [of "concept_task deps key new t c w"] concept_task_effect [of w deps key new t c]
  show ?case by (auto intro: steady_trans)
qed simp

lemma iteration_steady:
  assumes "iteration deps key i mode w = (r, w')"
  shows "steady (snd (now_ms key w)) w'"
  using assms
proof (cases rule: iteration_effect)
  case (tasks started new affected w2)
  with fold_steady [of w2 deps key new started "cf_order deps affected"] show ?thesis
    by (blast intro: steady_trans)
qed

text \<open>Time passes: events are consumed, and the slots stay unless one was.\<close>

definition later :: "'s world \<Rightarrow> 's world \<Rightarrow> bool" where
  "later w w' \<longleftrightarrow> length (g_events w') \<le> length (g_events w)
     \<and> (length (g_events w') = length (g_events w) \<longrightarrow> g_slots w' = g_slots w)"

lemma later_trans: "later a b \<Longrightarrow> later b c \<Longrightarrow> later a c"
  by (auto simp: later_def)

lemma later_now [simp]: "later w (snd (now_ms key w))"
  by (auto simp: later_def now_ms_def split: list.splits)

lemma later_steady: "steady w w' \<Longrightarrow> later w w'"
  by (simp add: later_def steady_def)

lemma later_iteration: "iteration deps key i mode w = (r, w') \<Longrightarrow> later w w'"
  using iteration_steady later_now later_steady later_trans by metis

lemma later_session_loop: "session_loop deps key iters mode w = (r, w') \<Longrightarrow> later w w'"
proof (induction iters arbitrary: mode w)
  case Nil
  then show ?case by (simp add: later_def)
next
  case (Cons i iters)
  obtain r1 w1 where i: "iteration deps key i mode w = (r1, w1)" by fastforce
  note l1 = later_iteration [OF i]
  show ?case
  proof (cases r1)
    case (Inr x)
    with Cons i l1 show ?thesis by (cases x) (auto intro: later_trans)
  qed (use Cons.prems i l1 in auto)
qed

lemma run_session_events:
  assumes "run_session deps key mode w = (r, w')"
  shows "later w w' \<and> (g_events w \<noteq> [] \<longrightarrow> length (g_events w') < length (g_events w))"
proof -
  have "[1..<Suc MAX_ITERATIONS] = 1 # [2..<Suc MAX_ITERATIONS]"
    by (simp add: MAX_ITERATIONS_def upt_conv_Cons)
  with assms have s: "session_loop deps key (1 # [2..<Suc MAX_ITERATIONS]) mode w = (r, w')"
    by (simp add: run_session_def)
  obtain r1 w1 where i: "iteration deps key 1 mode w = (r1, w1)" by fastforce
  from iteration_steady [OF i] have e: "g_events w \<noteq> [] \<longrightarrow> length (g_events w1) < length (g_events w)"
    by (auto simp: steady_def now_ms_def split: list.splits)
  have "later w1 w'"
  proof (cases r1)
    case (Inr x)
    with s i show ?thesis
      by (cases x) (auto dest: later_session_loop simp: later_def)
  qed (use s i in \<open>simp add: later_def\<close>)
  with e later_iteration [OF i] show ?thesis by (auto simp: later_def)
qed

definition owed_count :: "state_map \<Rightarrow> owner_key \<Rightarrow> nat" where
  "owed_count m k = (if missed m k then 1 else 0) + (if pending m k = None then 0 else 1)"

definition rank :: "owner_key \<Rightarrow> loop_state \<Rightarrow> 's world \<Rightarrow> nat" where
  "rank key l w = 16 * length (g_events w)
     + 4 * (owed_count (g_slots w) key + (if remainder_drain_used l then 0 else 1))
     + (3 - consecutive_caps l)"

lemma rank_bound: "rank key l w < 16 * (length (g_events w) + 1)"
  using diff_le_self [of 3 "consecutive_caps l"] by (auto simp: rank_def owed_count_def)

lemma mark_owed:
  "mark_idle_or_continue m k = (m', Some md) \<Longrightarrow> owed_count m' k + 1 = owed_count m k"
  by (auto simp: owed_count_def slot_defs split: if_splits option.splits)

lemma after_session_rank:
  assumes "after_session out remaining m k l = (m', l', Some md)"
  shows "4 * (owed_count m' k + (if remainder_drain_used l' then 0 else 1)) + (3 - consecutive_caps l')
       < 4 * (owed_count m k + (if remainder_drain_used l then 0 else 1)) + (3 - consecutive_caps l)"
proof (cases out)
  case Done
  then obtain "mark_idle_or_continue m k = (m', Some md)" "l' = l\<lparr>consecutive_caps := 0\<rparr>"
    using assms by (auto split: prod.splits)
  with mark_owed [of m k m' md] show ?thesis by simp
next
  case DrainCapped
  show ?thesis
  proof (cases "consecutive_caps l + 1 \<ge> MAX_CONSECUTIVE_CAPS")
    case False
    with assms DrainCapped have "m' = m" "l' = l\<lparr>consecutive_caps := consecutive_caps l + 1\<rparr>"
      by (auto simp: Let_def)
    with False show ?thesis by (simp add: MAX_CONSECUTIVE_CAPS_def)
  next
    case True
    then show ?thesis
      using assms DrainCapped mark_owed [of m k m' md]
      by (auto simp: Let_def MAX_CONSECUTIVE_CAPS_def split: if_splits prod.splits)
  qed
qed

lemma count_remaining_later: "count_remaining key w = (r, w') \<Longrightarrow> later w w'"
proof -
  assume c: "count_remaining key w = (r, w')"
  obtain r1 w1 where m: "db_act (wikis_max_last_rebuilt_at (ok_scope key) (ok_owner key)) w = (r1, w1)" by fastforce
  note s1 = conjunct1 [OF quietD [OF quiet_db_act [OF read_only_stmts(5)] m]]
  show ?thesis
  proof (cases r1)
    case (Inr wm)
    obtain t w2 where n: "now_ms key w1 = (Inr t, w2)" using now_ms_wikis [of key w1] by (metis surj_pair)
    have l2: "later w1 w2" using later_now [of w1 key] n by simp
    obtain r3 w3 where l: "db_act (raws_list_since (ok_scope key) (ok_owner key) wm t) w2 = (r3, w3)" by fastforce
    note s3 = conjunct1 [OF quietD [OF quiet_db_act [OF read_only_stmts(2)] l]]
    have "w' = w3" using c m Inr n l by (cases r3) (auto simp: count_remaining_def)
    then show ?thesis using s1 l2 s3 later_steady later_trans by metis
  next
    case (Inl e)
    then show ?thesis using c m s1 by (auto simp: count_remaining_def intro: later_steady)
  qed
qed

lemma decide_rank:
  assumes "decide key out l w = (Inr (l', Some md), w')"
  shows "rank key l' w' < rank key l w \<or> length (g_events w') < length (g_events w)"
proof -
  let ?m = "if out = DrainCapped \<and> consecutive_caps l + 1 \<ge> MAX_CONSECUTIVE_CAPS
           then count_remaining key else okA None"
  obtain r1 w1 where m: "?m w = (r1, w1)" by fastforce
  then have lt: "later w w1"
    using count_remaining_later [of key w r1 w1] by (auto simp: later_def split: if_splits)
  from assms m obtain rem sl where r1: "r1 = Inr rem"
    and a: "after_session out rem (g_slots w1) key l = (sl, l', Some md)" and w': "w' = w1\<lparr>g_slots := sl\<rparr>"
    by (cases r1) (auto simp: decide_def split: prod.splits)
  show ?thesis
  proof (cases "length (g_events w1) < length (g_events w)")
    case False
    then have len: "length (g_events w1) = length (g_events w)" using lt by (simp add: later_def)
    have "g_slots w1 = g_slots w"
      using lt len by (simp add: later_def)
    with after_session_rank [OF a] w' len show ?thesis by (simp add: rank_def)
  qed (use w' in simp)
qed

lemma decide_later: "decide key out l w = (r, w') \<Longrightarrow> length (g_events w') \<le> length (g_events w)"
  by (auto simp: decide_def seqA_def later_def Let_def dest!: count_remaining_later
      split: if_splits prod.splits sum.splits)

lemma session_rank:
  assumes "run_session deps key mode w = (Inr out, w1)" "decide key out l w1 = (Inr (l', Some md), w2)"
  shows "rank key l' w2 < rank key l w"
proof (cases "length (g_events w2) < length (g_events w)")
  case True
  then have "16 * (length (g_events w2) + 1) \<le> 16 * length (g_events w)" by simp
  also have "\<dots> \<le> rank key l w" by (simp add: rank_def)
  finally show ?thesis using rank_bound [of key l' w2] by linarith
next
  case False
  from run_session_events [OF assms(1)] decide_later [OF assms(2)] False
  have "length (g_events w1) = length (g_events w)" "length (g_events w2) = length (g_events w1)" "later w w1"
    by (auto simp: later_def)
  moreover from this have "g_slots w1 = g_slots w" by (simp add: later_def)
  ultimately show ?thesis using decide_rank [OF assms(2)] by (simp add: rank_def)
qed

lemma run_worker_fuel_enough: "rank key l w < n \<Longrightarrow> run_worker_fuel n deps key mode l w \<noteq> None"
proof (induction n arbitrary: mode l w)
  case (Suc n)
  obtain r1 w1 where s: "run_session deps key mode w = (r1, w1)" by fastforce
  show ?case
  proof (cases r1)
    case (Inr out)
    obtain r2 w2 where d: "decide key out l w1 = (r2, w2)" by fastforce
    show ?thesis
    proof (cases r2)
      case 2: (Inr x)
      obtain l' md where x: "x = (l', md)" by fastforce
      show ?thesis
      proof (cases md)
        case (Some md')
        have "rank key l' w2 < n"
          using session_rank [of deps key mode w out w1 l l' md' w2] s Inr d 2 x Some Suc.prems by simp
        from Suc.IH [OF this] s Inr d 2 x Some show ?thesis by simp
      qed (use s Inr d 2 x in simp)
    qed (use s Inr d in simp)
  qed (use s in simp)
qed simp

lemma run_worker_fuel_more:
  "run_worker_fuel n deps key mode l w = Some r \<Longrightarrow> n \<le> m \<Longrightarrow> run_worker_fuel m deps key mode l w = Some r"
proof (induction n arbitrary: m mode l w)
  case (Suc n)
  then obtain m' where m: "m = Suc m'" "n \<le> m'" by (cases m) auto
  with Suc show ?case by (auto split: prod.splits sum.splits option.splits)
qed simp

section \<open>Properties\<close>

text \<open>
  C17. A rebuild worker always returns: for any language model, any database failures and any
  finite sequence of events it ends after at most 16 sessions per clock event plus 16, so a worker
  left alone needs no more than 16 sessions; more fuel does not change the result.
\<close>
theorem run_worker_returns:
  "\<exists>r w'. run_worker deps key mode w = Some (r, w')
     \<and> (\<forall>n \<ge> worker_fuel w. run_worker_fuel n deps key mode loop_init w = Some (r, w'))"
proof -
  have "run_worker deps key mode w \<noteq> None"
    unfolding run_worker_def worker_fuel_def by (rule run_worker_fuel_enough) (rule rank_bound)
  then obtain r w' where "run_worker deps key mode w = Some (r, w')" by auto
  then show ?thesis
    using run_worker_fuel_more [of "worker_fuel w" deps key mode loop_init w "(r, w')"]
    by (auto simp: run_worker_def)
qed

text \<open>
  C18. Whatever the language model answers, a worker keeps the owner's wikis within the limit of
  200 (or the number there were, if that was higher), with one wiki per concept; every name it
  adds is a valid concept name, provided the manual requests named valid ones; and it leaves every
  other owner's wikis exactly as they were.
\<close>
theorem worker_concept_budget:
  assumes "run_worker deps key mode w = Some (r, w')"
    and "distinct (concepts key w)" and "\<And>xs. set (cf_order deps xs) \<subseteq> set xs"
    and "mode_ok mode" "\<forall>md. pending (g_slots w) key = Some md \<longrightarrow> mode_ok md"
    and "\<forall>e \<in> set (g_events w). \<forall>md \<in> set (ev_requests e). mode_ok md"
  shows "length (concepts key w') \<le> max (length (concepts key w)) 200 \<and> distinct (concepts key w')
    \<and> (\<forall>c \<in> set (concepts key w') - set (concepts key w). is_valid c)
    \<and> strangers key w' = strangers key w"
proof -
  let ?N = "max (length (concepts key w)) 200"
  have "worker_inv key ?N (set (concepts key w)) (strangers key w) w"
    using assms by (auto simp: worker_inv_def)
  from inv_worker_fuel [OF assms(1) [unfolded run_worker_def] this assms(4) _ assms(3)]
  have "worker_inv key ?N (set (concepts key w)) (strangers key w) w'" by simp
  then show ?thesis by (auto simp: worker_inv_def)
qed

section \<open>The watermark\<close>

definition stamps :: "owner_key \<Rightarrow> wiki list \<Rightarrow> int list" where
  "stamps key ws = map w_last_rebuilt_at
     (filter (\<lambda>w. w_scope w = scope_as_str (ok_scope key) \<and> w_owner w = ok_owner key) ws)"

definition mark :: "owner_key \<Rightarrow> 's world \<Rightarrow> int" where
  "mark key w = watermark (ok_scope key) (ok_owner key) (g_db w)"

lemma mark_eq: "mark key w = (if stamps key (t_wikis (g_db w)) = [] then 0 else Max (set (stamps key (t_wikis (g_db w)))))"
  by (cases "stamps key (t_wikis (g_db w))")
    (simp_all add: mark_def watermark_def stamps_def owner_wikis_def Max.set_eq_fold [symmetric])

lemma mark_same: "t_wikis (g_db w') = t_wikis (g_db w) \<Longrightarrow> mark key w' = mark key w"
  by (simp add: mark_eq)

lemma stamps_put_set:
  "t \<in> set (stamps key (wiki_put (ok_scope key) (ok_owner key) c x r t ws))"
  "set (stamps key (wiki_put (ok_scope key) (ok_owner key) c x r t ws)) \<subseteq> insert t (set (stamps key ws))"
proof -
  show "set (stamps key (wiki_put (ok_scope key) (ok_owner key) c x r t ws)) \<subseteq> insert t (set (stamps key ws))"
    by (auto simp: stamps_def dest!: wiki_put_set)
  show "t \<in> set (stamps key (wiki_put (ok_scope key) (ok_owner key) c x r t ws))"
  proof (cases "\<exists>w \<in> set ws. wiki_at (ok_scope key) (ok_owner key) c w")
    case True
    then obtain w where w: "w \<in> set ws" "wiki_at (ok_scope key) (ok_owner key) c w" by blast
    let ?w = "w\<lparr>w_content := x, w_source_refs := r, w_last_rebuilt_at := t\<rparr>"
    have "?w \<in> set (wiki_put (ok_scope key) (ok_owner key) c x r t ws)"
      using w True by (auto simp: wiki_put_def)
    moreover have "w_scope ?w = scope_as_str (ok_scope key)" "w_owner ?w = ok_owner key" "w_last_rebuilt_at ?w = t"
      using w by (auto simp: wiki_at_def)
    ultimately show ?thesis unfolding stamps_def by force
  qed (simp add: wiki_put_def stamps_def)
qed

definition timely :: "owner_key \<Rightarrow> 's world \<Rightarrow> bool" where
  "timely key w \<longleftrightarrow> mark key w \<le> g_now w \<and> sorted (g_now w # map ev_time (g_events w))"

lemma mark_wrote:
  assumes "wrote deps key c new t w (t_wikis (g_db w'))" "mark key w \<le> t"
  shows "mark key w' = t"
proof -
  from assms(1) obtain x r where ws: "t_wikis (g_db w') = wiki_put (ok_scope key) (ok_owner key) c x r t (t_wikis (g_db w))"
    by (auto simp: wrote_def)
  let ?s' = "set (stamps key (t_wikis (g_db w')))"
  have t: "t \<in> ?s'" and sub: "?s' \<subseteq> insert t (set (stamps key (t_wikis (g_db w))))"
    unfolding ws by (rule stamps_put_set)+
  have "s \<le> t" if "s \<in> ?s'" for s
    using that sub assms(2) by (auto simp: mark_eq split: if_splits)
  then have "Max ?s' = t" using t by (intro Max_eqI) auto
  with t show ?thesis by (auto simp: mark_eq)
qed

lemma mark_task:
  assumes "mark key w \<le> t"
  shows "(t_wikis (g_db (concept_task deps key new t c w)) = t_wikis (g_db w)
          \<or> mark key (concept_task deps key new t c w) = t)
       \<and> mark key (concept_task deps key new t c w) \<in> {mark key w, t}"
  using concept_task_effect [of w deps key new t c]
    mark_wrote [of deps key c new t w "concept_task deps key new t c w", OF _ assms]
  by (auto dest: mark_same)

lemma mark_fold:
  "mark key w \<le> t \<Longrightarrow>
     (t_wikis (g_db (fold (concept_task deps key new t) cs w)) = t_wikis (g_db w)
      \<or> mark key (fold (concept_task deps key new t) cs w) = t)
   \<and> mark key (fold (concept_task deps key new t) cs w) \<in> {mark key w, t}"
proof (induction cs arbitrary: w)
  case (Cons c cs)
  let ?w = "concept_task deps key new t c w"
  from mark_task [OF Cons.prems, of deps new c] have "mark key ?w \<le> t" using Cons.prems by auto
  from Cons.IH [OF this] mark_task [OF Cons.prems, of deps new c] show ?case by auto
qed simp

lemma now_timely:
  assumes "timely key w" "now_ms key w = (Inr t, w1)"
  shows "timely key w1 \<and> mark key w1 = mark key w \<and> g_now w1 = t \<and> g_now w \<le> t"
proof -
  have m: "mark key w1 = mark key w" using now_ms_wikis [OF assms(2)] by (blast intro: mark_same)
  have "g_now w1 = t \<and> g_now w \<le> t \<and> sorted (g_now w1 # map ev_time (g_events w1))"
    using assms by (auto simp: timely_def now_ms_def split: list.splits)
  with m assms(1) show ?thesis by (auto simp: timely_def)
qed

lemma timely_steady:
  "timely key w \<Longrightarrow> steady w w' \<Longrightarrow> mark key w' \<le> g_now w \<Longrightarrow> timely key w'"
  by (simp add: timely_def steady_def)

lemma iteration_mark:
  assumes i: "iteration deps key i mode w = (r, w')" and T: "timely key w"
  shows "timely key w' \<and> mark key w \<le> mark key w'
     \<and> (t_wikis (g_db w') = t_wikis (g_db w) \<or> Inr (mark key w') = fst (now_ms key w))"
proof -
  obtain t w1 where n: "now_ms key w = (Inr t, w1)" using now_ms_wikis [of key w] by (metis surj_pair)
  note N = now_timely [OF T n]
  have s: "steady w1 w'" using iteration_steady [OF i] n by simp
  from i show ?thesis
  proof (cases rule: iteration_effect)
    case none
    then have m: "mark key w' = mark key w" by (blast intro: mark_same)
    then have "mark key w' \<le> g_now w1" using N T by (simp add: timely_def)
    then show ?thesis using N s none(2) m timely_steady [of key w1 w'] by simp
  next
    case (tasks started new affected w2)
    then have st: "started = t" using n by simp
    have m2: "mark key w2 = mark key w" by (rule mark_same [OF tasks(3)])
    have "mark key w2 \<le> t" using m2 N T by (simp add: timely_def)
    note F = mark_fold [OF this, of deps new "cf_order deps affected"]
    have "mark key w' = mark key (fold (concept_task deps key new t) (cf_order deps affected) w2)"
      unfolding st [symmetric] by (rule mark_same [OF tasks(8)])
    moreover have "t_wikis (g_db w') = t_wikis (g_db w) \<or> mark key w' = t" "mark key w' \<in> {mark key w, t}"
      using F calculation tasks(3,8) st m2 by auto
    moreover have "mark key w \<le> t" using N T by (simp add: timely_def)
    moreover from calculation have "mark key w' \<le> g_now w1" using N by auto
    ultimately show ?thesis using timely_steady [of key w1 w'] N s n by auto
  qed
qed

lemma session_mark:
  "session_loop deps key iters mode w = (r, w') \<Longrightarrow> timely key w \<Longrightarrow> timely key w' \<and> mark key w \<le> mark key w'"
proof (induction iters arbitrary: mode w)
  case (Cons i iters)
  obtain r1 w1 where i: "iteration deps key i mode w = (r1, w1)" by fastforce
  note I = iteration_mark [OF i Cons.prems(2)]
  show ?case
  proof (cases r1)
    case (Inr x)
    with Cons.prems(1) i I Cons.IH [of _ w1] show ?thesis by (cases x) fastforce+
  qed (use Cons.prems i I in auto)
qed auto

lemma timely_quiet: "quiet m \<Longrightarrow> m w = (r, w') \<Longrightarrow> timely key w \<Longrightarrow> timely key w' \<and> mark key w' = mark key w"
  using quietD [of m w r w'] by (auto simp: timely_def steady_def dest!: mark_same [where key = key])

lemma count_remaining_mark:
  assumes "count_remaining key w = (r, w')" "timely key w"
  shows "timely key w' \<and> mark key w' = mark key w"
proof -
  obtain r1 w1 where m: "db_act (wikis_max_last_rebuilt_at (ok_scope key) (ok_owner key)) w = (r1, w1)" by fastforce
  note t1 = timely_quiet [OF quiet_db_act [OF read_only_stmts(5)] m assms(2)]
  show ?thesis
  proof (cases r1)
    case (Inr wm)
    obtain t w2 where n: "now_ms key w1 = (Inr t, w2)" using now_ms_wikis [of key w1] by (metis surj_pair)
    note t2 = now_timely [OF conjunct1 [OF t1] n]
    obtain r3 w3 where l: "db_act (raws_list_since (ok_scope key) (ok_owner key) wm t) w2 = (r3, w3)" by fastforce
    note t3 = timely_quiet [OF quiet_db_act [OF read_only_stmts(2)] l conjunct1 [OF t2]]
    have "w' = w3" using assms(1) m Inr n l by (cases r3) (auto simp: count_remaining_def)
    with t1 t2 t3 show ?thesis by simp
  qed (use assms m t1 in \<open>auto simp: count_remaining_def\<close>)
qed

lemma decide_mark: "decide key out l w = (r, w') \<Longrightarrow> timely key w \<Longrightarrow> timely key w' \<and> mark key w' = mark key w"
proof -
  assume d: "decide key out l w = (r, w')" and T: "timely key w"
  let ?m = "if out = DrainCapped \<and> consecutive_caps l + 1 \<ge> MAX_CONSECUTIVE_CAPS
           then count_remaining key else okA None"
  obtain r1 w1 where m: "?m w = (r1, w1)" by fastforce
  have t1: "timely key w1 \<and> mark key w1 = mark key w"
    using m T count_remaining_mark [of key w r1 w1] by (auto split: if_splits)
  have "g_db w' = g_db w1 \<and> g_now w' = g_now w1 \<and> g_events w' = g_events w1"
    using d m by (cases r1) (auto simp: decide_def split: prod.splits)
  with t1 show ?thesis by (simp add: timely_def mark_def)
qed

lemma worker_mark:
  "run_worker_fuel n deps key mode l w = Some (r, w') \<Longrightarrow> timely key w \<Longrightarrow> timely key w' \<and> mark key w \<le> mark key w'"
proof (induction n arbitrary: mode l w)
  case (Suc n)
  obtain r1 w1 where s: "run_session deps key mode w = (r1, w1)" by fastforce
  note t1 = session_mark [OF s [unfolded run_session_def] Suc.prems(2)]
  show ?case
  proof (cases r1)
    case (Inr out)
    obtain r2 w2 where d: "decide key out l w1 = (r2, w2)" by fastforce
    note t2 = decide_mark [OF d conjunct1 [OF t1]]
    show ?thesis
    proof (cases r2)
      case 2: (Inr x)
      obtain l' md where x: "x = (l', md)" by fastforce
      show ?thesis
        using Suc.prems s Inr d 2 x t1 t2 Suc.IH [of _ l' w2] by (cases md) fastforce+
    qed (use Suc.prems s Inr d t1 t2 in auto)
  qed (use Suc.prems s t1 in auto)
qed simp

text \<open>
  C20. The watermark that decides which raws are new only moves forward, and never past the clock:
  a worker run leaves it at least where it was, given a clock that does not go back. So a raw
  that lies at or below the watermark before the run is listed as new at no time after it. (A raw
  above it can be: an iteration that writes no wiki leaves the watermark, and its raws, as they are.)
\<close>
theorem watermark_monotone:
  assumes "run_worker deps key mode w = Some (r, w')" and "timely key w"
  shows "mark key w \<le> mark key w' \<and> mark key w' \<le> g_now w'
    \<and> (\<forall>x. r_created_at x \<le> mark key w \<longrightarrow>
         x \<notin> set (raws_between (ok_scope key) (ok_owner key) (mark key w') until (g_db w')))"
  using worker_mark [OF assms(1) [unfolded run_worker_def] assms(2)]
  by (auto simp: timely_def raws_between_def)

text \<open>
  A raw that is inserted in the same millisecond as an iteration's start, after that
  iteration listed the new raws, is lost to extraction: once the iteration has written a wiki,
  no later worker ever lists it.
\<close>
lemma same_millisecond_raw_lost:
  assumes "iteration deps key i mode w = (res, w1)" and "timely key w"
    and "fst (now_ms key w) = Inr started" and "t_wikis (g_db w1) \<noteq> t_wikis (g_db w)"
    and "run_worker deps key mode' w1 = Some (r, w')" and "r_created_at late = started"
  shows "late \<notin> set (raws_between (ok_scope key) (ok_owner key) (mark key w') until (g_db w'))"
proof -
  from iteration_mark [OF assms(1,2)] assms(3,4) have "timely key w1" "mark key w1 = started" by auto
  with worker_mark [OF assms(5) [unfolded run_worker_def]] assms(6) show ?thesis
    by (auto simp: raws_between_def)
qed

section \<open>Tenant isolation\<close>

definition mine :: "owner_key \<Rightarrow> raw \<Rightarrow> bool" where
  "mine key x \<longleftrightarrow> r_scope x = scope_as_str (ok_scope key) \<and> r_owner x = ok_owner key"

text \<open>An invariant of a session from its preservation by the clock, quiet steps and tasks; of a worker, when
  the slots may change too.\<close>

locale session_invariant =
  fixes P :: "'s world \<Rightarrow> bool" and deps :: "'s worker_deps" and key :: owner_key
  assumes P_now: "P w \<Longrightarrow> P (snd (now_ms key w))"
    and P_quiet: "P w \<Longrightarrow> steady w w' \<Longrightarrow> t_wikis (g_db w') = t_wikis (g_db w) \<Longrightarrow> P w'"
    and P_task: "P w \<Longrightarrow> \<forall>x \<in> set new. x \<in> set (t_raws (g_db w)) \<and> mine key x \<Longrightarrow>
                 P (concept_task deps key new t c w)"
begin

lemma P_fold:
  "P w \<Longrightarrow> \<forall>x \<in> set new. x \<in> set (t_raws (g_db w)) \<and> mine key x \<Longrightarrow> P (fold (concept_task deps key new t) cs w)"
proof (induction cs arbitrary: w)
  case (Cons c cs)
  have "t_raws (g_db (concept_task deps key new t c w)) = t_raws (g_db w)"
    using concept_task_effect [of w deps key new t c] by (simp add: steady_def)
  with Cons P_task show ?case by simp
qed simp

lemma P_iteration:
  assumes "iteration deps key i mode w = (r, w')" "P w"
  shows "P w'"
proof -
  have n: "t_wikis (g_db (snd (now_ms key w))) = t_wikis (g_db w)"
    using now_ms_wikis [of key w] by (metis prod.collapse)
  note P1 = P_now [OF assms(2)]
  from assms(1) show ?thesis
  proof (cases rule: iteration_effect)
    case none
    with n P_quiet [OF P1] show ?thesis by simp
  next
    case (tasks started new affected w2)
    with n P_quiet [OF P1] have P2: "P w2" by simp
    have "\<forall>x \<in> set new. x \<in> set (t_raws (g_db w2)) \<and> mine key x"
      using tasks(2,4) by (auto simp: raws_between_def mine_def steady_def)
    from P_quiet [OF P_fold [OF P2 this] tasks(7,8)] show ?thesis .
  qed
qed

lemma P_session: "session_loop deps key iters mode w = (r, w') \<Longrightarrow> P w \<Longrightarrow> P w'"
proof (induction iters arbitrary: mode w)
  case (Cons i iters)
  obtain r1 w1 where i: "iteration deps key i mode w = (r1, w1)" by fastforce
  note P1 = P_iteration [OF i Cons.prems(2)]
  show ?case
  proof (cases r1)
    case (Inr x)
    with Cons.prems(1) i P1 Cons.IH [of _ w1] show ?thesis by (cases x) auto
  qed (use Cons.prems i P1 in auto)
qed auto

lemma P_remaining:
  assumes "count_remaining key w = (r, w')" "P w"
  shows "P w'"
proof -
  obtain r1 w1 where m: "db_act (wikis_max_last_rebuilt_at (ok_scope key) (ok_owner key)) w = (r1, w1)" by fastforce
  have P1: "P w1" using P_quiet [OF assms(2)] quietD [OF quiet_db_act [OF read_only_stmts(5)] m] by blast
  show ?thesis
  proof (cases r1)
    case (Inr wm)
    obtain t w2 where n: "now_ms key w1 = (Inr t, w2)" using now_ms_wikis [of key w1] by (metis surj_pair)
    have P2: "P w2" using P_now [OF P1] n by simp
    obtain r3 w3 where l: "db_act (raws_list_since (ok_scope key) (ok_owner key) wm t) w2 = (r3, w3)" by fastforce
    have P3: "P w3" using P_quiet [OF P2] quietD [OF quiet_db_act [OF read_only_stmts(2)] l] by blast
    have "w' = w3" using assms(1) m Inr n l by (cases r3) (auto simp: count_remaining_def)
    with P3 show ?thesis by simp
  qed (use assms m P1 in \<open>auto simp: count_remaining_def\<close>)
qed

end

locale worker_invariant = session_invariant +
  assumes P_slots: "P w \<Longrightarrow> P (w\<lparr>g_slots := m\<rparr>)"
begin

lemma P_decide:
  assumes d: "decide key out l w = (r, w')" and P: "P w"
  shows "P w'"
proof -
  let ?m = "if out = DrainCapped \<and> consecutive_caps l + 1 \<ge> MAX_CONSECUTIVE_CAPS
           then count_remaining key else okA None"
  obtain r1 w1 where m: "?m w = (r1, w1)" by fastforce
  then have "P w1" using P P_remaining by (auto split: if_splits)
  with d m P_slots show ?thesis by (cases r1) (auto simp: decide_def split: prod.splits)
qed

lemma P_worker: "run_worker_fuel n deps key mode l w = Some (r, w') \<Longrightarrow> P w \<Longrightarrow> P w'"
proof (induction n arbitrary: mode l w)
  case (Suc n)
  obtain r1 w1 where s: "run_session deps key mode w = (r1, w1)" by fastforce
  note P1 = P_session [OF s [unfolded run_session_def] Suc.prems(2)]
  show ?case
  proof (cases r1)
    case (Inr out)
    obtain r2 w2 where d: "decide key out l w1 = (r2, w2)" by fastforce
    note P2 = P_decide [OF d P1]
    show ?thesis
    proof (cases r2)
      case 2: (Inr x)
      obtain l' md where x: "x = (l', md)" by fastforce
      show ?thesis using Suc s Inr d 2 x P2 by (cases md) auto
    qed (use Suc.prems s Inr d P2 in auto)
  qed (use Suc.prems s P1 in auto)
qed simp

end

text \<open>
  The rows of an owner: ids are unique over the table and the insertions to come, and the
  references stored with this owner's wikis name this owner's raws.
\<close>

definition tenant_ok :: "texts \<Rightarrow> owner_key \<Rightarrow> 's world \<Rightarrow> bool" where
  "tenant_ok T key w \<longleftrightarrow>
     distinct (map r_id (t_raws (g_db w) @ concat (map ev_raws (g_events w))))
     \<and> (\<forall>wk \<in> set (t_wikis (g_db w)). w_scope wk = scope_as_str (ok_scope key) \<longrightarrow> w_owner wk = ok_owner key \<longrightarrow>
          (\<forall>i \<in> set (stored_refs T (Some wk)). \<exists>x \<in> set (t_raws (g_db w)). r_id x = i \<and> mine key x))"

text \<open>What the libraries are relied on for: JSON arrays of strings survive the text format, and a
  full-text query returns rows of the table.\<close>

definition refs_text_ok :: "texts \<Rightarrow> bool" where
  "refs_text_ok T \<longleftrightarrow> (\<forall>xs. par T (ser T (JArr (map JStr xs))) = Some (JArr (map JStr xs)))"

lemma wikis_get_Inr: "wikis_get sc ow c d = (Inr wk, d') \<Longrightarrow> wk = find (wiki_at sc ow c) (t_wikis d) \<and> same_tables d d'"
  by (auto simp: wikis_get_def elim!: query_Inr)

lemma inputs_mine:
  assumes ok: "tenant_ok T key w" and fts: "fts_ok fts"
    and get: "wikis_get (ok_scope key) (ok_owner key) c (g_db w) = (Inr wk, d0)"
    and b: "build fts (ok_scope key) (ok_owner key) c (stored_refs T wk) new d0 = (Inr inputs, d1)"
    and new: "\<forall>x \<in> set new. x \<in> set (t_raws (g_db w)) \<and> mine key x"
  shows "\<forall>x \<in> set inputs. x \<in> set (t_raws (g_db w)) \<and> mine key x"
proof
  fix x assume x: "x \<in> set inputs"
  from wikis_get_Inr [OF get] have wk: "wk = find (wiki_at (ok_scope key) (ok_owner key) c) (t_wikis (g_db w))"
    and raws: "t_raws d0 = t_raws (g_db w)" by (auto dest: same_tablesD)
  from build_members [OF b x] raws consider
      (ref) "x \<in> set (t_raws (g_db w))" "r_id x \<in> set (stored_refs T wk)"
    | (new) "x \<in> set new"
    | (hit) "x \<in> set (fts (t_raws (g_db w)) (fts5_escape c))" "mine key x"
    by (auto simp: mine_def)
  then show "x \<in> set (t_raws (g_db w)) \<and> mine key x"
  proof cases
    case ref
    then obtain k where k: "wk = Some k" by (cases wk) (auto simp: stored_refs_def)
    with wk have "k \<in> set (t_wikis (g_db w))" "wiki_at (ok_scope key) (ok_owner key) c k"
      using find_SomeD [of "wiki_at (ok_scope key) (ok_owner key) c" "t_wikis (g_db w)" k] by auto
    with ok ref k obtain y where y: "y \<in> set (t_raws (g_db w))" "r_id y = r_id x" "mine key y"
      unfolding tenant_ok_def wiki_at_def by metis
    have "distinct (map r_id (t_raws (g_db w)))" using ok by (simp add: tenant_ok_def)
    with y ref(1) have "y = x" by (metis distinct_map inj_onD)
    with y show ?thesis by simp
  next
    case hit
    with fts show ?thesis by (auto simp: fts_ok_def)
  qed (use new in auto)
qed

lemma tenant_task:
  assumes ok: "tenant_ok (cf_texts deps) key w" and fts: "fts_ok (cf_fts deps)" and tx: "refs_text_ok (cf_texts deps)"
    and new: "\<forall>x \<in> set new. x \<in> set (t_raws (g_db w)) \<and> mine key x"
  shows "tenant_ok (cf_texts deps) key (concept_task deps key new t c w)"
proof -
  let ?w = "concept_task deps key new t c w"
  from concept_task_effect [of w deps key new t c] have st: "steady w ?w"
    and cases: "t_wikis (g_db ?w) = t_wikis (g_db w) \<or> wrote deps key c new t w (t_wikis (g_db ?w))" by auto
  from cases show ?thesis
  proof
    assume "t_wikis (g_db ?w) = t_wikis (g_db w)"
    with ok st show ?thesis by (simp add: tenant_ok_def steady_def)
  next
    assume "wrote deps key c new t w (t_wikis (g_db ?w))"
    then obtain wk inputs refs content d0 d1 where
      g: "wikis_get (ok_scope key) (ok_owner key) c (g_db w) = (Inr wk, d0)"
      "build (cf_fts deps) (ok_scope key) (ok_owner key) c (stored_refs (cf_texts deps) wk) new d0 = (Inr inputs, d1)"
      and refs: "set refs \<subseteq> r_id ` set inputs"
      and ws: "t_wikis (g_db ?w) = wiki_put (ok_scope key) (ok_owner key) c content
              (ser (cf_texts deps) (JArr (map JStr refs))) t (t_wikis (g_db w))"
      by (auto simp: wrote_def)
    note im = inputs_mine [OF ok fts g new]
    have "stored_refs (cf_texts deps) (Some k) = refs"
      if "w_source_refs k = ser (cf_texts deps) (JArr (map JStr refs))" for k
      using that tx by (simp add: stored_refs_def refs_text_ok_def de_list_strs)
    then have own: "w_source_refs k = ser (cf_texts deps) (JArr (map JStr refs)) \<Longrightarrow> i \<in> set (stored_refs (cf_texts deps) (Some k))
        \<Longrightarrow> i \<in> r_id ` set inputs" for k i
      using refs by auto
    have "\<exists>x \<in> set (t_raws (g_db w)). r_id x = i \<and> mine key x"
      if k: "k \<in> set (t_wikis (g_db ?w))" "w_scope k = scope_as_str (ok_scope key)" "w_owner k = ok_owner key"
        and i: "i \<in> set (stored_refs (cf_texts deps) (Some k))" for k i
      using wiki_put_set [OF k(1) [unfolded ws]]
    proof
      assume "k \<in> set (t_wikis (g_db w))"
      then show ?thesis using ok k i by (simp add: tenant_ok_def)
    next
      assume "wiki_at (ok_scope key) (ok_owner key) c k \<and> w_content k = content
        \<and> w_source_refs k = ser (cf_texts deps) (JArr (map JStr refs)) \<and> w_last_rebuilt_at k = t"
      with own i im show ?thesis by blast
    qed
    with ok st show ?thesis by (simp add: tenant_ok_def steady_def)
  qed
qed

interpretation tenant: worker_invariant
  "\<lambda>w. fts_ok (cf_fts deps) \<and> refs_text_ok (cf_texts deps) \<longrightarrow> tenant_ok (cf_texts deps) key w" deps key
  for deps :: "'s worker_deps" and key
proof unfold_locales
  let ?P = "\<lambda>w :: 's world. fts_ok (cf_fts deps) \<and> refs_text_ok (cf_texts deps)
               \<longrightarrow> tenant_ok (cf_texts deps) key w"
  show "?P (snd (now_ms key w))" if "?P w" for w
    using that by (fastforce simp: tenant_ok_def now_ms_def split: list.splits)
  show "?P w'" if "?P w" "steady w w'" "t_wikis (g_db w') = t_wikis (g_db w)" for w w'
    using that by (simp add: tenant_ok_def steady_def)
  show "?P (w\<lparr>g_slots := m\<rparr>)" if "?P w" for w m
    using that by (simp add: tenant_ok_def)
  show "?P (concept_task deps key new t c w)"
    if "?P w" "\<forall>x \<in> set new. x \<in> set (t_raws (g_db w)) \<and> mine key x" for w new t c
    using that tenant_task [of deps key w new t c] by blast
qed

text \<open>
  C19. No raw of one owner ever reaches a synthesis for another. Starting from wikis whose stored
  references name the owner's own raws, every state a worker leaves has that property again,
  whatever the model answers, and in such a state the inputs collected for any concept are raws
  of this owner only, although a stored reference is looked up by its id alone.
\<close>
theorem tenant_isolation:
  assumes "run_worker deps key mode w = Some (r, w')" and "tenant_ok (cf_texts deps) key w"
    and "fts_ok (cf_fts deps)" and "refs_text_ok (cf_texts deps)"
  shows "tenant_ok (cf_texts deps) key w' \<and>
    (\<forall>c new wk d0 inputs d1. (\<forall>x \<in> set new. x \<in> set (t_raws (g_db w')) \<and> mine key x) \<longrightarrow>
       wikis_get (ok_scope key) (ok_owner key) c (g_db w') = (Inr wk, d0) \<longrightarrow>
       build (cf_fts deps) (ok_scope key) (ok_owner key) c (stored_refs (cf_texts deps) wk) new d0 = (Inr inputs, d1) \<longrightarrow>
       (\<forall>x \<in> set inputs. mine key x))"
proof -
  have ok: "tenant_ok (cf_texts deps) key w'"
    using tenant.P_worker [OF assms(1) [unfolded run_worker_def]] assms(2-4) by simp
  with inputs_mine [OF ok assms(3)] show ?thesis by blast
qed

section \<open>A worked example\<close>

definition demo_raw :: raw where
  "demo_raw = \<lparr>r_id = ''1'', r_scope = ''personal'', r_owner = ''u'', r_title = ''t'', r_content = ''c'',
     r_source = ''s'', r_tags = None, r_created_by = None, r_created_at = 5\<rparr>"

definition demo_late :: raw where
  "demo_late = demo_raw\<lparr>r_id := ''2'', r_created_at := 10\<rparr>"

definition demo_reply :: json where
  "demo_reply = JObj [(''affected_existing'', JArr []), (''new_concepts'', JArr [JStr ''ab'', JStr ''B'']),
     (''content'', JStr ''wiki''), (''source_refs'', JArr [JStr ''1'', JStr ''9''])]"

definition demo_texts :: texts where
  "demo_texts = \<lparr>ser = (\<lambda>_. ''[]''), par = (\<lambda>s. if s = ''{}'' then Some demo_reply else None),
     extract_system = [], synth_system = []\<rparr>"

definition demo_client :: "nat llm_client" where
  "demo_client n req = (Inr ''{}'', Suc n)"

definition demo_deps :: "nat worker_deps" where
  "demo_deps = \<lparr>cf_texts = demo_texts, cf_client = demo_client, cf_model_extract = ''m'',
     cf_model_synth = ''m'', cf_fts = (\<lambda>_ _. []), cf_order = (\<lambda>xs. xs)\<rparr>"

definition demo_world :: "nat world" where
  "demo_world = \<lparr>g_db = empty_db, g_llm = 0, g_slots = Map.empty,
     g_metrics = \<lparr>m_concept_rebuild_failed = 0, m_rebuild_drain_capped = 0, m_drain_iterations = [], m_llm_api_error = 0\<rparr>,
     g_events = [\<lparr>ev_time = 10, ev_raws = [demo_raw], ev_requests = [Manual (Some ''ab'')]\<rparr>,
                 \<lparr>ev_time = 20, ev_raws = [demo_late], ev_requests = []\<rparr>], g_now = 0\<rparr>"

lemma demo_decode:
  "extract_json ''{}'' = Some ''{}''" "par demo_texts ''{}'' = Some demo_reply"
  "de_synth demo_reply = Some \<lparr>ws_content = ''wiki'', ws_source_refs = [''1'', ''9'']\<rparr>"
  "de_affected demo_reply = Some \<lparr>affected_existing = [], new_concepts = [''ab'', ''B'']\<rparr>"
  "ser demo_texts v = ''[]''"
  by (code_simp, simp add: demo_texts_def,
      simp_all add: de_synth_def de_affected_def demo_reply_def de_obj_def de_req_def de_list_def demo_texts_def)

lemma demo_synthesize:
  "synthesize demo_texts demo_client m n i = (Inr \<lparr>ws_content = ''wiki'', ws_source_refs = [''1'', ''9'']\<rparr>, Suc n)"
  by (simp add: synthesize_def reply_json_def demo_decode demo_client_def)

lemma demo_extract:
  "extract_concepts demo_texts demo_client m n rs ex
     = (Inr \<lparr>affected_existing = [], new_concepts = [''ab'', ''B'']\<rparr>, Suc n)"
  by (simp add: extract_concepts_def reply_json_def demo_decode demo_client_def)

lemma demo_affected:
  "affected_of [] 0 \<lparr>affected_existing = [], new_concepts = [''ab'', ''B'']\<rparr> = [''ab'']"
  by code_simp

lemma demo_iteration:
  "fst (iteration demo_deps (owner_personal ''u'') 1 Append demo_world) = Inr (Inr Append)"
  "t_wikis (g_db (snd (iteration demo_deps (owner_personal ''u'') 1 Append demo_world)))
     = [\<lparr>w_scope = ''personal'', w_owner = ''u'', w_concept = ''ab'', w_content = ''wiki'',
         w_source_refs = ''[]'', w_last_rebuilt_at = 10\<rparr>]"
  by (simp_all add: iteration_def now_ms_def choose_concepts_def extract_act_def demo_extract demo_affected
      wikis_count_concepts_def owner_wikis_def wikis_list_concepts_def wikis_max_last_rebuilt_at_def
      raws_list_since_def raws_between_def watermark_def requests_def MAX_ITERATIONS_def demo_raw_def
      owner_personal_def synthesize_concepts_def concept_task_def synthesize_one_def seqA_def db_act_def
      llm_act_def wikis_get_def query_def stmt_def demo_world_def demo_deps_def empty_db_def build_def
      search_raws_def stored_refs_def demo_synthesize demo_decode(5) wikis_upsert_def wiki_put_def INPUT_LIMIT_def Let_def)

lemma demo_timely: "timely (owner_personal ''u'') demo_world"
  by (simp add: timely_def mark_eq stamps_def demo_world_def empty_db_def)

lemma run_worker_total: "\<exists>r w'. run_worker deps key mode w = Some (r, w')"
  using run_worker_fuel_enough [OF rank_bound, where key = key and l = loop_init and w = w and deps = deps and mode = mode]
  by (auto simp: run_worker_def worker_fuel_def)

theorem run_worker_returns_witness:
  "\<exists>r w'. run_worker demo_deps (owner_personal ''u'') Append demo_world = Some (r, w')
     \<and> run_worker_fuel 100 demo_deps (owner_personal ''u'') Append loop_init demo_world = Some (r, w')"
  using run_worker_returns [of demo_deps "owner_personal ''u''" Append demo_world]
  by (auto simp: worker_fuel_def demo_world_def)

theorem watermark_monotone_witness:
  "\<exists>r w'. run_worker demo_deps (owner_personal ''u'') Append demo_world = Some (r, w')
     \<and> mark (owner_personal ''u'') w' \<ge> 0 \<and> mark (owner_personal ''u'') w' \<le> g_now w'"
proof -
  obtain r w' where r: "run_worker demo_deps (owner_personal ''u'') Append demo_world = Some (r, w')"
    using run_worker_total by blast
  have "mark (owner_personal ''u'') demo_world = 0"
    by (simp add: mark_eq stamps_def demo_world_def empty_db_def)
  with watermark_monotone [OF r demo_timely] r show ?thesis by auto
qed

theorem worker_concept_budget_witness:
  "\<exists>r w'. run_worker demo_deps (owner_personal ''u'') Append demo_world = Some (r, w')
     \<and> length (concepts (owner_personal ''u'') w') \<le> 200
     \<and> (\<forall>c \<in> set (concepts (owner_personal ''u'') w'). is_valid c)"
proof -
  obtain r w' where r: "run_worker demo_deps (owner_personal ''u'') Append demo_world = Some (r, w')"
    using run_worker_total by blast
  have v: "is_valid ''ab''" by code_simp
  have none: "concepts (owner_personal ''u'') demo_world = []"
    by (simp add: demo_world_def empty_db_def concepts_def owner_concepts_def)
  have slots: "\<forall>md. pending (g_slots demo_world) (owner_personal ''u'') = Some md \<longrightarrow> mode_ok md"
    by (simp add: demo_world_def pending_def entry_or_default_def default_state_def)
  have events: "\<forall>e \<in> set (g_events demo_world). \<forall>md \<in> set (ev_requests e). mode_ok md"
    using v by (simp add: demo_world_def)
  have order: "set (cf_order demo_deps xs) \<subseteq> set xs" for xs by (simp add: demo_deps_def)
  from worker_concept_budget [OF r _ order _ slots events] r none show ?thesis by auto
qed

definition demo_tenant :: "nat world" where
  "demo_tenant = demo_world\<lparr>g_db := empty_db\<lparr>t_wikis := [\<lparr>w_scope = ''personal'', w_owner = ''v'',
     w_concept = ''ab'', w_content = ''x'', w_source_refs = ''[]'', w_last_rebuilt_at = 1\<rparr>]\<rparr>\<rparr>"

text \<open>A text format that keeps arrays of strings: the reference list is its own text.\<close>

definition demo_quote :: "string list \<Rightarrow> string" where
  "demo_quote xs = concat (map (\<lambda>x. concat (map (\<lambda>c. [CHR ''+'', c]) x) @ [CHR ''.'']) xs)"

fun demo_unquote :: "string \<Rightarrow> string \<Rightarrow> string list" where
  "demo_unquote w (c # d # cs) = (if c = CHR ''+'' then demo_unquote (w @ [d]) cs else w # demo_unquote [] (d # cs))"
| "demo_unquote w [c] = [w]"
| "demo_unquote w [] = []"

definition demo_strs :: "json \<Rightarrow> string list" where
  "demo_strs v = (case v of JArr xs \<Rightarrow> map (\<lambda>x. case x of JStr s \<Rightarrow> s | _ \<Rightarrow> []) xs | _ \<Rightarrow> [])"

definition demo_deps2 :: "nat worker_deps" where
  "demo_deps2 = demo_deps\<lparr>cf_texts := demo_texts\<lparr>ser := (\<lambda>v. demo_quote (demo_strs v)),
     par := (\<lambda>s. Some (JArr (map JStr (demo_unquote [] s))))\<rparr>\<rparr>"

lemma demo_unquote_char:
  "demo_unquote w (concat (map (\<lambda>c. [CHR ''+'', c]) x) @ CHR ''.'' # cs) = demo_unquote (w @ x) (CHR ''.'' # cs)"
  by (induction x arbitrary: w) auto

lemma demo_unquote_quote: "demo_unquote [] (demo_quote xs) = xs"
proof (induction xs)
  case (Cons x xs)
  have "demo_unquote x (CHR ''.'' # demo_quote xs) = x # demo_unquote [] (demo_quote xs)"
    by (cases "demo_quote xs") simp_all
  with Cons show ?case
    using demo_unquote_char [of "[]" x "demo_quote xs"] by (simp add: demo_quote_def)
qed (simp add: demo_quote_def)

lemma demo_deps2_ok: "fts_ok (cf_fts demo_deps2)" "refs_text_ok (cf_texts demo_deps2)"
proof -
  have "map ((\<lambda>x. case x of JStr s \<Rightarrow> s | _ \<Rightarrow> []) \<circ> JStr) xs = xs" for xs
    by (induction xs) simp_all
  then show "refs_text_ok (cf_texts demo_deps2)"
    by (simp add: refs_text_ok_def demo_deps2_def demo_strs_def demo_unquote_quote)
qed (simp add: fts_ok_def demo_deps2_def demo_deps_def)

theorem tenant_isolation_witness:
  "\<exists>r w'. run_worker demo_deps2 (owner_personal ''u'') Append demo_tenant = Some (r, w')
     \<and> tenant_ok (cf_texts demo_deps2) (owner_personal ''u'') w'"
proof -
  obtain r w' where r: "run_worker demo_deps2 (owner_personal ''u'') Append demo_tenant = Some (r, w')"
    using run_worker_total by blast
  have a: "tenant_ok (cf_texts demo_deps2) (owner_personal ''u'') demo_tenant"
    by (simp add: tenant_ok_def demo_tenant_def demo_world_def demo_late_def demo_raw_def empty_db_def
        owner_personal_def)
  from tenant_isolation [OF r a demo_deps2_ok] r show ?thesis by blast
qed

end
