(* ===== verification/Lm_Limits.thy ===== *)
theory Lm_Limits
  imports Complex_Main Prelude
begin

text \<open>
  \<open>rate_limit.rs\<close> of \<open>llm-memory-server\<close>: one token bucket per user and tier. The value of an \<open>f64\<close> is a rational
  number; the rounded operations on it are parameters (\<open>floats\<close>), comparisons and \<open>min\<close> are exact. A monotonic
  clock reads in nanoseconds, and \<open>duration_since\<close> is zero on an earlier instant.
\<close>

record tier =
  ti_name :: string
  ti_per_minute :: nat

definition READ_TIER :: tier where "READ_TIER = \<lparr>ti_name = ''read'', ti_per_minute = 600\<rparr>"
definition WRITE_TIER :: tier where "WRITE_TIER = \<lparr>ti_name = ''write'', ti_per_minute = 60\<rparr>"
definition HEAVY_TIER :: tier where "HEAVY_TIER = \<lparr>ti_name = ''heavy'', ti_per_minute = 6\<rparr>"

definition tier_of :: "string \<Rightarrow> tier" where
  "tier_of tool =
     (if tool = ''raw_append'' then WRITE_TIER else if tool = ''schema_update'' then WRITE_TIER
      else if tool = ''wiki_rebuild'' then HEAVY_TIER else if tool = ''export'' then HEAVY_TIER else READ_TIER)"

record floats =
  fl_add :: "rat \<Rightarrow> rat \<Rightarrow> rat"
  fl_sub :: "rat \<Rightarrow> rat \<Rightarrow> rat"
  fl_mul :: "rat \<Rightarrow> rat \<Rightarrow> rat"
  fl_div :: "rat \<Rightarrow> rat \<Rightarrow> rat"
  fl_secs :: "nat \<Rightarrow> rat"

record bucket =
  bu_tokens :: rat
  bu_last_refill :: nat

type_synonym bucket_key = "string \<times> string"
type_synonym buckets = "bucket_key \<rightharpoonup> bucket"

definition refill :: "floats \<Rightarrow> nat \<Rightarrow> nat \<Rightarrow> rat" where
  "refill fl per_minute elapsed = fl_mul fl (fl_secs fl elapsed) (fl_div fl (of_nat per_minute) 60)"

definition refilled :: "floats \<Rightarrow> nat \<Rightarrow> nat \<Rightarrow> bucket \<Rightarrow> rat" where
  "refilled fl per_minute now b =
     min (fl_add fl (bu_tokens b) (refill fl per_minute (now - bu_last_refill b))) (of_nat per_minute)"

text \<open>\<open>RateLimiter::check\<close>, at the instant the clock reads under the lock.\<close>

definition rate_check :: "floats \<Rightarrow> string \<Rightarrow> tier \<Rightarrow> nat \<Rightarrow> buckets \<Rightarrow> bool \<times> buckets" where
  "rate_check fl user_id t now bs =
     (let key = (user_id, ti_name t);
          entry = (case bs key of Some b \<Rightarrow> b | None \<Rightarrow> \<lparr>bu_tokens = of_nat (ti_per_minute t), bu_last_refill = now\<rparr>);
          tokens = refilled fl (ti_per_minute t) now entry in
      if tokens \<ge> 1 then (True, bs(key \<mapsto> \<lparr>bu_tokens = fl_sub fl tokens 1, bu_last_refill = now\<rparr>))
      else (False, bs(key \<mapsto> \<lparr>bu_tokens = tokens, bu_last_refill = now\<rparr>)))"

section \<open>Runs of checks\<close>

type_synonym check_op = "string \<times> tier \<times> nat"

fun checks :: "floats \<Rightarrow> buckets \<Rightarrow> check_op list \<Rightarrow> bool list" where
  "checks fl bs [] = []"
| "checks fl bs ((u, t, now) # ops) = (case rate_check fl u t now bs of (ok, bs') \<Rightarrow> ok # checks fl bs' ops)"

definition op_key :: "check_op \<Rightarrow> bucket_key" where
  "op_key op = (case op of (u, t, now) \<Rightarrow> (u, ti_name t))"

text \<open>The decisions on one key, within a run over all keys.\<close>

definition decisions_of :: "bucket_key \<Rightarrow> floats \<Rightarrow> buckets \<Rightarrow> check_op list \<Rightarrow> bool list" where
  "decisions_of k fl bs ops = map snd (filter (\<lambda>x. op_key (fst x) = k) (zip ops (checks fl bs ops)))"

lemma rate_check_frame:
  "rate_check fl u t now bs = (ok, bs') \<Longrightarrow> k \<noteq> (u, ti_name t) \<Longrightarrow> bs' k = bs k"
  by (auto simp: rate_check_def Let_def split: if_splits)

lemma rate_check_local:
  "bs (u, ti_name t) = cs (u, ti_name t) \<Longrightarrow> rate_check fl u t now bs = (ok, bs') \<Longrightarrow>
     \<exists>cs'. rate_check fl u t now cs = (ok, cs') \<and> cs' (u, ti_name t) = bs' (u, ti_name t)"
  by (auto simp: rate_check_def Let_def split: if_splits)

lemma decisions_isolated:
  "bs k = cs k \<Longrightarrow> decisions_of k fl bs ops = checks fl cs (filter (\<lambda>op. op_key op = k) ops)"
proof (induction ops arbitrary: bs cs)
  case (Cons op ops)
  obtain u t now where op: "op = (u, t, now)" by (cases op)
  obtain ok bs' where c: "rate_check fl u t now bs = (ok, bs')" by fastforce
  show ?case
  proof (cases "op_key op = k")
    case True
    with op have k: "k = (u, ti_name t)" by (simp add: op_key_def)
    from rate_check_local [where bs = bs and cs = cs, OF Cons.prems [unfolded k] c] k
    obtain cs' where cs': "rate_check fl u t now cs = (ok, cs')" "bs' k = cs' k" by auto
    with Cons.IH [where bs = bs' and cs = cs', OF cs'(2)] True op c show ?thesis by (simp add: decisions_of_def)
  next
    case False
    then have "bs' k = cs k" using Cons.prems rate_check_frame [OF c] op by (auto simp: op_key_def)
    from Cons.IH [where bs = bs' and cs = cs, OF this] False op c show ?thesis by (simp add: decisions_of_def)
  qed
qed (simp add: decisions_of_def)

section \<open>How many are allowed\<close>

text \<open>
  IEEE 754 at these sizes: subtracting one from a value between one and the capacity is exact, a sum exceeds
  the true one by at most \<open>\<epsilon>\<close>.
\<close>

definition ieee :: "floats \<Rightarrow> nat \<Rightarrow> rat \<Rightarrow> bool" where
  "ieee fl cap \<epsilon> \<longleftrightarrow> (\<forall>x. 1 \<le> x \<and> x \<le> of_nat cap \<longrightarrow> fl_sub fl x 1 = x - 1)
     \<and> (\<forall>x r. 0 \<le> x \<and> x \<le> of_nat cap \<and> 0 \<le> r \<longrightarrow> 0 \<le> fl_add fl x r \<and> fl_add fl x r \<le> x + r + \<epsilon>)
     \<and> (\<forall>e. 0 \<le> refill fl cap e) \<and> 0 \<le> \<epsilon>"

text \<open>The most the refills of a run of checks of one key can add, when the one before was at \<open>prev\<close>.\<close>

fun refills :: "floats \<Rightarrow> nat \<Rightarrow> rat \<Rightarrow> nat \<Rightarrow> nat list \<Rightarrow> rat" where
  "refills fl cap \<epsilon> prev [] = 0"
| "refills fl cap \<epsilon> prev (now # nows) = refill fl cap (now - prev) + \<epsilon> + refills fl cap \<epsilon> now nows"

lemma rate_check_spends:
  assumes "ieee fl (ti_per_minute t) \<epsilon>" "bs (u, ti_name t) = Some b" "0 \<le> bu_tokens b" "bu_tokens b \<le> of_nat (ti_per_minute t)"
    and c: "rate_check fl u t now bs = (ok, bs')"
  shows "\<exists>b'. bs' (u, ti_name t) = Some b' \<and> 0 \<le> bu_tokens b' \<and> bu_tokens b' \<le> of_nat (ti_per_minute t) \<and> bu_last_refill b' = now
    \<and> bu_tokens b' + of_bool ok \<le> bu_tokens b + refill fl (ti_per_minute t) (now - bu_last_refill b) + \<epsilon>"
proof -
  let ?r = "refill fl (ti_per_minute t) (now - bu_last_refill b)"
  let ?x = "refilled fl (ti_per_minute t) now b"
  have r: "0 \<le> ?r" and sub: "1 \<le> ?x \<Longrightarrow> ?x \<le> of_nat (ti_per_minute t) \<Longrightarrow> fl_sub fl ?x 1 = ?x - 1"
    and add: "0 \<le> fl_add fl (bu_tokens b) ?r" "fl_add fl (bu_tokens b) ?r \<le> bu_tokens b + ?r + \<epsilon>"
    using assms(1,3,4) by (simp_all add: ieee_def)
  have x: "0 \<le> ?x" "?x \<le> of_nat (ti_per_minute t)" "?x \<le> bu_tokens b + ?r + \<epsilon>"
    using add by (simp_all add: refilled_def min.coboundedI1)
  show ?thesis
    using c assms(2) x sub by (cases "?x \<ge> 1") (auto simp: rate_check_def Let_def)
qed

lemma allowed_bound:
  "ieee fl (ti_per_minute t) \<epsilon> \<Longrightarrow> bs (u, ti_name t) = Some b \<Longrightarrow> 0 \<le> bu_tokens b \<Longrightarrow> bu_tokens b \<le> of_nat (ti_per_minute t) \<Longrightarrow>
     of_nat (length (filter id (checks fl bs (map (\<lambda>now. (u, t, now)) nows))))
       \<le> bu_tokens b + refills fl (ti_per_minute t) \<epsilon> (bu_last_refill b) nows"
proof (induction nows arbitrary: bs b)
  case (Cons now nows)
  obtain ok bs' where c: "rate_check fl u t now bs = (ok, bs')" by fastforce
  from rate_check_spends [OF Cons.prems c] obtain b' where b': "bs' (u, ti_name t) = Some b'" "0 \<le> bu_tokens b'"
    "bu_tokens b' \<le> of_nat (ti_per_minute t)" "bu_last_refill b' = now"
    "bu_tokens b' + of_bool ok \<le> bu_tokens b + refill fl (ti_per_minute t) (now - bu_last_refill b) + \<epsilon>" by blast
  from Cons.IH [where bs = bs' and b = b', OF Cons.prems(1) b'(1) b'(2) b'(3)] b'(4,5) c show ?case by (cases ok) auto
qed simp

lemma first_check:
  "checks fl Map.empty (map (\<lambda>now. (u, t, now)) (now # nows))
     = checks fl [(u, ti_name t) \<mapsto> \<lparr>bu_tokens = of_nat (ti_per_minute t), bu_last_refill = now\<rparr>] (map (\<lambda>now. (u, t, now)) (now # nows))"
  by (simp add: rate_check_def Let_def)

definition times_of :: "bucket_key \<Rightarrow> check_op list \<Rightarrow> nat list" where
  "times_of k ops = map (\<lambda>op. snd (snd op)) (filter (\<lambda>op. op_key op = k) ops)"

text \<open>
  C36. The rate limit of a user: in any run of checks by any users, a user's checks of a tier are decided as if no
  other checks were made, and at most the tier's budget per minute is allowed plus what the refills since
  its first check add (and the rounding error of one addition per check). In a burst with no refill that is the budget.
\<close>
theorem rate_limit_per_user:
  assumes "ieee fl (ti_per_minute t) \<epsilon>" and tiers: "\<forall>op \<in> set ops. op_key op = (u, ti_name t) \<longrightarrow> fst (snd op) = t"
  shows "decisions_of (u, ti_name t) fl Map.empty ops = checks fl Map.empty (map (\<lambda>now. (u, t, now)) (times_of (u, ti_name t) ops))
    \<and> of_nat (length (filter id (decisions_of (u, ti_name t) fl Map.empty ops)))
      \<le> of_nat (ti_per_minute t) + refills fl (ti_per_minute t) \<epsilon> (hd (times_of (u, ti_name t) ops)) (times_of (u, ti_name t) ops)"
proof -
  let ?k = "(u, ti_name t)" and ?nows = "times_of (u, ti_name t) ops"
  have "filter (\<lambda>op. op_key op = ?k) ops = map (\<lambda>now. (u, t, now)) ?nows"
    using tiers unfolding times_of_def by (induction ops) (auto simp: op_key_def split: prod.splits)
  with decisions_isolated [of Map.empty ?k Map.empty fl ops]
  have d: "decisions_of ?k fl Map.empty ops = checks fl Map.empty (map (\<lambda>now. (u, t, now)) ?nows)" by simp
  have "of_nat (length (filter id (decisions_of ?k fl Map.empty ops)))
      \<le> of_nat (ti_per_minute t) + refills fl (ti_per_minute t) \<epsilon> (hd ?nows) ?nows"
  proof (cases ?nows)
    case Nil
    then show ?thesis by (simp add: d)
  next
    case (Cons now nows)
    from allowed_bound [OF assms(1), of "[?k \<mapsto> \<lparr>bu_tokens = of_nat (ti_per_minute t), bu_last_refill = now\<rparr>]" u _ "now # nows"]
    show ?thesis unfolding d Cons first_check by (simp del: checks.simps refills.simps)
  qed
  with d show ?thesis by blast
qed

text \<open>Exact arithmetic, and a user who calls ten times at once while another calls in between.\<close>

definition exact_floats :: floats where
  "exact_floats = \<lparr>fl_add = (+), fl_sub = (-), fl_mul = (*), fl_div = (/), fl_secs = (\<lambda>n. of_nat n / 1000000000)\<rparr>"

theorem rate_limit_per_user_witness:
  "let ops = concat (replicate 10 [(''u'', HEAVY_TIER, 5), (''v'', READ_TIER, 7)]) in
   of_nat (length (filter id (decisions_of (''u'', ''heavy'') exact_floats Map.empty ops))) \<le> (6 :: rat)"
proof -
  let ?ops = "concat (replicate 10 [(''u'', HEAVY_TIER, 5 :: nat), (''v'', READ_TIER, 7)])"
  have e: "ieee exact_floats (ti_per_minute HEAVY_TIER) 0"
    by (simp add: ieee_def exact_floats_def refill_def)
  have t: "\<forall>op \<in> set ?ops. op_key op = (''u'', ti_name HEAVY_TIER) \<longrightarrow> fst (snd op) = HEAVY_TIER"
    by (auto simp: op_key_def)
  have "times_of (''u'', ''heavy'') ?ops = replicate 10 5"
    by (simp add: times_of_def op_key_def HEAVY_TIER_def READ_TIER_def eval_nat_numeral)
  moreover have "refills exact_floats 6 0 5 (replicate 10 5) = 0"
    by (simp add: refill_def exact_floats_def eval_nat_numeral)
  moreover have "hd (replicate 10 (5 :: nat)) = 5" by simp
  ultimately show ?thesis using rate_limit_per_user [OF e t, THEN conjunct2] by (simp add: Let_def HEAVY_TIER_def)
qed

end
