(* ===== verification/Lm_Server.thy ===== *)
theory Lm_Server
  imports Coordinator Storage Json Lm_Limits
begin

text \<open>
  The tools of \<open>llm-memory-server\<close> (\<open>mcp/tools/*.rs\<close>, \<open>account.rs\<close>): decoding of arguments, the nine tools over the
  database, the rebuild coordinator and the rate limiter, and the deletion of an account. An
  \<open>anyhow\<close> error is a value of \<open>tool_error\<close>; the client only learns that the tool failed. Parameters:
  identifiers, both clocks, floating-point operations, full-text ranking and the text form of JSON.
\<close>

section \<open>State and parameters\<close>

record lm_env =
  le_ulid :: "nat \<Rightarrow> string"
  le_wall :: "nat \<Rightarrow> int"
  le_mono :: "nat \<Rightarrow> nat"
  le_floats :: floats
  le_fts :: fts
  le_print :: "json \<Rightarrow> string"

record lm_state =
  lm_db :: db
  lm_coord :: coordinator
  lm_buckets :: buckets
  lm_ulids :: nat
  lm_reads :: nat
  lm_instants :: nat

datatype tool_error = BadArgs | DbFailed storage_error | Refused string

type_synonym 'a lm = "(lm_state, tool_error, 'a) act"

definition on_db :: "'a dbop \<Rightarrow> 'a lm" where
  "on_db m s = (case m (lm_db s) of (r, d) \<Rightarrow> (map_sum DbFailed id r, s\<lparr>lm_db := d\<rparr>))"

definition lm_now :: "lm_env \<Rightarrow> int lm" where
  "lm_now env s = (Inr (le_wall env (lm_reads s)), s\<lparr>lm_reads := Suc (lm_reads s)\<rparr>)"

definition lm_new_ulid :: "lm_env \<Rightarrow> string lm" where
  "lm_new_ulid env s = (Inr (le_ulid env (lm_ulids s)), s\<lparr>lm_ulids := Suc (lm_ulids s)\<rparr>)"

definition decoded :: "'a option \<Rightarrow> 'a lm" where
  "decoded x = liftE (of_option BadArgs x)"

definition allowed :: "bool \<Rightarrow> string \<Rightarrow> unit lm" where
  "allowed b msg = liftE (guardE b (Refused msg))"

section \<open>Arguments\<close>

text \<open>
  A derived struct is read from an object by names or from an array by positions. \<open>Some None\<close> is a missing
  field; a missing \<open>Option\<close> field is \<open>None\<close> in an object, and an error in an array unless it has a default.
\<close>

definition arg :: "json \<Rightarrow> nat \<Rightarrow> string \<Rightarrow> json option option" where
  "arg v i k = (case v of
       JObj m \<Rightarrow> (case filter (\<lambda>kv. fst kv = k) m of [] \<Rightarrow> Some None | [kv] \<Rightarrow> Some (Some (snd kv)) | _ \<Rightarrow> None)
     | JArr xs \<Rightarrow> Some (if i < length xs then Some (xs ! i) else None)
     | _ \<Rightarrow> None)"

definition struct_of :: "nat \<Rightarrow> json \<Rightarrow> bool" where
  "struct_of n v = (case v of JObj _ \<Rightarrow> True | JArr xs \<Rightarrow> length xs \<le> n | _ \<Rightarrow> False)"

definition req_arg :: "(json \<Rightarrow> 'a option) \<Rightarrow> json \<Rightarrow> nat \<Rightarrow> string \<Rightarrow> 'a option" where
  "req_arg f v i k = (case arg v i k of Some (Some x) \<Rightarrow> f x | _ \<Rightarrow> None)"

definition opt_arg :: "bool \<Rightarrow> (json \<Rightarrow> 'a option) \<Rightarrow> json \<Rightarrow> nat \<Rightarrow> string \<Rightarrow> 'a option option" where
  "opt_arg has_default f v i k = (case arg v i k of
       None \<Rightarrow> None
     | Some None \<Rightarrow> (if has_default \<or> as_array v = None then Some None else None)
     | Some (Some x) \<Rightarrow> (if x = JNull then Some None else map_option Some (f x)))"

record append_args =
  aa_title :: string
  aa_content :: string
  aa_source :: string
  aa_tags :: "string list option"

definition de_append_args :: "json \<Rightarrow> append_args option" where
  "de_append_args v =
     (if \<not> struct_of 4 v then None else
      case (req_arg as_str v 0 ''title'', req_arg as_str v 1 ''content'', req_arg as_str v 2 ''source'',
            opt_arg False (de_list as_str) v 3 ''tags'') of
        (Some t, Some c, Some s, Some g) \<Rightarrow> Some \<lparr>aa_title = t, aa_content = c, aa_source = s, aa_tags = g\<rparr>
      | _ \<Rightarrow> None)"

definition de_id_args :: "json \<Rightarrow> string option" where
  "de_id_args v = (if struct_of 1 v then req_arg as_str v 0 ''id'' else None)"

record search_args =
  sa_query :: string
  sa_scope :: "string option"
  sa_limit :: "int option"

definition de_search_args :: "json \<Rightarrow> search_args option" where
  "de_search_args v =
     (if \<not> struct_of 3 v then None else
      case (req_arg as_str v 0 ''query'', opt_arg False as_str v 1 ''scope'', opt_arg False as_i64 v 2 ''limit'') of
        (Some q, Some s, Some l) \<Rightarrow> Some \<lparr>sa_query = q, sa_scope = s, sa_limit = l\<rparr>
      | _ \<Rightarrow> None)"

definition de_concept_args :: "json \<Rightarrow> (string \<times> string option) option" where
  "de_concept_args v =
     (if \<not> struct_of 2 v then None else
      case (req_arg as_str v 0 ''concept'', opt_arg False as_str v 1 ''scope'') of
        (Some c, Some s) \<Rightarrow> Some (c, s)
      | _ \<Rightarrow> None)"

definition de_scope_args :: "json \<Rightarrow> string option option" where
  "de_scope_args v = (if struct_of 1 v then opt_arg False as_str v 0 ''scope'' else None)"

definition de_rebuild_args :: "json \<Rightarrow> string option option" where
  "de_rebuild_args v = (if struct_of 1 v then opt_arg True as_str v 0 ''concept'' else None)"

definition de_schema_args :: "json \<Rightarrow> (string \<times> string option) option" where
  "de_schema_args v =
     (if \<not> struct_of 2 v then None else
      case (req_arg as_str v 0 ''scope'', opt_arg False as_str v 1 ''shared_memory_id'') of
        (Some s, Some i) \<Rightarrow> Some (s, i)
      | _ \<Rightarrow> None)"

definition de_content_args :: "json \<Rightarrow> string option" where
  "de_content_args v = (if struct_of 1 v then req_arg as_str v 0 ''content'' else None)"

definition de_export_args :: "json \<Rightarrow> string option option" where
  "de_export_args v = (if struct_of 1 v then opt_arg True as_str v 0 ''cursor'' else None)"

text \<open>\<open>None\<close> and \<open>"all"\<close> are every scope.\<close>

definition parse_scope_arg :: "string option \<Rightarrow> scope option lm" where
  "parse_scope_arg s = liftE (case s of
       None \<Rightarrow> Inr None
     | Some x \<Rightarrow> if x = ''all'' then Inr None
                else if x = ''personal'' then Inr (Some Personal)
                else if x = ''shared'' then Inr (Some Shared)
                else Inl (Refused (''invalid scope: '' @ x)))"

definition scope_has :: "scope \<Rightarrow> scope option \<Rightarrow> bool" where
  "scope_has sc x \<longleftrightarrow> x = None \<or> x = Some sc"

section \<open>Rows as JSON\<close>

definition raw_json :: "raw \<Rightarrow> json" where
  "raw_json r = JObj [(''id'', JStr (r_id r)), (''scope'', JStr (r_scope r)), (''owner_id'', JStr (r_owner r)),
     (''title'', JStr (r_title r)), (''content'', JStr (r_content r)), (''source'', JStr (r_source r)),
     (''tags'', json_opt JStr (r_tags r)), (''created_by'', json_opt JStr (r_created_by r)),
     (''created_at'', JInt (r_created_at r))]"

definition wiki_json :: "wiki \<Rightarrow> json" where
  "wiki_json w = JObj [(''scope'', JStr (w_scope w)), (''owner_id'', JStr (w_owner w)), (''concept'', JStr (w_concept w)),
     (''content'', JStr (w_content w)), (''source_refs'', JStr (w_source_refs w)),
     (''last_rebuilt_at'', JInt (w_last_rebuilt_at w))]"

section \<open>The tools\<close>

definition MAX_CONTENT_BYTES :: nat where "MAX_CONTENT_BYTES = 1024 * 1024"

definition lm_notify :: "string \<Rightarrow> bool lm" where
  "lm_notify u s = (case notify_append (lm_coord s) u of (c, started) \<Rightarrow> (Inr started, s\<lparr>lm_coord := c\<rparr>))"

definition lm_raw_append :: "lm_env \<Rightarrow> string \<Rightarrow> json \<Rightarrow> json lm" where
  "lm_raw_append env u args =
     seqA (decoded (de_append_args args)) (\<lambda>a.
     seqA (allowed (aa_title a \<noteq> [] \<and> aa_content a \<noteq> []) ''title and content required'') (\<lambda>_.
     seqA (allowed (length (aa_content a) \<le> MAX_CONTENT_BYTES) ''content exceeds 1 MB'') (\<lambda>_.
     seqA (lm_new_ulid env) (\<lambda>i.
     seqA (lm_now env) (\<lambda>now.
     seqA (on_db (raws_insert i now \<lparr>nr_scope = Personal, nr_owner = u, nr_title = aa_title a, nr_content = aa_content a,
             nr_source = aa_source a, nr_tags = map_option (\<lambda>t. le_print env (JArr (map JStr t))) (aa_tags a),
             nr_created_by = Some u\<rparr>)) (\<lambda>r.
     seqA (lm_notify u) (\<lambda>started.
     okA (JObj [(''raw_id'', JStr (r_id r)), (''rebuild_started'', JBool started)]))))))))"

definition lm_raw_read :: "string \<Rightarrow> json \<Rightarrow> json lm" where
  "lm_raw_read u args =
     seqA (decoded (de_id_args args)) (\<lambda>i.
     seqA (on_db (raws_get i)) (\<lambda>r.
     seqA (liftE (of_option (Refused ''not found'') r)) (\<lambda>raw.
     seqA (allowed (\<not> (r_scope raw = ''personal'' \<and> r_owner raw \<noteq> u)) ''not found'') (\<lambda>_.
     okA (raw_json raw)))))"

definition lm_hits :: "lm_env \<Rightarrow> bool \<Rightarrow> search_query \<Rightarrow> raw list lm" where
  "lm_hits env wanted q = (if wanted then on_db (search_raws (le_fts env) q) else okA [])"

definition lm_raw_search :: "lm_env \<Rightarrow> string \<Rightarrow> json \<Rightarrow> json lm" where
  "lm_raw_search env u args =
     seqA (decoded (de_search_args args)) (\<lambda>a.
     seqA (parse_scope_arg (sa_scope a)) (\<lambda>scope.
     let limit = clamp (case sa_limit a of None \<Rightarrow> 20 | Some l \<Rightarrow> l) 1 100 in
     seqA (lm_hits env (scope_has Personal scope)
             \<lparr>sq_query = sa_query a, sq_scope = Some Personal, sq_owner = Some u, sq_limit = limit\<rparr>) (\<lambda>personal.
     seqA (lm_hits env (scope_has Shared scope)
             \<lparr>sq_query = sa_query a, sq_scope = Some Shared, sq_owner = None, sq_limit = limit\<rparr>) (\<lambda>shared.
     okA (JObj [(''results'', JArr (map raw_json (take (nat limit) (personal @ shared))))])))))"

fun lm_shared_wikis :: "string \<Rightarrow> shared_memory list \<Rightarrow> wiki list lm" where
  "lm_shared_wikis concept [] = okA []"
| "lm_shared_wikis concept (sm # sms) =
     seqA (on_db (wikis_get Shared (smr_id sm) concept)) (\<lambda>w.
     seqA (lm_shared_wikis concept sms) (\<lambda>ws. okA ((case w of None \<Rightarrow> [] | Some x \<Rightarrow> [x]) @ ws)))"

definition lm_wiki_read :: "string \<Rightarrow> json \<Rightarrow> json lm" where
  "lm_wiki_read u args =
     seqA (decoded (de_concept_args args)) (\<lambda>a.
     seqA (parse_scope_arg (snd a)) (\<lambda>scope.
     seqA (if scope_has Personal scope then on_db (wikis_get Personal u (fst a)) else okA None) (\<lambda>personal.
     seqA (if scope_has Shared scope then seqA (on_db shared_list_all) (lm_shared_wikis (fst a)) else okA []) (\<lambda>shared.
     okA (JObj [(''concept'', JStr (fst a)), (''personal'', json_opt wiki_json personal),
       (''shared'', JArr (map wiki_json shared))])))))"

fun lm_shared_concepts :: "shared_memory list \<Rightarrow> json list lm" where
  "lm_shared_concepts [] = okA []"
| "lm_shared_concepts (sm # sms) =
     seqA (on_db (wikis_list_concepts Shared (smr_id sm))) (\<lambda>cs.
     seqA (lm_shared_concepts sms) (\<lambda>out.
     okA (JObj [(''shared_memory_id'', JStr (smr_id sm)), (''concepts'', JArr (map JStr cs))] # out)))"

definition lm_wiki_list :: "string \<Rightarrow> json \<Rightarrow> json lm" where
  "lm_wiki_list u args =
     seqA (decoded (de_scope_args args)) (\<lambda>a.
     seqA (parse_scope_arg a) (\<lambda>scope.
     seqA (if scope_has Personal scope then on_db (wikis_list_concepts Personal u) else okA []) (\<lambda>personal.
     seqA (if scope_has Shared scope then seqA (on_db shared_list_all) lm_shared_concepts else okA []) (\<lambda>shared.
     okA (JObj [(''personal'', JArr (map JStr personal)), (''shared'', JArr shared)])))))"

definition lm_request_manual :: "string \<Rightarrow> string option \<Rightarrow> manual_outcome lm" where
  "lm_request_manual u concept s = (case request_manual (lm_coord s) u concept of (c, r) \<Rightarrow> (Inr r, s\<lparr>lm_coord := c\<rparr>))"

definition lm_wiki_rebuild :: "string \<Rightarrow> json \<Rightarrow> json lm" where
  "lm_wiki_rebuild u args =
     seqA (decoded (de_rebuild_args args)) (\<lambda>concept.
     seqA (allowed (case concept of None \<Rightarrow> True | Some c \<Rightarrow> is_valid c)
            (''invalid concept: '' @ (case concept of None \<Rightarrow> [] | Some c \<Rightarrow> c))) (\<lambda>_.
     seqA (lm_request_manual u concept) (\<lambda>r.
     okA (JObj [(''status'', JStr (case r of ManualStarted \<Rightarrow> ''started'' | ManualPending \<Rightarrow> ''pending''))]))))"

definition lm_schema_read :: "string \<Rightarrow> json \<Rightarrow> json lm" where
  "lm_schema_read u args =
     seqA (decoded (de_schema_args args)) (\<lambda>a.
     seqA (liftE (if fst a = ''personal'' then Inr (Personal, u)
                  else if fst a = ''shared'' then
                    bindE (of_option (Refused ''shared_memory_id required'') (snd a)) (\<lambda>i. Inr (Shared, i))
                  else Inl (Refused (''invalid scope: '' @ fst a)))) (\<lambda>so.
     seqA (on_db (schemas_get (fst so) (snd so))) (\<lambda>content.
     okA (JObj [(''content'', json_opt JStr content)]))))"

definition lm_schema_update :: "lm_env \<Rightarrow> string \<Rightarrow> json \<Rightarrow> json lm" where
  "lm_schema_update env u args =
     seqA (decoded (de_content_args args)) (\<lambda>content.
     seqA (lm_now env) (\<lambda>now.
     seqA (on_db (schemas_upsert now Personal u content)) (\<lambda>_.
     okA (JObj [(''ok'', JBool True)]))))"

end
