(* ===== verification/Lm_Export.thy ===== *)
theory Lm_Export
  imports Lm_Server
begin

text \<open>
  The \<open>export\<close> tool (\<open>export.rs\<close>): one page of a user's notes after a cursor, bounded by count and by bytes, and
  the theorem that following the cursors gives every note once.
\<close>

definition PAGE_LIMIT :: nat where "PAGE_LIMIT = 100"
definition PAGE_CONTENT_BYTE_BUDGET :: nat where "PAGE_CONTENT_BYTE_BUDGET = 8 * 1024 * 1024"

text \<open>The cursor is \<open>created_at:id\<close>, or an old one without the identifier; absent and empty start from the beginning.\<close>

definition export_cursor :: "string option \<Rightarrow> tool_error + (int \<times> string)" where
  "export_cursor c = (case c of
       None \<Rightarrow> Inr (0, [])
     | Some s \<Rightarrow>
         if s = [] then Inr (0, []) else
         let (at_str, i) = (case split_once CHR 0x3A s of Some (a, b) \<Rightarrow> (a, b) | None \<Rightarrow> (s, [])) in
         bindE (of_option (Refused ''invalid cursor created_at'') (parse_i64 at_str)) (\<lambda>n. Inr (n, i)))"

definition after_cursor :: "int \<Rightarrow> string \<Rightarrow> raw \<Rightarrow> bool" where
  "after_cursor n i r \<longleftrightarrow> r_created_at r > n \<or> (r_created_at r = n \<and> r_id r > i)"

definition own_raws :: "string \<Rightarrow> db \<Rightarrow> raw list" where
  "own_raws u d = sort_key (\<lambda>r. (r_created_at r, r_id r))
     (filter (\<lambda>r. r_scope r = ''personal'' \<and> r_owner r = u) (t_raws d))"

definition export_query :: "string \<Rightarrow> int \<Rightarrow> string \<Rightarrow> raw list dbop" where
  "export_query u n i = query (\<lambda>d. take (PAGE_LIMIT + 1)
     (sort_key (\<lambda>r. (r_created_at r, r_id r))
       (filter (\<lambda>r. r_scope r = ''personal'' \<and> r_owner r = u \<and> after_cursor n i r) (t_raws d))))"

text \<open>The loop over the rows: the page so far and its bytes, then whether the byte budget cut it.\<close>

fun cut_page :: "nat \<Rightarrow> raw list \<Rightarrow> raw list \<Rightarrow> raw list \<times> bool" where
  "cut_page bytes page [] = (page, False)"
| "cut_page bytes page (r # rs) =
     (let next_total = min (2 ^ 64 - 1) (bytes + length (r_content r)) in
      if page \<noteq> [] \<and> next_total > PAGE_CONTENT_BYTE_BUDGET then (page, True)
      else cut_page next_total (page @ [r]) rs)"

definition cursor_text :: "raw \<Rightarrow> string" where
  "cursor_text r = show_int (r_created_at r) @ CHR 0x3A # r_id r"

definition export_page :: "raw list \<Rightarrow> raw list \<times> string option" where
  "export_page raws =
     (let fetched_more_than_limit = length raws > PAGE_LIMIT;
          (page, byte_budget_overflow) = cut_page 0 [] (take PAGE_LIMIT raws)
      in (page, if byte_budget_overflow \<or> fetched_more_than_limit
                then (if page = [] then None else Some (cursor_text (last page))) else None))"

text \<open>The wikis and the schema come with the first page only.\<close>

definition export_extras :: "string \<Rightarrow> int \<Rightarrow> string \<Rightarrow> (wiki list option \<times> string option) lm" where
  "export_extras u cursor_at cursor_id =
     (if cursor_at = 0 \<and> cursor_id = []
      then seqA (on_db (wikis_list_for_owner Personal u)) (\<lambda>ws.
           seqA (on_db (schemas_get Personal u)) (\<lambda>sc. okA (Some ws, sc)))
      else okA (None, None))"

definition lm_export :: "lm_env \<Rightarrow> string \<Rightarrow> json \<Rightarrow> json lm" where
  "lm_export env u args =
     seqA (decoded (de_export_args args)) (\<lambda>c.
     seqA (liftE (export_cursor c)) (\<lambda>(cursor_at, cursor_id).
     seqA (on_db (export_query u cursor_at cursor_id)) (\<lambda>raws.
     let (page, next_cursor) = export_page raws in
     seqA (export_extras u cursor_at cursor_id) (\<lambda>(wikis, schema).
     seqA (lm_now env) (\<lambda>now.
     okA (JObj [(''version'', JInt 1), (''exported_at'', JInt now), (''user_id'', JStr u),
       (''raws'', JArr (map raw_json page)), (''wikis'', json_opt (\<lambda>ws. JArr (map wiki_json ws)) wikis),
       (''schema'', json_opt JStr schema), (''next_cursor'', json_opt JStr next_cursor)]))))))"

section \<open>Pages\<close>

definition content_bytes :: "raw list \<Rightarrow> nat" where
  "content_bytes rs = sum_list (map (\<lambda>r. length (r_content r)) rs)"

lemma cut_page_spec:
  assumes "cut_page bytes page rs = (p, over)" "bytes = content_bytes page"
    "page = [] \<or> length page = 1 \<or> content_bytes page \<le> PAGE_CONTENT_BYTE_BUDGET"
    "\<forall>r \<in> set rs. length (r_content r) < 2 ^ 63" "content_bytes page < 2 ^ 63"
  shows "\<exists>k. p = page @ take k rs \<and> (if over then k < length rs else k = length rs) \<and> (page \<noteq> [] \<or> rs = [] \<or> 0 < k)
    \<and> (length p \<le> 1 \<or> content_bytes p \<le> PAGE_CONTENT_BYTE_BUDGET)"
  using assms
proof (induction bytes page rs rule: cut_page.induct)
  case (1 bytes page)
  then show ?case by auto
next
  case (2 bytes page r rs)
  let ?next = "bytes + length (r_content r)"
  have len: "length (r_content r) < 2 ^ 63" using 2(5) by simp
  then have n: "min (2 ^ 64 - 1) ?next = ?next" using 2(3,6) by simp
  have e: "cut_page bytes page (r # rs) = (if page \<noteq> [] \<and> ?next > PAGE_CONTENT_BYTE_BUDGET then (page, True)
      else cut_page ?next (page @ [r]) rs)" unfolding cut_page.simps Let_def n ..
  show ?case
  proof (cases "page \<noteq> [] \<and> ?next > PAGE_CONTENT_BYTE_BUDGET")
    case True
    then have "p = page" "over" using 2(2) unfolding e by auto
    with True 2(4) show ?thesis by (intro exI [of _ 0]) auto
  next
    case False
    with 2(2) have c: "cut_page ?next (page @ [r]) rs = (p, over)" unfolding e by simp
    have t: "?next = content_bytes (page @ [r])" using 2(3) by (simp add: content_bytes_def)
    have b: "page @ [r] = [] \<or> length (page @ [r]) = 1 \<or> content_bytes (page @ [r]) \<le> PAGE_CONTENT_BYTE_BUDGET"
      using False t by (cases page) auto
    have s: "content_bytes (page @ [r]) < 2 ^ 63"
    proof (cases "page = []")
      case True
      then show ?thesis using len by (simp add: content_bytes_def)
    next
      case False
      then have "content_bytes (page @ [r]) \<le> PAGE_CONTENT_BYTE_BUDGET" using b by (cases page) auto
      then show ?thesis by (simp add: PAGE_CONTENT_BYTE_BUDGET_def)
    qed
    have "\<exists>k. p = (page @ [r]) @ take k rs \<and> (if over then k < length rs else k = length rs)
        \<and> (page @ [r] \<noteq> [] \<or> rs = [] \<or> 0 < k) \<and> (length p \<le> 1 \<or> content_bytes p \<le> PAGE_CONTENT_BYTE_BUDGET)"
      using 2(1) [OF refl, unfolded n, OF False c t b _ s] 2(5) by simp
    then obtain k where k: "p = (page @ [r]) @ take k rs" "if over then k < length rs else k = length rs"
      "length p \<le> 1 \<or> content_bytes p \<le> PAGE_CONTENT_BYTE_BUDGET" by blast
    then show ?thesis by (intro exI [of _ "Suc k"]) (auto split: if_splits)
  qed
qed

definition page_bounded :: "raw list \<Rightarrow> bool" where
  "page_bounded p \<longleftrightarrow> length p \<le> PAGE_LIMIT \<and> (length p \<le> 1 \<or> content_bytes p \<le> PAGE_CONTENT_BYTE_BUDGET)"

lemma export_page_spec:
  assumes e: "export_page (take (PAGE_LIMIT + 1) ys) = (p, c)" and len: "\<forall>r \<in> set ys. length (r_content r) < 2 ^ 63"
  shows "page_bounded p \<and> (\<exists>k. p = take k ys) \<and>
    (case c of None \<Rightarrow> p = ys | Some x \<Rightarrow> p \<noteq> [] \<and> x = cursor_text (last p))"
proof -
  let ?rs = "take PAGE_LIMIT ys"
  have rs: "take PAGE_LIMIT (take (PAGE_LIMIT + 1) ys) = ?rs" by (simp add: min_def)
  obtain p' over where cp: "cut_page 0 [] ?rs = (p', over)" by fastforce
  have "\<exists>k. p' = [] @ take k ?rs \<and> (if over then k < length ?rs else k = length ?rs) \<and> ([] \<noteq> ([] :: raw list) \<or> ?rs = [] \<or> 0 < k)
      \<and> (length p' \<le> 1 \<or> content_bytes p' \<le> PAGE_CONTENT_BYTE_BUDGET)"
    by (rule cut_page_spec [OF cp]) (use len in \<open>auto simp: content_bytes_def dest: in_set_takeD\<close>)
  then obtain k where k: "p' = take k ?rs" "if over then k < length ?rs else k = length ?rs" "?rs = [] \<or> 0 < k"
    "length p' \<le> 1 \<or> content_bytes p' \<le> PAGE_CONTENT_BYTE_BUDGET" by auto
  have p: "p = p'" and c: "c = (if over \<or> length (take (PAGE_LIMIT + 1) ys) > PAGE_LIMIT
      then (if p' = [] then None else Some (cursor_text (last p'))) else None)"
    using e unfolding export_page_def rs cp Let_def by auto
  have ne: "p' \<noteq> []" if "?rs \<noteq> []" using that k(1,3) by auto
  have "case c of None \<Rightarrow> p' = ys | Some x \<Rightarrow> p' \<noteq> [] \<and> x = cursor_text (last p')"
  proof (cases "over \<or> length ys > PAGE_LIMIT")
    case True
    then have "?rs \<noteq> []" using k(2) by (auto simp: PAGE_LIMIT_def split: if_splits)
    then show ?thesis using True ne c by (auto simp: min_def)
  next
    case False
    then show ?thesis using k(1,2) c by auto
  qed
  moreover have "page_bounded p'" using k(1,4) by (simp add: page_bounded_def)
  moreover have "p' = take (min k PAGE_LIMIT) ys" using k(1) by simp
  ultimately show ?thesis unfolding p by blast
qed

section \<open>Cursors\<close>

definition row_key :: "raw \<Rightarrow> int \<times> string" where
  "row_key r = (r_created_at r, r_id r)"

lemma after_cursor_key: "after_cursor n i r \<longleftrightarrow> (n, i) < row_key r"
  by (auto simp: after_cursor_def row_key_def less_prod_def')

lemma own_raws_after:
  "sort_key (\<lambda>r. (r_created_at r, r_id r)) (filter (\<lambda>r. r_scope r = ''personal'' \<and> r_owner r = u \<and> after_cursor n i r) (t_raws d))
     = filter (after_cursor n i) (own_raws u d)"
  unfolding own_raws_def filter_sort by (simp add: conj_ac)

lemma own_raws_sorted:
  assumes "distinct (map r_id (t_raws d))"
  shows "sorted (map row_key (own_raws u d))" "distinct (map row_key (own_raws u d))"
proof -
  show "sorted (map row_key (own_raws u d))" unfolding own_raws_def row_key_def by (rule sorted_sort_key)
  have i: "inj_on r_id (set (t_raws d))" "distinct (t_raws d)" using assms by (simp_all add: distinct_map)
  have "inj_on row_key (set (own_raws u d))"
    by (rule inj_onI) (use i(1) in \<open>auto simp: own_raws_def row_key_def dest: inj_onD\<close>)
  moreover have "distinct (own_raws u d)" using i(2) by (simp add: own_raws_def)
  ultimately show "distinct (map row_key (own_raws u d))" by (simp add: distinct_map)
qed

lemma filter_after_last:
  assumes "sorted (map row_key (xs @ ys))" "distinct (map row_key (xs @ ys))" "xs \<noteq> []"
  shows "filter (after_cursor (r_created_at (last xs)) (r_id (last xs))) (xs @ ys) = ys"
proof -
  let ?k = "row_key (last xs)"
  have a: "after_cursor (r_created_at (last xs)) (r_id (last xs)) r \<longleftrightarrow> ?k < row_key r" for r
    by (simp add: after_cursor_key row_key_def)
  have l: "last xs \<in> set xs" using assms(3) by simp
  have "\<not> ?k < row_key r" if "r \<in> set xs" for r
  proof -
    obtain zs x where xs: "xs = zs @ [x]" using assms(3) by (cases xs rule: rev_cases) auto
    have "sorted (map row_key zs @ [row_key x])" using assms(1) by (simp add: xs sorted_append)
    then have "row_key r \<le> row_key x" using that by (auto simp: xs sorted_append)
    then have "row_key r \<le> ?k" by (simp add: xs)
    then show ?thesis by simp
  qed
  moreover have "?k < row_key r" if "r \<in> set ys" for r
  proof -
    have "?k \<le> row_key r" using assms(1) l that by (auto simp: sorted_append)
    moreover have "?k \<noteq> row_key r" using assms(2) l that by auto
    ultimately show ?thesis by simp
  qed
  ultimately show ?thesis by (simp add: a filter_empty_conv filter_id_conv)
qed

lemma cursor_round_trip:
  assumes "i64_min \<le> r_created_at r" "r_created_at r \<le> i64_max"
  shows "export_cursor (Some (cursor_text r)) = Inr (r_created_at r, r_id r)"
proof -
  have "split_once CHR 0x3A (cursor_text r) = Some (show_int (r_created_at r), r_id r)"
    unfolding cursor_text_def by (rule split_once_append) (rule show_int_no_colon)
  moreover have "cursor_text r \<noteq> []" by (simp add: cursor_text_def)
  ultimately show ?thesis by (simp add: export_cursor_def Let_def parse_show_int [OF assms])
qed

section \<open>A client that follows the cursors\<close>

definition export_args :: "string option \<Rightarrow> json" where
  "export_args c = JObj (case c of None \<Rightarrow> [] | Some x \<Rightarrow> [(''cursor'', JStr x)])"

text \<open>
  The client calls until an answer has no cursor. \<open>seen k\<close> is the state the server is in when call \<open>k\<close> is
  made, whatever other requests and rebuilds did in between.
\<close>

fun export_run :: "nat \<Rightarrow> lm_env \<Rightarrow> string \<Rightarrow> (nat \<Rightarrow> lm_state) \<Rightarrow> nat \<Rightarrow> string option \<Rightarrow> json list list option" where
  "export_run 0 env u seen k c = None"
| "export_run (Suc fuel) env u seen k c =
     (case lm_export env u (export_args c) (seen k) of
        (Inl e, s) \<Rightarrow> None
      | (Inr ans, s) \<Rightarrow>
          (case (Option.bind (json_get ans ''raws'') as_array, json_get ans ''next_cursor'') of
             (Some rs, Some JNull) \<Rightarrow> Some [rs]
           | (Some rs, Some (JStr x)) \<Rightarrow> map_option ((#) rs) (export_run fuel env u seen (Suc k) (Some x))
           | _ \<Rightarrow> None))"

lemma query_healthy: "healthy d \<Longrightarrow> query f d = (Inr (f (d\<lparr>faults := tl (faults d)\<rparr>)), d\<lparr>faults := tl (faults d)\<rparr>)"
  by (simp add: query_def stmt_healthy)

lemma de_export_args_args [simp]: "de_export_args (export_args c) = Some c"
  by (cases c) (simp_all add: de_export_args_def export_args_def struct_of_def opt_arg_def arg_def as_array_def)

lemma on_db_healthy:
  "healthy (lm_db s) \<Longrightarrow> on_db (query f) s = (Inr (f (lm_db s\<lparr>faults := tl (faults (lm_db s))\<rparr>)), s\<lparr>lm_db := lm_db s\<lparr>faults := tl (faults (lm_db s))\<rparr>\<rparr>)"
  by (simp add: on_db_def query_healthy)

lemma export_answers:
  assumes h: "healthy (lm_db s)" and c: "export_cursor c = Inr (n, i)"
    and p: "export_page (take (PAGE_LIMIT + 1) (filter (after_cursor n i) (own_raws u (lm_db s)))) = (page, next_cursor)"
  shows "\<exists>ans s'. lm_export env u (export_args c) s = (Inr ans, s') \<and> json_get ans ''raws'' = Some (JArr (map raw_json page))
    \<and> json_get ans ''next_cursor'' = Some (json_opt JStr next_cursor)"
proof -
  let ?s = "s\<lparr>lm_db := lm_db s\<lparr>faults := tl (faults (lm_db s))\<rparr>\<rparr>"
  define raws where "raws = take (PAGE_LIMIT + 1) (filter (after_cursor n i) (own_raws u (lm_db s)))"
  have q: "on_db (export_query u n i) s = (Inr raws, ?s)"
    unfolding export_query_def on_db_healthy [OF h] own_raws_after raws_def by (simp add: own_raws_def)
  have h': "healthy (lm_db ?s)" using h by simp
  have "\<exists>x s'. export_extras u n i ?s = (Inr x, s')"
    using h' unfolding export_extras_def wikis_list_for_owner_def schemas_get_def
    by (auto simp: seqA_def on_db_healthy healthy_def healthy_tl_list)
  then obtain ws sc s' where r: "export_extras u n i ?s = (Inr (ws, sc), s')" by fast
  from p have p': "export_page raws = (page, next_cursor)" by (simp only: raws_def)
  show ?thesis
    unfolding lm_export_def decoded_def de_export_args_args
    by (simp add: c q p' r lm_now_def)
qed

definition ascending :: "raw list \<Rightarrow> bool" where
  "ascending rs \<longleftrightarrow> sorted_wrt (\<lambda>r r'. row_key r < row_key r') rs"

lemma own_raws_ascending: "distinct (map r_id (t_raws d)) \<Longrightarrow> ascending (own_raws u d)"
  using own_raws_sorted [of d u] by (simp add: ascending_def strict_sorted_iff flip: sorted_wrt_map)

lemma ascending_append:
  "ascending (xs @ ys) \<longleftrightarrow> ascending xs \<and> ascending ys \<and> (\<forall>x \<in> set xs. \<forall>y \<in> set ys. row_key x < row_key y)"
  by (simp add: ascending_def sorted_wrt_append)

lemma ascending_last: "ascending xs \<Longrightarrow> r \<in> set xs \<Longrightarrow> row_key r \<le> row_key (last xs)"
  by (cases xs rule: rev_cases) (auto simp: ascending_append order_less_imp_le)

lemma ascending_unique: "ascending xs \<Longrightarrow> ascending ys \<Longrightarrow> set xs = set ys \<Longrightarrow> xs = ys"
proof (induction xs arbitrary: ys)
  case (Cons x xs)
  then obtain y ys' where ys: "ys = y # ys'" by (cases ys) auto
  have l: "\<forall>r \<in> set xs. row_key x < row_key r" "\<forall>r \<in> set ys'. row_key y < row_key r"
    using Cons.prems(1,2) by (simp_all add: ascending_def ys)
  have "x = y"
  proof (rule ccontr)
    assume "x \<noteq> y"
    then have "x \<in> set ys'" "y \<in> set xs" using Cons.prems(3) by (auto simp: ys)
    with l show False using order_less_asym by blast
  qed
  moreover have "x \<notin> set xs" "y \<notin> set ys'" using l by auto
  ultimately have "set xs = set ys'" using Cons.prems(3) by (auto simp: ys)
  with Cons.IH [of ys'] Cons.prems(1,2) \<open>x = y\<close> show ?case by (simp add: ascending_def ys)
qed simp

text \<open>How many of the rows are at or before a cursor: it grows with every page, which bounds the number of calls.\<close>

definition behind :: "int \<times> string \<Rightarrow> raw set \<Rightarrow> nat" where
  "behind c R = card {r \<in> R. row_key r \<le> c}"

lemma behind_grows:
  assumes "finite R'" "R \<subseteq> R'" "c \<le> row_key l" "l \<in> R" "\<not> row_key l \<le> c"
  shows "Suc (behind c R) \<le> behind (row_key l) R'"
proof -
  have "{r \<in> R. row_key r \<le> c} \<subseteq> {r \<in> R'. row_key r \<le> row_key l}"
    using assms(2,3) by (auto intro: order_trans)
  moreover have "l \<in> {r \<in> R'. row_key r \<le> row_key l}" "l \<notin> {r \<in> R. row_key r \<le> c}" using assms(2,4,5) by auto
  ultimately have "{r \<in> R. row_key r \<le> c} \<subset> {r \<in> R'. row_key r \<le> row_key l}" by blast
  with assms(1) show ?thesis unfolding behind_def by (intro Suc_leI psubset_card_mono) auto
qed

definition follows :: "int \<times> string \<Rightarrow> raw set \<Rightarrow> raw set \<Rightarrow> raw list list \<Rightarrow> bool" where
  "follows c R R' rss \<longleftrightarrow> (\<forall>p \<in> set rss. page_bounded p) \<and> ascending (concat rss) \<and> (\<forall>r \<in> set (concat rss). c < row_key r)
     \<and> {r \<in> R. c < row_key r} \<subseteq> set (concat rss) \<and> set (concat rss) \<subseteq> R'"

lemma follows_step:
  assumes zs: "ascending (p @ q)" "set (p @ q) = {r \<in> R. c < row_key r}" "p \<noteq> []" "page_bounded p"
    and f: "follows (row_key (last p)) S S' rss" and "R \<subseteq> S" "R \<subseteq> S'"
  shows "follows c R S' (p # rss)"
proof -
  let ?l = "row_key (last p)"
  have p: "\<forall>r \<in> set p. row_key r \<le> ?l" using zs(1) by (auto simp: ascending_append intro: ascending_last)
  have l: "last p \<in> set p" using zs(3) by simp
  then have cl: "c < ?l" using zs(2) by auto
  have q: "\<forall>r \<in> set q. ?l < row_key r" using zs(1) l by (auto simp: ascending_append)
  have "set q \<subseteq> R" using zs(2) by auto
  with q have "set q \<subseteq> {r \<in> S. ?l < row_key r}" using \<open>R \<subseteq> S\<close> by auto
  also have "{r \<in> S. ?l < row_key r} \<subseteq> set (concat rss)" using f by (simp only: follows_def)
  finally have "set q \<subseteq> set (concat rss)" .
  moreover have "\<forall>x \<in> set p. \<forall>y \<in> set (concat rss). row_key x < row_key y"
    using p f by (meson follows_def order_le_less_trans)
  moreover have "\<forall>y \<in> set (concat rss). c < row_key y" using cl f by (meson follows_def order_less_trans)
  moreover have "\<forall>y \<in> set p. c < row_key y" "set p \<subseteq> R" using zs(2) by auto
  ultimately show ?thesis
    using zs f \<open>R \<subseteq> S'\<close> unfolding follows_def by (auto simp: ascending_append)
qed

lemma export_follows:
  fixes seen u defines "R \<equiv> \<lambda>k. set (own_raws u (lm_db (seen k)))"
  assumes h: "\<forall>k. healthy (lm_db (seen k))" and ids: "\<forall>k. distinct (map r_id (t_raws (lm_db (seen k))))"
    and sizes: "\<forall>k. \<forall>r \<in> R k. 0 < r_created_at r \<and> r_created_at r \<le> i64_max \<and> length (r_content r) < 2 ^ 63"
    and grows: "\<forall>k. R k \<subseteq> R (Suc k)" and many: "\<forall>k. card (R k) < N"
  shows "export_cursor c = Inr (n, i) \<Longrightarrow> N \<le> fuel + behind (n, i) (R k)
    \<Longrightarrow> \<exists>rss k'. k \<le> k' \<and> export_run fuel env u seen k c = Some (map (map raw_json) rss) \<and> follows (n, i) (R k) (R k') rss"
proof (induction fuel arbitrary: k c n i)
  case 0
  have "behind (n, i) (R k) \<le> card (R k)" unfolding behind_def by (rule card_mono) (auto simp: R_def)
  with 0(2) have "N \<le> card (R k)" by simp
  with many [rule_format, of k] show ?case by simp
next
  case (Suc fuel)
  let ?ys = "own_raws u (lm_db (seen k))"
  let ?zs = "filter (after_cursor n i) ?ys"
  obtain p x where e: "export_page (take (PAGE_LIMIT + 1) ?zs) = (p, x)" by fastforce
  have len: "\<forall>r \<in> set ?zs. length (r_content r) < 2 ^ 63" using sizes by (auto simp: R_def)
  from export_page_spec [OF e len] obtain m where p: "page_bounded p" "p = take m ?zs"
    "case x of None \<Rightarrow> p = ?zs | Some y \<Rightarrow> p \<noteq> [] \<and> y = cursor_text (last p)" by blast
  have zs: "set ?zs = {r \<in> R k. (n, i) < row_key r}" by (auto simp: R_def after_cursor_key)
  have asc: "ascending ?zs" using own_raws_ascending ids by (auto simp: ascending_def sorted_wrt_filter)
  from export_answers [OF _ Suc.prems(1) e] h obtain ans s' where
    a: "lm_export env u (export_args c) (seen k) = (Inr ans, s')" "json_get ans ''raws'' = Some (JArr (map raw_json p))"
      "json_get ans ''next_cursor'' = Some (json_opt JStr x)" by blast
  show ?case
  proof (cases x)
    case None
    have "export_run (Suc fuel) env u seen k c = Some (map (map raw_json) [p])"
      using a by (simp add: None json_opt_def as_array_def)
    moreover have "follows (n, i) (R k) (R k) [p]" using p asc zs by (auto simp: None follows_def)
    ultimately show ?thesis by blast
  next
    case (Some y)
    with p have ne: "p \<noteq> []" and y: "y = cursor_text (last p)" by auto
    have "set p \<subseteq> set ?zs" unfolding p(2) by (rule set_take_subset)
    then have "last p \<in> {r \<in> R k. (n, i) < row_key r}" using last_in_set [OF ne] unfolding zs by blast
    then have l: "last p \<in> R k" "(n, i) < row_key (last p)" by simp_all
    have b: "0 < r_created_at (last p)" "r_created_at (last p) \<le> i64_max" using sizes l(1) by blast+
    have "export_cursor (Some y) = Inr (row_key (last p))"
      unfolding y row_key_def by (rule cursor_round_trip) (use b in \<open>simp_all add: i64_min_def\<close>)
    moreover have "N \<le> fuel + behind (row_key (last p)) (R (Suc k))"
    proof -
      have "Suc (behind (n, i) (R k)) \<le> behind (row_key (last p)) (R (Suc k))"
        by (rule behind_grows) (use l grows in \<open>auto simp: R_def not_le\<close>)
      with Suc.prems(2) show ?thesis by simp
    qed
    ultimately obtain rss k' where r: "Suc k \<le> k'" "export_run fuel env u seen (Suc k) (Some y) = Some (map (map raw_json) rss)"
      "follows (row_key (last p)) (R (Suc k)) (R k') rss"
      using Suc.IH [of "Some y" "r_created_at (last p)" "r_id (last p)" "Suc k", folded row_key_def] by blast
    have "R k \<subseteq> R k'" using lift_Suc_mono_le [of R k k'] grows r(1) by auto
    have "p @ drop m ?zs = ?zs" using p(2) by simp
    with asc zs r(3) ne p(1) grows \<open>R k \<subseteq> R k'\<close> have "follows (n, i) (R k) (R k') (p # rss)"
      by (intro follows_step [where q = "drop m ?zs" and S = "R (Suc k)"]) auto
    moreover have "export_run (Suc fuel) env u seen k c = Some (map (map raw_json) (p # rss))"
      using a r(2) by (simp add: Some json_opt_def as_array_def)
    ultimately show ?thesis using r(1) by (meson Suc_leD)
  qed
qed

text \<open>
  C15. Following the cursors of \<open>export\<close> from the start ends, and gives every personal note the user had at the
  first call exactly once, in the order of creation, in pages within the limits on count and bytes, even when
  notes are added between the calls; nothing else is given, and when none are added it is exactly the notes.
\<close>
theorem export_complete:
  assumes h: "\<forall>k. healthy (lm_db (seen k))" and ids: "\<forall>k. distinct (map r_id (t_raws (lm_db (seen k))))"
    and sizes: "\<forall>k. \<forall>r \<in> set (own_raws u (lm_db (seen k))). 0 < r_created_at r \<and> r_created_at r \<le> i64_max \<and> length (r_content r) < 2 ^ 63"
    and grows: "\<forall>k. set (own_raws u (lm_db (seen k))) \<subseteq> set (own_raws u (lm_db (seen (Suc k))))"
    and many: "\<forall>k. length (own_raws u (lm_db (seen k))) < fuel"
  shows "\<exists>rss. export_run fuel env u seen 0 None = Some (map (map raw_json) rss)
    \<and> (\<forall>p \<in> set rss. page_bounded p) \<and> ascending (concat rss)
    \<and> set (own_raws u (lm_db (seen 0))) \<subseteq> set (concat rss) \<and> (\<exists>k. set (concat rss) \<subseteq> set (own_raws u (lm_db (seen k))))
    \<and> ((\<forall>k. own_raws u (lm_db (seen k)) = own_raws u (lm_db (seen 0))) \<longrightarrow> concat rss = own_raws u (lm_db (seen 0)))"
proof -
  have card: "card (set (own_raws u (lm_db (seen k)))) < fuel" for k
    using many card_length order_le_less_trans by blast
  have c: "export_cursor None = Inr (0, [])" by (simp add: export_cursor_def)
  from export_follows [where u = u and seen = seen and N = fuel and env = env and fuel = fuel and k = 0, OF h ids sizes grows _ c] card
  obtain rss k' where r: "export_run fuel env u seen 0 None = Some (map (map raw_json) rss)"
    "follows (0, []) (set (own_raws u (lm_db (seen 0)))) (set (own_raws u (lm_db (seen k')))) rss" by auto
  have all: "{r \<in> set (own_raws u (lm_db (seen 0))). (0, []) < row_key r} = set (own_raws u (lm_db (seen 0)))"
    using sizes by (auto simp: row_key_def less_prod_def')
  have "concat rss = own_raws u (lm_db (seen 0))" if "\<forall>k. own_raws u (lm_db (seen k)) = own_raws u (lm_db (seen 0))"
  proof (rule ascending_unique)
    show "ascending (own_raws u (lm_db (seen 0)))" using ids own_raws_ascending by blast
    show "set (concat rss) = set (own_raws u (lm_db (seen 0)))" using r(2) that all unfolding follows_def by (metis subset_antisym)
  qed (use r(2) in \<open>simp add: follows_def\<close>)
  moreover have "set (own_raws u (lm_db (seen 0))) \<subseteq> set (concat rss)" "\<exists>k. set (concat rss) \<subseteq> set (own_raws u (lm_db (seen k)))"
    using r(2) all unfolding follows_def by auto
  ultimately show ?thesis using r unfolding follows_def by blast
qed

text \<open>Three notes of one user, two of them in one millisecond, and one of another user.\<close>

definition sample_raw :: "string \<Rightarrow> string \<Rightarrow> int \<Rightarrow> raw" where
  "sample_raw i u t = \<lparr>r_id = i, r_scope = ''personal'', r_owner = u, r_title = ''t'', r_content = ''c'', r_source = ''s'',
     r_tags = None, r_created_by = Some u, r_created_at = t\<rparr>"

definition sample_db :: db where
  "sample_db = empty_db\<lparr>t_raws := [sample_raw ''2'' ''u'' 8, sample_raw ''3'' ''v'' 7, sample_raw ''1'' ''u'' 8, sample_raw ''0'' ''u'' 5]\<rparr>"

definition sample_state :: "db \<Rightarrow> lm_state" where
  "sample_state d = \<lparr>lm_db = d, lm_coord = coordinator_init, lm_buckets = Map.empty, lm_ulids = 0, lm_reads = 0, lm_instants = 0\<rparr>"

lemma sample_own_raws: "own_raws ''u'' sample_db = [sample_raw ''0'' ''u'' 5, sample_raw ''1'' ''u'' 8, sample_raw ''2'' ''u'' 8]"
  by (simp add: own_raws_def sample_db_def sample_raw_def empty_db_def less_eq_prod_simp)

theorem export_complete_witness:
  "\<forall>env. \<exists>rss. export_run 4 env ''u'' (\<lambda>_. sample_state sample_db) 0 None = Some (map (map raw_json) rss)
     \<and> concat rss = [sample_raw ''0'' ''u'' 5, sample_raw ''1'' ''u'' 8, sample_raw ''2'' ''u'' 8]"
proof
  fix env
  let ?seen = "\<lambda>_ :: nat. sample_state sample_db"
  have "\<forall>k. healthy (lm_db (?seen k))" "\<forall>k. distinct (map r_id (t_raws (lm_db (?seen k))))"
    "\<forall>k. \<forall>r \<in> set (own_raws ''u'' (lm_db (?seen k))). 0 < r_created_at r \<and> r_created_at r \<le> i64_max \<and> length (r_content r) < 2 ^ 63"
    "\<forall>k. length (own_raws ''u'' (lm_db (?seen k))) < 4"
    unfolding sample_state_def by (auto simp: healthy_def sample_own_raws) (auto simp: sample_db_def empty_db_def sample_raw_def i64_max_def)
  from export_complete [where seen = ?seen and u = "''u''" and fuel = 4 and env = env, OF this(1-3) _ this(4)]
  show "\<exists>rss. export_run 4 env ''u'' ?seen 0 None = Some (map (map raw_json) rss)
     \<and> concat rss = [sample_raw ''0'' ''u'' 5, sample_raw ''1'' ''u'' 8, sample_raw ''2'' ''u'' 8]" by (auto simp: sample_own_raws sample_state_def)
qed

end
