(* ===== verification/Lm_Transport.thy ===== *)
theory Lm_Transport
  imports Json_Rpc Lm_Export
begin

text \<open>
  Requests to \<open>llm-memory-server\<close>: the list of its tools and the call of one (\<open>mcp/tools/mod.rs\<close>), the methods of
  its MCP endpoint (\<open>mcp/transport.rs\<close>) and the deletion of an account (\<open>account.rs\<close>).
\<close>

section \<open>The tools advertised\<close>

definition tool_meta :: "string \<Rightarrow> string \<Rightarrow> json \<Rightarrow> json" where
  "tool_meta name description input_schema =
     JObj [(''name'', JStr name), (''description'', JStr description), (''inputSchema'', input_schema)]"

definition is_known_tool :: "string \<Rightarrow> bool" where
  "is_known_tool name \<longleftrightarrow> name \<in> set [''raw_append'', ''raw_read'', ''raw_search'', ''wiki_read'', ''wiki_list'',
     ''wiki_rebuild'', ''schema_read'', ''schema_update'', ''export'']"

definition str_type :: json where "str_type = JObj [(''type'', JStr ''string'')]"

definition str_enum :: "string list \<Rightarrow> json" where
  "str_enum xs = JObj [(''type'', JStr ''string''), (''enum'', JArr (map JStr xs))]"

definition object_type :: "(string \<times> json) list \<Rightarrow> string list \<Rightarrow> json" where
  "object_type props required = JObj ([(''type'', JStr ''object''), (''properties'', JObj props)]
     @ (if required = [] then [] else [(''required'', JArr (map JStr required))]))"

definition schema_read_schema :: json where
  "schema_read_schema = JObj [(''type'', JStr ''object''),
     (''properties'', JObj [(''scope'', str_enum [''personal'', ''shared'']), (''shared_memory_id'', str_type)]),
     (''required'', JArr [JStr ''scope'']),
     (''oneOf'', JArr [
        JObj [(''properties'', JObj [(''scope'', JObj [(''const'', JStr ''personal'')])])],
        JObj [(''properties'', JObj [(''scope'', JObj [(''const'', JStr ''shared'')])]),
              (''required'', JArr [JStr ''shared_memory_id''])]])]"

definition lm_tools_list :: json where
  "lm_tools_list = JObj [(''tools'', JArr [
     tool_meta ''raw_append'' ''Append a personal raw''
       (object_type [(''title'', str_type), (''content'', str_type), (''source'', str_type),
          (''tags'', JObj [(''type'', JStr ''array''), (''items'', str_type)])] [''title'', ''content'', ''source'']),
     tool_meta ''raw_read'' ''Read a single raw'' (object_type [(''id'', str_type)] [''id'']),
     tool_meta ''raw_search'' ''Search raws via FTS5''
       (object_type [(''query'', str_type), (''scope'', str_enum [''all'', ''personal'', ''shared'']),
          (''limit'', JObj [(''type'', JStr ''integer''), (''minimum'', JInt 1), (''maximum'', JInt 100)])] [''query'']),
     tool_meta ''wiki_read'' ''Read concept wiki across personal+shared''
       (object_type [(''concept'', str_type), (''scope'', str_enum [''all'', ''personal'', ''shared''])] [''concept'']),
     tool_meta ''wiki_list'' ''List concepts'' (object_type [(''scope'', str_enum [''all'', ''personal'', ''shared''])] []),
     tool_meta ''wiki_rebuild'' ''Manually trigger rebuild'' (object_type [(''concept'', str_type)] []),
     tool_meta ''schema_read'' ''Read schema'' schema_read_schema,
     tool_meta ''schema_update'' ''Update personal schema'' (object_type [(''content'', str_type)] [''content'']),
     tool_meta ''export'' ''Export personal data'' (object_type [(''cursor'', str_type)] [])])]"

section \<open>The call of a tool\<close>

definition call_tool_result_ok :: "lm_env \<Rightarrow> json \<Rightarrow> json" where
  "call_tool_result_ok env v = JObj [(''content'', JArr [JObj [(''type'', JStr ''text''), (''text'', JStr (le_print env v))]]),
     (''isError'', JBool False)]"

definition call_tool_result_err :: "string \<Rightarrow> json" where
  "call_tool_result_err message = JObj [(''content'', JArr [JObj [(''type'', JStr ''text''), (''text'', JStr message)]]),
     (''isError'', JBool True)]"

definition lm_check :: "lm_env \<Rightarrow> string \<Rightarrow> tier \<Rightarrow> lm_state \<Rightarrow> bool \<times> lm_state" where
  "lm_check env u t s =
     (case rate_check (le_floats env) u t (le_mono env (lm_instants s)) (lm_buckets s) of
        (ok, bs) \<Rightarrow> (ok, s\<lparr>lm_buckets := bs, lm_instants := Suc (lm_instants s)\<rparr>))"

text \<open>\<open>None\<close> is the branch \<open>unreachable!\<close>.\<close>

definition lm_tool :: "lm_env \<Rightarrow> string \<Rightarrow> string \<Rightarrow> json \<Rightarrow> json lm option" where
  "lm_tool env u name args =
     (if name = ''raw_append'' then Some (lm_raw_append env u args)
      else if name = ''raw_read'' then Some (lm_raw_read u args)
      else if name = ''raw_search'' then Some (lm_raw_search env u args)
      else if name = ''wiki_read'' then Some (lm_wiki_read u args)
      else if name = ''wiki_list'' then Some (lm_wiki_list u args)
      else if name = ''wiki_rebuild'' then Some (lm_wiki_rebuild u args)
      else if name = ''schema_read'' then Some (lm_schema_read u args)
      else if name = ''schema_update'' then Some (lm_schema_update env u args)
      else if name = ''export'' then Some (lm_export env u args)
      else None)"

datatype lm_panic = Unreachable

text \<open>The arms after the match: a success, or a message without the reason.\<close>

definition lm_result :: "lm_env \<Rightarrow> string \<Rightarrow> tool_error + json \<Rightarrow> json" where
  "lm_result env name r = (case r of
       Inr v \<Rightarrow> call_tool_result_ok env v
     | Inl e \<Rightarrow> call_tool_result_err (''tool '' @ [CHR 0x27] @ name @ [CHR 0x27] @ '' failed''))"

definition call_name :: "json \<Rightarrow> string" where
  "call_name params = (case Option.bind (json_get params ''name'') as_str of Some n \<Rightarrow> n | None \<Rightarrow> [])"

definition call_args :: "json \<Rightarrow> json" where
  "call_args params = (case json_get params ''arguments'' of Some v \<Rightarrow> v | None \<Rightarrow> JObj [])"

definition lm_call :: "lm_env \<Rightarrow> string \<Rightarrow> json option \<Rightarrow> json \<Rightarrow> (lm_state, lm_panic, jsonrpc_response) act" where
  "lm_call env u i params s =
     (let name = call_name params in
      if \<not> is_known_tool name then (Inr (rpc_error i (- 32602) (''unknown tool: '' @ name)), s)
      else case lm_check env u (tier_of name) s of
        (ok, s') \<Rightarrow>
          if \<not> ok then (Inr (rpc_success i (call_tool_result_err (''rate_limited: '' @ ti_name (tier_of name) @ '' tier''))), s')
          else (case lm_tool env u name (call_args params) of
              None \<Rightarrow> (Inl Unreachable, s')
            | Some m \<Rightarrow> (case m s' of (r, s'') \<Rightarrow> (Inr (rpc_success i (lm_result env name r)), s''))))"

section \<open>The endpoint\<close>

definition LM_SERVER_NAME :: string where "LM_SERVER_NAME = ''llm-memory-server''"

definition lm_method_response :: "wording \<Rightarrow> lm_env \<Rightarrow> string \<Rightarrow> jsonrpc_request \<Rightarrow> (lm_state, lm_panic, jsonrpc_response) act" where
  "lm_method_response wo env u req =
     (let i = jq_id req; meth = jq_method req in
      if meth = ''initialize'' then okA (rpc_success i (JObj [(''protocolVersion'', JStr MCP_PROTOCOL_VERSION),
          (''capabilities'', JObj [(''tools'', JObj [(''listChanged'', JBool False)])]),
          (''serverInfo'', JObj [(''name'', JStr LM_SERVER_NAME), (''version'', JStr (wo_version wo))])]))
      else if meth = ''ping'' then okA (rpc_success i (JObj []))
      else if meth = ''tools/list'' then okA (rpc_success i lm_tools_list)
      else if meth = ''tools/call'' then lm_call env u i (jq_params req)
      else okA (rpc_error i (- 32601) ''Method not found''))"

definition lm_dispatch_one :: "wording \<Rightarrow> lm_env \<Rightarrow> string \<Rightarrow> jsonrpc_request \<Rightarrow> (lm_state, lm_panic, outcome) act" where
  "lm_dispatch_one wo env u req =
     (if jq_id req = None then okA Notification
      else seqA (lm_method_response wo env u req) (\<lambda>r. okA (Response r)))"

definition lm_handle :: "wording \<Rightarrow> lm_env \<Rightarrow> string \<Rightarrow> json option \<Rightarrow> lm_state \<Rightarrow> http_answer \<times> lm_state" where
  "lm_handle wo env u body = rpc_handle wo (lm_dispatch_one wo env u) body"

datatype account_answer = NoContent | DeleteFailed

definition delete_me :: "string \<Rightarrow> lm_state \<Rightarrow> account_answer \<times> lm_state" where
  "delete_me u s = (case on_db (delete_cascade u) s of
       (Inr x, s') \<Rightarrow> (NoContent, s')
     | (Inl e, s') \<Rightarrow> (DeleteFailed, s'))"

section \<open>The dispatcher keeps its contract\<close>

lemma lm_tool_known: "is_known_tool name \<Longrightarrow> \<exists>m. lm_tool env u name args = Some m"
  by (auto simp: is_known_tool_def lm_tool_def)

lemma lm_call_total: "\<exists>r s'. lm_call env u i params s = (Inr r, s') \<and> well_formed i r"
  using lm_tool_known [of "call_name params" env u "call_args params"]
  by (auto simp: lm_call_def Let_def split: prod.split)

lemma lm_method_total: "\<exists>r s'. lm_method_response wo env u req s = (Inr r, s') \<and> well_formed (jq_id req) r"
  using lm_call_total [of env u "jq_id req" "jq_params req" s] by (auto simp: lm_method_response_def Let_def)

lemma lm_dispatch_total: "\<exists>out s'. lm_dispatch_one wo env u req s = (Inr out, s')"
  using lm_method_total [of wo env u req s] by (auto simp: lm_dispatch_one_def)

interpretation lm_rpc: dispatcher "lm_dispatch_one wo env u"
proof unfold_locales
  fix req s out s' assume d: "lm_dispatch_one wo env u req s = (Inr out, s')"
  show "jq_id req = None \<Longrightarrow> out = Notification" using d by (simp add: lm_dispatch_one_def)
  show "\<exists>r. out = Response r \<and> well_formed (Some i) r" if "jq_id req = Some i" for i
    using d that lm_method_total [of wo env u req s] by (auto simp: lm_dispatch_one_def)
qed

lemma lm_handle_answers:
  assumes "es = (case as_array v of None \<Rightarrow> [v] | Some xs \<Rightarrow> xs)" "es \<noteq> []"
  shows "\<exists>rs s'. list_all2 answers (filter (\<lambda>e. \<not> is_notification e) es) rs
    \<and> lm_handle wo env u (Some v) s =
        ((if rs = [] then HttpAccepted else if as_array v \<noteq> None then HttpJson (JArr rs) else HttpJson (hd rs)), s')"
proof -
  have "\<exists>os s'. rpc_outcomes wo (lm_dispatch_one wo env u) es s = (Inr os, s')"
    by (rule rpc_outcomes_total) (rule lm_dispatch_total)
  then obtain os s' where "rpc_outcomes wo (lm_dispatch_one wo env u) es s = (Inr os, s')" by blast
  from lm_rpc.handle_answers [OF this assms] show ?thesis unfolding lm_handle_def by blast
qed

end
