(* ===== verification/Vp_Url.thy ===== *)
theory Vp_Url
  imports Vp_Auth
begin

text \<open>
  The redirect back to the client: the state of the client survives percent encoding as this server writes it,
  and does not as \<open>llm-memory-auth\<close> writes it.
\<close>

section \<open>Reading a percent-encoded text\<close>

definition hex_val :: "char \<Rightarrow> nat option" where
  "hex_val c = (let n = (of_char c :: nat) in
     if 48 \<le> n \<and> n \<le> 57 then Some (n - 48)
     else if 65 \<le> n \<and> n \<le> 70 then Some (n - 55)
     else if 97 \<le> n \<and> n \<le> 102 then Some (n - 87) else None)"

text \<open>RFC 3986: a percent sign and two hexadecimal digits stand for a byte, any other byte for itself.\<close>

fun percent_decode :: "string \<Rightarrow> string option" where
  "percent_decode [] = Some []"
| "percent_decode (c # s) =
     (if c = CHR 0x25 then
        (case s of
           a # b # r \<Rightarrow> (case (hex_val a, hex_val b) of
              (Some x, Some y) \<Rightarrow> map_option ((#) (char_of (16 * x + y))) (percent_decode r)
            | _ \<Rightarrow> None)
         | _ \<Rightarrow> None)
      else map_option ((#) c) (percent_decode s))"

lemma of_char_small [simp]: "n < 256 \<Longrightarrow> of_char (char_of n :: char) = (n :: nat)"
  by (simp add: of_char_of)

lemma hex_digit_val: "n < 16 \<Longrightarrow> hex_val (hex_digit n) = Some n"
  by (simp add: hex_digit_def hex_val_def Let_def)

lemma of_char_bound: "(of_char (c :: char) :: nat) < 256"
  by (rule nat_of_char_less_256)

lemma percent_not_unreserved: "\<not> unreserved CHR 0x25"
  by (simp add: unreserved_def Let_def)

lemma percent_decode_byte: "percent_decode (encode_byte c @ s) = map_option ((#) c) (percent_decode s)"
proof (cases "unreserved c")
  case True
  then have "c \<noteq> CHR 0x25" using percent_not_unreserved by blast
  with True show ?thesis by (simp add: encode_byte_def)
next
  case False
  let ?n = "of_char c :: nat"
  have "?n div 16 < 16" "16 * (?n div 16) + ?n mod 16 = ?n" using of_char_bound [of c] by (simp_all add: less_mult_imp_div_less)
  then show ?thesis using False by (simp add: encode_byte_def Let_def hex_digit_val char_of_char)
qed

lemma percent_decode_encode: "percent_decode (urlencoding s) = Some s"
  by (induction s) (simp_all add: urlencoding_def percent_decode_byte)

lemma hex_digit_unreserved: "n < 16 \<Longrightarrow> unreserved (hex_digit n)"
  by (simp add: hex_digit_def unreserved_def Let_def)

lemma urlencoding_chars: "c \<in> set (urlencoding s) \<Longrightarrow> unreserved c \<or> c = CHR 0x25"
proof -
  assume "c \<in> set (urlencoding s)"
  then obtain b where b: "c \<in> set (encode_byte b)" by (auto simp: urlencoding_def)
  have "(of_char b :: nat) div 16 < 16" using of_char_bound [of b] by (simp add: less_mult_imp_div_less)
  with b show ?thesis
    using hex_digit_unreserved [of "of_char b div 16"] hex_digit_unreserved [of "of_char b mod 16"]
    by (auto simp: encode_byte_def Let_def split: if_splits)
qed

section \<open>Reading the parameters of a URL\<close>

text \<open>
  What a client makes of the address it is sent to: the query lies between the first question mark and the
  fragment, its pieces between ampersands are name and value around the first equals sign, and a plus sign in a
  value stands for a blank.
\<close>

definition before_fragment :: "string \<Rightarrow> string" where
  "before_fragment url = takeWhile (\<lambda>c. c \<noteq> CHR 0x23) url"

definition resource_of :: "string \<Rightarrow> string" where
  "resource_of url = takeWhile (\<lambda>c. c \<noteq> CHR 0x3F) (before_fragment url)"

definition query_params :: "string \<Rightarrow> (string \<times> string) list" where
  "query_params url = map (\<lambda>p. case split_once CHR 0x3D p of None \<Rightarrow> (p, []) | Some kv \<Rightarrow> kv)
     (filter (\<lambda>p. p \<noteq> []) (split_on CHR 0x26 (drop 1 (dropWhile (\<lambda>c. c \<noteq> CHR 0x3F) (before_fragment url)))))"

definition form_decode :: "string \<Rightarrow> string option" where
  "form_decode s = percent_decode (map (\<lambda>c. if c = CHR 0x2B then CHR 0x20 else c) s)"

lemma query_params_add:
  assumes "CHR 0x23 \<notin> set url" "set k \<inter> {CHR 0x23, CHR 0x26, CHR 0x3D} = {}" "set v \<inter> {CHR 0x23, CHR 0x26} = {}"
  shows "query_params (url @ [if CHR 0x3F \<in> set url then CHR 0x26 else CHR 0x3F] @ k @ [CHR 0x3D] @ v) = query_params url @ [(k, v)]"
    and "resource_of (url @ [if CHR 0x3F \<in> set url then CHR 0x26 else CHR 0x3F] @ k @ [CHR 0x3D] @ v) = resource_of url"
proof -
  let ?p = "k @ CHR 0x3D # v"
  let ?url = "url @ [if CHR 0x3F \<in> set url then CHR 0x26 else CHR 0x3F] @ k @ [CHR 0x3D] @ v"
  have "CHR 0x23 \<notin> set ?url" using assms by auto
  then have f: "before_fragment ?url = ?url" "before_fragment url = url"
    using assms(1) by (auto simp: before_fragment_def takeWhile_eq_all_conv)
  have p: "split_on CHR 0x26 ?p = [?p]" "split_once CHR 0x3D ?p = Some (k, v)"
    using assms(2,3) by (auto intro!: split_on_one split_once_append)
  show "query_params ?url = query_params url @ [(k, v)]"
  proof (cases "CHR 0x3F \<in> set url")
    case True
    then obtain a b where ab: "url = a @ CHR 0x3F # b" "CHR 0x3F \<notin> set a" by (meson split_list_first)
    then have d: "dropWhile (\<lambda>c. c \<noteq> CHR 0x3F) (a @ CHR 0x3F # x) = CHR 0x3F # x" for x
      by (simp add: dropWhile_append2 dropWhile_append)
    from ab(1) f(2) d [of b] have "dropWhile (\<lambda>c. c \<noteq> CHR 0x3F) (before_fragment url) = CHR 0x3F # b" by simp
    moreover from True ab(1) f(1) d [of "b @ CHR 0x26 # ?p"]
    have "dropWhile (\<lambda>c. c \<noteq> CHR 0x3F) (before_fragment ?url) = CHR 0x3F # b @ CHR 0x26 # ?p" by simp
    ultimately show ?thesis using split_on_append [of "CHR 0x26" b ?p] p by (simp add: query_params_def)
  next
    case False
    then have "dropWhile (\<lambda>c. c \<noteq> CHR 0x3F) (url @ CHR 0x3F # x) = CHR 0x3F # x" "dropWhile (\<lambda>c. c \<noteq> CHR 0x3F) url = []" for x
      by (auto simp: dropWhile_append2 dropWhile_append dropWhile_eq_Nil_conv)
    with False f p show ?thesis unfolding query_params_def f by (simp del: dropWhile_eq_Nil_conv)
  qed
  have t: "takeWhile P (url @ ys) = takeWhile P url" if "\<not> list_all P url \<or> ys = [] \<or> \<not> P (hd ys)" for P :: "char \<Rightarrow> bool" and ys
    using that by (cases ys) (auto simp: takeWhile_append list_all_iff takeWhile_eq_all_conv [THEN iffD2])
  show "resource_of ?url = resource_of url"
    unfolding resource_of_def f by (rule t) (auto simp: list_all_iff)
qed

lemma state_name: "set ''state'' \<inter> {CHR 0x23, CHR 0x26, CHR 0x3D} = {}" "set ''code'' \<inter> {CHR 0x23, CHR 0x26, CHR 0x3D} = {}"
  by simp_all

text \<open>
  C35. The client gets its state back: whatever bytes the state of the authorization request has, the redirect goes
  to the resource of its own redirect URI, with the parameters that URI has followed by exactly two, the code and
  the state, and the value of the last, read by percent decoding or as a form value, is exactly that state. The
  registration admits no redirect URI with a fragment, and an authorization code holds no delimiter.
\<close>
theorem client_state_returned:
  assumes "pa_client_state e = Some st"
    and "CHR 0x23 \<notin> set (pa_redirect_uri e)" and "set code \<inter> {CHR 0x23, CHR 0x26} = {}"
  shows "resource_of (callback_url e code) = resource_of (pa_redirect_uri e)
    \<and> (\<exists>enc. query_params (callback_url e code) = query_params (pa_redirect_uri e) @ [(''code'', code), (''state'', enc)]
        \<and> percent_decode enc = Some st \<and> form_decode enc = Some st)"
proof -
  let ?sep = "\<lambda>url. if CHR 0x3F \<in> set url then CHR 0x26 else CHR 0x3F"
  let ?url = "pa_redirect_uri e" let ?enc = "urlencoding st"
  let ?one = "?url @ [?sep ?url] @ ''code'' @ [CHR 0x3D] @ code"
  have enc: "set ?enc \<inter> {CHR 0x26, CHR 0x3D, CHR 0x23, CHR 0x2B, CHR 0x20} = {}"
    using urlencoding_chars by (fastforce simp: unreserved_def Let_def)
  then have "form_decode ?enc = percent_decode ?enc"
    unfolding form_decode_def by (intro arg_cong [where f = percent_decode] map_idI) auto
  then have dec: "percent_decode ?enc = Some st" "form_decode ?enc = Some st" by (simp_all add: percent_decode_encode)
  have one: "CHR 0x23 \<notin> set ?one" "CHR 0x3F \<in> set ?one" using assms(2,3) by auto
  have url: "callback_url e code = ?one @ [?sep ?one] @ ''state'' @ [CHR 0x3D] @ ?enc"
    using assms(1) one(2) by (simp add: callback_url_def Let_def)
  have "set ?enc \<inter> {CHR 0x23, CHR 0x26} = {}" using enc by auto
  from query_params_add [OF one(1) state_name(1) this] query_params_add [OF assms(2) state_name(2) assms(3)] dec
  show ?thesis unfolding url by simp
qed

theorem client_state_returned_witness:
  "\<exists>enc. query_params (callback_url \<lparr>pa_client_id = ''c'', pa_redirect_uri = ''https://a/?x=1'', pa_client_state = Some ''a&b =%'', pa_code_challenge = ''v'',
       pa_code_challenge_method = ''S256'', pa_google_csrf = ''x'', pa_google_verifier = ''y'', pa_expires_at = 0\<rparr> ''k'')
     = [(''x'', ''1''), (''code'', ''k''), (''state'', enc)] \<and> percent_decode enc = Some ''a&b =%''"
proof -
  have "query_params ''https://a/?x=1'' = [(''x'', ''1'')]" by code_simp
  with client_state_returned [where e = "\<lparr>pa_client_id = ''c'', pa_redirect_uri = ''https://a/?x=1'', pa_client_state = Some ''a&b =%'', pa_code_challenge = ''v'',
       pa_code_challenge_method = ''S256'', pa_google_csrf = ''x'', pa_google_verifier = ''y'', pa_expires_at = 0\<rparr>" and st = "''a&b =%''" and code = "''k''"]
  show ?thesis by (simp only: pending_auth.simps) (simp del: callback_url_def, blast)
qed

section \<open>Encoding by characters\<close>

text \<open>\<open>llm-memory-auth\<close>'s version writes the code point of a character after one percent sign.\<close>

definition code_point :: "rchar \<Rightarrow> nat" where
  "code_point c = (case c of [] \<Rightarrow> 0 | b # cs \<Rightarrow>
     (let n = (of_char b :: nat);
          lead = (if n < 128 then n else if n < 224 then n mod 32 else if n < 240 then n mod 16 else n mod 8)
      in foldl (\<lambda>a x. 64 * a + (of_char x :: nat) mod 64) lead cs))"

fun upper_hex :: "nat \<Rightarrow> string" where
  "upper_hex n = (if n < 16 then [hex_digit n] else upper_hex (n div 16) @ [hex_digit (n mod 16)])"

definition char_by_char :: "rchar \<Rightarrow> string" where
  "char_by_char c = (if length c = 1 \<and> unreserved (hd c) then c
     else CHR 0x25 # (if length (upper_hex (code_point c)) < 2 then ''0'' @ upper_hex (code_point c) else upper_hex (code_point c)))"

definition urlencoding_by_char :: "string \<Rightarrow> string" where
  "urlencoding_by_char s = concat (map char_by_char (chars s))"

lemma by_char_ascii:
  assumes "(of_char c :: nat) < 128"
  shows "char_by_char [c] = encode_byte c"
proof -
  have "(of_char c :: nat) div 16 < 16" "hex_digit 0 = CHR ''0''" using assms by (simp add: less_mult_imp_div_less) code_simp
  then show ?thesis using assms
    by (simp add: char_by_char_def encode_byte_def code_point_def Let_def)
qed

text \<open>The letter A of Hiragana, U+3042, comes back as the three digits 042.\<close>

lemma by_char_loses_state:
  "urlencoding_by_char (map char_of [227, 129, 130 :: nat]) = ''%3042''"
  "percent_decode (urlencoding_by_char (map char_of [227, 129, 130 :: nat])) = Some ''042''"
  "percent_decode (urlencoding (map char_of [227, 129, 130 :: nat])) = Some (map char_of [227, 129, 130 :: nat])"
proof -
  have h: "hex_digit 3 = CHR ''3''" "hex_digit 0 = CHR ''0''" "hex_digit 4 = CHR ''4''" "hex_digit 2 = CHR ''2''" by code_simp+
  have c: "chars (map char_of [227, 129, 130 :: nat]) = [map char_of [227, 129, 130 :: nat]]"
    by (simp add: is_cont_def)
  show e: "urlencoding_by_char (map char_of [227, 129, 130 :: nat]) = ''%3042''"
    unfolding urlencoding_by_char_def c by (simp add: char_by_char_def code_point_def Let_def h)
  show "percent_decode (urlencoding_by_char (map char_of [227, 129, 130 :: nat])) = Some ''042''"
    unfolding e by code_simp
qed (rule percent_decode_encode)

end
