(* ===== verification/Lm_Auth.thy ===== *)
theory Lm_Auth
  imports Lm_Transport Vp_Url
begin

text \<open>
  The authorization server of \<open>llm-memory-auth\<close> and the whole of \<open>llm-memory-server\<close> behind it. The session maps,
  the claims of a token and the forms are word for word those of \<open>vegapunk-memory-auth\<close>, and the records and
  session functions of \<open>Vp_Auth\<close> are used for them; the handlers differ (they accept malformed lists as empty, a
  missing client or redirect URI, and return Google's error texts) and are written out here.
\<close>

section \<open>The site\<close>

record site =
  st_mem :: lm_state
  st_pending :: "(string \<times> pending_auth) list"
  st_codes :: "(string \<times> auth_code) list"

record site_env =
  se_mem :: lm_env
  se_auth :: auth_env

text \<open>What Google answers, with the text of its errors.\<close>

record lm_google =
  lg_exchange :: "string \<Rightarrow> string \<Rightarrow> string + string"
  lg_userinfo :: "string \<Rightarrow> string + (string \<times> string option)"

type_synonym 'a oauth = "(site, response, 'a) act"

definition site_now :: "site_env \<Rightarrow> (site, 'e, int) act" where
  "site_now env s = (let m = st_mem s in
     (Inr (le_wall (se_mem env) (lm_reads m)), s\<lparr>st_mem := m\<lparr>lm_reads := Suc (lm_reads m)\<rparr>\<rparr>))"

definition site_ulid :: "site_env \<Rightarrow> (site, 'e, string) act" where
  "site_ulid env s = (let m = st_mem s in
     (Inr (le_ulid (se_mem env) (lm_ulids m)), s\<lparr>st_mem := m\<lparr>lm_ulids := Suc (lm_ulids m)\<rparr>\<rparr>))"

definition site_db :: "'a dbop \<Rightarrow> (site, 'e, storage_error + 'a) act" where
  "site_db f s = (case f (lm_db (st_mem s)) of (r, d) \<Rightarrow> (Inr r, s\<lparr>st_mem := (st_mem s)\<lparr>lm_db := d\<rparr>\<rparr>))"

definition refused :: "bool \<Rightarrow> string \<Rightarrow> string \<Rightarrow> unit oauth" where
  "refused b err desc = liftE (if b then Inl (BadRequest err desc) else Inr ())"

definition some_or :: "string \<Rightarrow> string \<Rightarrow> 'a option \<Rightarrow> 'a oauth" where
  "some_or err desc x = liftE (of_option (BadRequest err desc) x)"

definition db_or_server_error :: "'a dbop \<Rightarrow> 'a oauth" where
  "db_or_server_error f = seqA (site_db f) (\<lambda>r. liftE (case r of Inl e \<Rightarrow> Inl ServerError | Inr x \<Rightarrow> Inr x))"

text \<open>\<open>serde_json::from_str(..).unwrap_or_default()\<close>.\<close>

definition parsed_or_empty :: "site_env \<Rightarrow> string \<Rightarrow> string list" where
  "parsed_or_empty env tx = (case ae_parse_strings (se_auth env) tx of None \<Rightarrow> [] | Some xs \<Rightarrow> xs)"

section \<open>Registration (\<open>dcr.rs\<close>)\<close>

fun lm_check_redirect_uris :: "auth_env \<Rightarrow> string list \<Rightarrow> string + unit" where
  "lm_check_redirect_uris env [] = Inr ()"
| "lm_check_redirect_uris env (u # us) =
     bindE (of_option (''invalid redirect_uri: '' @ u) (ae_url env u)) (\<lambda>parsed.
     bindE (guardE (pu_scheme parsed = ''https'') (''redirect_uri must be https: '' @ u)) (\<lambda>_.
     bindE (guardE (pu_fragment parsed = None) (''redirect_uri must not contain a fragment: '' @ u)) (\<lambda>_.
     lm_check_redirect_uris env us)))"

definition lm_dcr_validate :: "auth_env \<Rightarrow> dcr_request \<Rightarrow> string + dcr_response" where
  "lm_dcr_validate env req =
     bindE (guardE (dr_redirect_uris req \<noteq> []) ''redirect_uris required'') (\<lambda>_.
     bindE (guardE (length (dr_redirect_uris req) \<le> MAX_REDIRECT_URIS)
              (''redirect_uris exceeds max '' @ show_int (int MAX_REDIRECT_URIS))) (\<lambda>_.
     bindE (lm_check_redirect_uris env (dr_redirect_uris req)) (\<lambda>_.
     bindE (case find (\<lambda>g. g \<notin> set ALLOWED_GRANT_TYPES) (dr_grant_types req) of
              None \<Rightarrow> Inr () | Some g \<Rightarrow> Inl (''grant_type not allowed: '' @ g)) (\<lambda>_.
     let meth = (case dr_auth_method req of None \<Rightarrow> ''none'' | Some m \<Rightarrow> m) in
     bindE (guardE (meth \<in> set ALLOWED_AUTH_METHODS) (''auth method not allowed: '' @ meth)) (\<lambda>_.
     Inr \<lparr>ds_client_id = [], ds_redirect_uris = dr_redirect_uris req, ds_grant_types = dr_grant_types req,
          ds_auth_method = meth, ds_client_name = dr_client_name req\<rparr>)))))"

definition lm_register :: "site_env \<Rightarrow> dcr_request \<Rightarrow> response oauth" where
  "lm_register env body =
     seqA (liftE (case lm_dcr_validate (se_auth env) body of
              Inl e \<Rightarrow> Inl (BadRequest ''invalid_client_metadata'' (''oauth error: '' @ e)) | Inr r \<Rightarrow> Inr r)) (\<lambda>resp.
     seqA (site_ulid env) (\<lambda>i.
     seqA (site_now env) (\<lambda>now.
     seqA (db_or_server_error (client_register i now (ae_strings_text (se_auth env) (ds_redirect_uris resp))
             (ae_strings_text (se_auth env) (ds_grant_types resp)) (ds_auth_method resp) (ds_client_name resp))) (\<lambda>client.
     okA (ClientCreated (resp\<lparr>ds_client_id := oc_id client\<rparr>))))))"

definition lm_metadata :: "site_env \<Rightarrow> json" where
  "lm_metadata env = metadata (se_auth env)"

section \<open>Session maps\<close>

definition lm_put_pending :: "site_env \<Rightarrow> string \<Rightarrow> pending_auth \<Rightarrow> unit oauth" where
  "lm_put_pending env k p = seqA (site_now env) (\<lambda>now s.
     (Inr (), s\<lparr>st_pending := put_session MAX_PENDING_AUTHS pa_expires_at k p now (st_pending s)\<rparr>))"

definition lm_take_pending :: "site_env \<Rightarrow> string \<Rightarrow> pending_auth option oauth" where
  "lm_take_pending env k = seqA (site_now env) (\<lambda>now s.
     (case take_session pa_expires_at k now (st_pending s) of (r, m) \<Rightarrow> (Inr r, s\<lparr>st_pending := m\<rparr>)))"

definition lm_put_code :: "site_env \<Rightarrow> string \<Rightarrow> auth_code \<Rightarrow> unit oauth" where
  "lm_put_code env k c = seqA (site_now env) (\<lambda>now s.
     (Inr (), s\<lparr>st_codes := put_session MAX_AUTH_CODES ac_expires_at k c now (st_codes s)\<rparr>))"

definition lm_take_code :: "site_env \<Rightarrow> string \<Rightarrow> auth_code option oauth" where
  "lm_take_code env k = seqA (site_now env) (\<lambda>now s.
     (case take_session ac_expires_at k now (st_codes s) of (r, m) \<Rightarrow> (Inr r, s\<lparr>st_codes := m\<rparr>)))"

section \<open>Authorization\<close>

definition lm_authorize :: "site_env \<Rightarrow> authorize_params \<Rightarrow> google_url \<Rightarrow> response oauth" where
  "lm_authorize env p g =
     seqA (refused (ap_response_type p \<noteq> ''code'') ''unsupported_response_type'' ''only response_type=code supported'') (\<lambda>_.
     seqA (refused (ap_code_challenge_method p \<noteq> ''S256'') ''invalid_request'' ''code_challenge_method must be S256'') (\<lambda>_.
     seqA (site_db (client_get (ap_client_id p))) (\<lambda>found.
     seqA (some_or ''invalid_client'' ''unknown client_id'' (case found of Inr (Some c) \<Rightarrow> Some c | _ \<Rightarrow> None)) (\<lambda>client.
     seqA (refused (ap_redirect_uri p \<notin> set (parsed_or_empty env (oc_redirect_uris client)))
             ''invalid_request'' ''redirect_uri not registered'') (\<lambda>_.
     seqA (refused (''authorization_code'' \<notin> set (parsed_or_empty env (oc_grant_types client)))
             ''unauthorized_client'' ''client did not register the authorization_code grant'') (\<lambda>_.
     seqA (site_now env) (\<lambda>t.
     seqA (site_db (client_touch_last_seen t (ap_client_id p))) (\<lambda>_.
     seqA (site_now env) (\<lambda>now.
     seqA (lm_put_pending env (gu_csrf g) \<lparr>pa_client_id = ap_client_id p, pa_redirect_uri = ap_redirect_uri p,
             pa_client_state = ap_state p, pa_code_challenge = ap_code_challenge p,
             pa_code_challenge_method = ap_code_challenge_method p, pa_google_csrf = gu_csrf g,
             pa_google_verifier = gu_verifier g, pa_expires_at = now + 10 * 60 * 1000\<rparr>) (\<lambda>_.
     okA (Redirect (gu_url g))))))))))))"

definition lm_callback_url :: "pending_auth \<Rightarrow> string \<Rightarrow> string" where
  "lm_callback_url p code =
     (let url = pa_redirect_uri p; sep = (if CHR 0x3F \<in> set url then CHR 0x26 else CHR 0x3F) in
      url @ [sep] @ ''code='' @ code
        @ (case pa_client_state p of None \<Rightarrow> [] | Some st \<Rightarrow> CHR 0x26 # ''state='' @ urlencoding_by_char st))"

definition lm_callback_google :: "site_env \<Rightarrow> lm_google \<Rightarrow> callback_params \<Rightarrow> response oauth" where
  "lm_callback_google env g p =
     seqA (lm_take_pending env (cb_state p)) (\<lambda>taken.
     seqA (some_or ''invalid_state'' ''no matching session'' taken) (\<lambda>pending.
     seqA (liftE (case lg_exchange g (cb_code p) (pa_google_verifier pending) of
              Inl e \<Rightarrow> Inl (BadRequest ''google_exchange_failed'' e) | Inr t \<Rightarrow> Inr t)) (\<lambda>access_token.
     seqA (liftE (case lg_userinfo g access_token of
              Inl e \<Rightarrow> Inl (BadRequest ''google_userinfo_failed'' e) | Inr i \<Rightarrow> Inr i)) (\<lambda>info.
     seqA (site_ulid env) (\<lambda>uid.
     seqA (site_now env) (\<lambda>t.
     seqA (db_or_server_error (users_upsert t uid ''google'' (fst info) (snd info))) (\<lambda>u.
     seqA (site_ulid env) (\<lambda>code.
     seqA (site_now env) (\<lambda>now.
     seqA (lm_put_code env code \<lparr>ac_user_id = u_id u, ac_client_id = pa_client_id pending,
             ac_redirect_uri = pa_redirect_uri pending, ac_code_challenge = pa_code_challenge pending,
             ac_code_challenge_method = pa_code_challenge_method pending,
             ac_expires_at = now + AUTH_CODE_TTL_SECS * 1000\<rparr>) (\<lambda>_.
     okA (Redirect (lm_callback_url pending code))))))))))))"

section \<open>Signing keys (\<open>jwt.rs\<close>)\<close>

text \<open>Here a variable that ends after the prefix names the empty kid.\<close>

fun lm_collect_keys :: "(string \<Rightarrow> string option) \<Rightarrow> (string \<times> string) list \<Rightarrow> jwt_keys \<Rightarrow> key_error + jwt_keys" where
  "lm_collect_keys unbase64 [] ks = Inr ks"
| "lm_collect_keys unbase64 ((k, v) # vars) ks =
     (if \<not> starts_with k key_variable then lm_collect_keys unbase64 vars ks
      else let kid = drop (length key_variable) k in
          bindE (of_option (InvalidBase64 kid) (unbase64 v)) (\<lambda>bytes.
          bindE (guardE (length bytes \<ge> MIN_HS256_KEY_BYTES) (ShortKey kid (length bytes))) (\<lambda>_.
          lm_collect_keys unbase64 vars
            \<lparr>jk_current = (if kid > jk_current ks then kid else jk_current ks),
             jk_keys = (kid, bytes) # remove_key kid (jk_keys ks)\<rparr>)))"

definition lm_keys_from_env :: "(string \<Rightarrow> string option) \<Rightarrow> (string \<times> string) list \<Rightarrow> key_error + jwt_keys" where
  "lm_keys_from_env unbase64 vars =
     bindE (lm_collect_keys unbase64 vars \<lparr>jk_current = [], jk_keys = []\<rparr>) (\<lambda>ks.
     bindE (guardE (jk_keys ks \<noteq> []) NoSigningKey) (\<lambda>_. Inr ks))"

definition lm_jwt_issue :: "site_env \<Rightarrow> string \<Rightarrow> string \<Rightarrow> int \<Rightarrow> (site, jwt_error, string) act" where
  "lm_jwt_issue env user_id client_id ttl =
     seqA (site_now env) (\<lambda>now. liftE (jwt_issue (se_auth env) user_id client_id ttl now))"

definition lm_jwt_verify :: "site_env \<Rightarrow> string \<Rightarrow> (site, jwt_error, jwt_claims) act" where
  "lm_jwt_verify env tok = seqA (site_now env) (\<lambda>now. liftE (jwt_verify (se_auth env) tok now))"

section \<open>Tokens\<close>

text \<open>A storage error is an unknown client here.\<close>

definition lm_client_grant_types :: "site_env \<Rightarrow> string \<Rightarrow> string list option oauth" where
  "lm_client_grant_types env client_id =
     seqA (site_db (client_get client_id)) (\<lambda>found.
     okA (case found of Inr (Some c) \<Rightarrow> Some (parsed_or_empty env (oc_grant_types c)) | _ \<Rightarrow> None))"

definition on_error :: "response \<Rightarrow> (site, 'e, 'a) act \<Rightarrow> 'a oauth" where
  "on_error e m s = (case m s of (Inl x, s') \<Rightarrow> (Inl e, s') | (Inr y, s') \<Rightarrow> (Inr y, s'))"

definition lm_issue_tokens :: "site_env \<Rightarrow> string \<Rightarrow> string \<Rightarrow> bool \<Rightarrow> response oauth" where
  "lm_issue_tokens env user_id client_id include_refresh =
     seqA (on_error ServerError (lm_jwt_issue env user_id client_id ACCESS_TOKEN_TTL_SECS)) (\<lambda>access.
     seqA (if include_refresh
           then seqA (site_ulid env) (\<lambda>r. seqA (site_now env) (\<lambda>now.
                seqA (db_or_server_error (create_refresh (ae_sha (se_auth env)) r user_id client_id (now + REFRESH_TOKEN_TTL_SECS * 1000))) (\<lambda>_.
                okA (Some r))))
           else okA None) (\<lambda>refresh.
     okA (Tokens \<lparr>tr_access_token = access, tr_token_type = ''Bearer'', tr_expires_in = ACCESS_TOKEN_TTL_SECS, tr_refresh_token = refresh\<rparr>)))"

text \<open>The code is used up first; the client and the redirect URI are compared when the form has them.\<close>

definition lm_redeem :: "site_env \<Rightarrow> token_form \<Rightarrow> auth_code oauth" where
  "lm_redeem env body =
     seqA (some_or ''invalid_request'' ''code required'' (tf_code body)) (\<lambda>code.
     seqA (some_or ''invalid_request'' ''code_verifier required (PKCE)'' (tf_code_verifier body)) (\<lambda>verifier.
     seqA (lm_take_code env code) (\<lambda>taken.
     seqA (some_or ''invalid_grant'' ''code unknown or expired'' taken) (\<lambda>entry.
     seqA (refused (ae_s256 (se_auth env) verifier \<noteq> ac_code_challenge entry) ''invalid_grant'' ''PKCE verifier mismatch'') (\<lambda>_.
     seqA (refused (case tf_client_id body of None \<Rightarrow> False | Some c \<Rightarrow> c \<noteq> ac_client_id entry)
             ''invalid_grant'' ''client_id mismatch'') (\<lambda>_.
     seqA (refused (case tf_redirect_uri body of None \<Rightarrow> False | Some r \<Rightarrow> r \<noteq> ac_redirect_uri entry)
             ''invalid_grant'' ''redirect_uri mismatch'') (\<lambda>_.
     okA entry)))))))"

definition lm_grant_auth_code :: "site_env \<Rightarrow> token_form \<Rightarrow> response oauth" where
  "lm_grant_auth_code env body =
     seqA (lm_redeem env body) (\<lambda>entry.
     seqA (lm_client_grant_types env (ac_client_id entry)) (\<lambda>g.
     seqA (some_or ''invalid_client'' ''unknown client_id'' g) (\<lambda>grants.
     lm_issue_tokens env (ac_user_id entry) (ac_client_id entry) (''refresh_token'' \<in> set grants))))"

definition lm_grant_refresh :: "site_env \<Rightarrow> token_form \<Rightarrow> response oauth" where
  "lm_grant_refresh env body =
     seqA (some_or ''invalid_request'' ''refresh_token required'' (tf_refresh_token body)) (\<lambda>tok.
     seqA (site_now env) (\<lambda>now.
     seqA (db_or_server_error (validate_and_revoke (ae_sha (se_auth env)) tok now)) (\<lambda>r.
     seqA (some_or ''invalid_grant'' ''refresh_token unknown or expired'' r) (\<lambda>uc.
     seqA (lm_client_grant_types env (snd uc)) (\<lambda>g.
     seqA (some_or ''invalid_client'' ''unknown client_id'' g) (\<lambda>grants.
     seqA (refused (''refresh_token'' \<notin> set grants) ''unauthorized_client''
             ''client did not register the refresh_token grant'') (\<lambda>_.
     lm_issue_tokens env (fst uc) (snd uc) True)))))))"

definition lm_token :: "site_env \<Rightarrow> token_form \<Rightarrow> response oauth" where
  "lm_token env body =
     (if tf_grant_type body = ''authorization_code'' then lm_grant_auth_code env body
      else if tf_grant_type body = ''refresh_token'' then lm_grant_refresh env body
      else errA (BadRequest ''unsupported_grant_type'' ''only authorization_code or refresh_token''))"

definition lm_revoke :: "site_env \<Rightarrow> string \<Rightarrow> response oauth" where
  "lm_revoke env tok =
     seqA (site_now env) (\<lambda>now. seqA (site_db (token_revoke (ae_sha (se_auth env)) tok now)) (\<lambda>_. okA Okay))"

section \<open>The bearer check (\<open>middleware.rs\<close>)\<close>

record lm_user =
  mu_user_id :: string
  mu_client_id :: string

definition lm_require_auth :: "site_env \<Rightarrow> string option \<Rightarrow> (site, http_refusal, lm_user) act" where
  "lm_require_auth env bearer =
     seqA (liftE (of_option Unauthorized bearer)) (\<lambda>tok.
     seqA (\<lambda>s. case lm_jwt_verify env tok s of (Inl e, s') \<Rightarrow> (Inl Unauthorized, s') | (Inr c, s') \<Rightarrow> (Inr c, s')) (\<lambda>claims.
     seqA (site_db (users_find_by_id (jc_sub claims))) (\<lambda>found.
     seqA (liftE (case found of Inl e \<Rightarrow> Inl InternalServerError | Inr u \<Rightarrow> Inr (u \<noteq> None))) (\<lambda>user_exists.
     seqA (liftE (guardE user_exists Unauthorized)) (\<lambda>_.
     okA \<lparr>mu_user_id = jc_sub claims, mu_client_id = jc_client_id claims\<rparr>)))))"

section \<open>Every request (\<open>app.rs\<close>)\<close>

datatype site_request =
    SRegister dcr_request
  | SAuthorize authorize_params google_url
  | SCallback callback_params lm_google
  | SToken token_form
  | SRevoke string
  | SMetadata
  | SMcp "string option" "json option"
  | SDeleteAccount "string option"
  | SHealth

datatype site_answer =
    AOauth response
  | ARefused http_refusal
  | AMcp http_answer
  | AAccount account_answer
  | AHealth

definition on_mem :: "(lm_state \<Rightarrow> 'r \<times> lm_state) \<Rightarrow> site \<Rightarrow> 'r \<times> site" where
  "on_mem m s = (case m (st_mem s) of (r, t) \<Rightarrow> (r, s\<lparr>st_mem := t\<rparr>))"

definition lm_oauth :: "response oauth \<Rightarrow> site \<Rightarrow> site_answer \<times> site" where
  "lm_oauth m s = (case m s of (Inl r, s') \<Rightarrow> (AOauth r, s') | (Inr r, s') \<Rightarrow> (AOauth r, s'))"

definition protected :: "site_env \<Rightarrow> string option \<Rightarrow> (lm_user \<Rightarrow> site \<Rightarrow> site_answer \<times> site) \<Rightarrow> site \<Rightarrow> site_answer \<times> site" where
  "protected env bearer f s = (case lm_require_auth env bearer s of
       (Inl e, s') \<Rightarrow> (ARefused e, s')
     | (Inr u, s') \<Rightarrow> f u s')"

definition site_serve :: "wording \<Rightarrow> site_env \<Rightarrow> site_request \<Rightarrow> site \<Rightarrow> site_answer \<times> site" where
  "site_serve wo env q = (case q of
       SRegister body \<Rightarrow> lm_oauth (lm_register env body)
     | SAuthorize p g \<Rightarrow> lm_oauth (lm_authorize env p g)
     | SCallback p g \<Rightarrow> lm_oauth (lm_callback_google env g p)
     | SToken body \<Rightarrow> lm_oauth (lm_token env body)
     | SRevoke tok \<Rightarrow> lm_oauth (lm_revoke env tok)
     | SMetadata \<Rightarrow> lm_oauth (okA (Metadata (lm_metadata env)))
     | SMcp bearer body \<Rightarrow> protected env bearer (\<lambda>u. seqR (on_mem (lm_handle wo (se_mem env) (mu_user_id u) body)) (\<lambda>r s. (AMcp r, s)))
     | SDeleteAccount bearer \<Rightarrow> protected env bearer (\<lambda>u. seqR (on_mem (delete_me (mu_user_id u))) (\<lambda>r s. (AAccount r, s)))
     | SHealth \<Rightarrow> Pair AHealth)"

end
