(* ===== verification/Lm_Isolation.thy ===== *)
theory Lm_Isolation
  imports Lm_Transport
begin

text \<open>
  What separates the users of \<open>llm-memory-server\<close>. Two states are alike for a user when they differ only in
  what belongs to others: their personal rows, rebuild slots and rate limits. \<open>secure\<close> says of an action that on
  alike states it answers the same and leaves alike states, and that it leaves what belongs to others as it was. It is
  proved for every tool but the search by composition; what a search answers may depend on the ranking of the whole
  table, and \<open>related\<close> carries that exception to whole requests.
\<close>

section \<open>What belongs to others\<close>

definition others :: "string \<Rightarrow> string \<Rightarrow> string \<Rightarrow> bool" where
  "others u sc ow \<longleftrightarrow> sc = ''personal'' \<and> ow \<noteq> u"

definition own :: "string \<Rightarrow> string \<Rightarrow> string \<Rightarrow> bool" where
  "own u sc ow \<longleftrightarrow> sc = ''personal'' \<and> ow = u"

definition seen_raws :: "string \<Rightarrow> raw list \<Rightarrow> raw list" where
  "seen_raws u = filter (\<lambda>r. \<not> others u (r_scope r) (r_owner r))"

definition seen_wikis :: "string \<Rightarrow> wiki list \<Rightarrow> wiki list" where
  "seen_wikis u = filter (\<lambda>w. \<not> others u (w_scope w) (w_owner w))"

definition seen_schemas :: "string \<Rightarrow> schema_row list \<Rightarrow> schema_row list" where
  "seen_schemas u = filter (\<lambda>s. \<not> others u (sc_scope s) (sc_owner s))"

definition same_view :: "string \<Rightarrow> db \<Rightarrow> db \<Rightarrow> bool" where
  "same_view u d d' \<longleftrightarrow> seen_raws u (t_raws d) = seen_raws u (t_raws d') \<and> seen_wikis u (t_wikis d) = seen_wikis u (t_wikis d')
     \<and> seen_schemas u (t_schemas d) = seen_schemas u (t_schemas d') \<and> t_shared d = t_shared d' \<and> faults d = faults d'"

text \<open>Identifiers to come are new, and no two notes share one.\<close>

definition fresh_ids :: "lm_env \<Rightarrow> lm_state \<Rightarrow> bool" where
  "fresh_ids env s \<longleftrightarrow> distinct (map r_id (t_raws (lm_db s))) \<and> (\<forall>n \<ge> lm_ulids s. le_ulid env n \<notin> r_id ` set (t_raws (lm_db s)))"

definition alike :: "lm_env \<Rightarrow> string \<Rightarrow> lm_state \<Rightarrow> lm_state \<Rightarrow> bool" where
  "alike env u s s' \<longleftrightarrow> same_view u (lm_db s) (lm_db s') \<and> slots (lm_coord s) (owner_personal u) = slots (lm_coord s') (owner_personal u)
     \<and> (\<forall>t. lm_buckets s (u, t) = lm_buckets s' (u, t)) \<and> lm_ulids s = lm_ulids s' \<and> lm_reads s = lm_reads s'
     \<and> lm_instants s = lm_instants s' \<and> fresh_ids env s \<and> fresh_ids env s'"

definition kept_apart :: "string \<Rightarrow> lm_state \<Rightarrow> lm_state \<Rightarrow> bool" where
  "kept_apart u s s' \<longleftrightarrow>
       filter (\<lambda>r. \<not> own u (r_scope r) (r_owner r)) (t_raws (lm_db s'))
         = filter (\<lambda>r. \<not> own u (r_scope r) (r_owner r)) (t_raws (lm_db s))
     \<and> filter (\<lambda>x. \<not> own u (sc_scope x) (sc_owner x)) (t_schemas (lm_db s'))
         = filter (\<lambda>x. \<not> own u (sc_scope x) (sc_owner x)) (t_schemas (lm_db s))
     \<and> t_wikis (lm_db s') = t_wikis (lm_db s) \<and> t_shared (lm_db s') = t_shared (lm_db s) \<and> t_users (lm_db s') = t_users (lm_db s)
     \<and> t_tokens (lm_db s') = t_tokens (lm_db s) \<and> t_clients (lm_db s') = t_clients (lm_db s)
     \<and> (\<forall>k. k \<noteq> owner_personal u \<longrightarrow> slots (lm_coord s') k = slots (lm_coord s) k)
     \<and> (\<forall>v t. v \<noteq> u \<longrightarrow> lm_buckets s' (v, t) = lm_buckets s (v, t))"

definition secure :: "lm_env \<Rightarrow> string \<Rightarrow> (lm_state \<Rightarrow> 'r \<times> lm_state) \<Rightarrow> bool" where
  "secure env u m \<longleftrightarrow> (\<forall>s s'. alike env u s s' \<longrightarrow> fst (m s) = fst (m s') \<and> alike env u (snd (m s)) (snd (m s')))
     \<and> (\<forall>s. kept_apart u s (snd (m s)))"

lemma kept_apart_refl [simp]: "kept_apart u s s"
  by (simp add: kept_apart_def)

lemma kept_apart_trans: "kept_apart u s s' \<Longrightarrow> kept_apart u s' s'' \<Longrightarrow> kept_apart u s s''"
  by (simp add: kept_apart_def)

lemma secureI:
  assumes "\<And>s s'. alike env u s s' \<Longrightarrow> fst (m s) = fst (m s') \<and> alike env u (snd (m s)) (snd (m s'))"
    "\<And>s. kept_apart u s (snd (m s))"
  shows "secure env u m"
  using assms by (simp add: secure_def)

lemma secureD:
  assumes "secure env u m" "alike env u s s'" "m s = (r, t)" "m s' = (r', t')"
  shows "r = r' \<and> alike env u t t'"
  using assms unfolding secure_def by (metis fst_conv snd_conv)

lemma secure_apart: "secure env u m \<Longrightarrow> m s = (r, t) \<Longrightarrow> kept_apart u s t"
  unfolding secure_def by (metis snd_conv)

section \<open>Composition\<close>

lemma secure_pure [simp, intro]: "secure env u (\<lambda>s. (r, s))"
  by (rule secureI) simp_all

lemma secure_okA [simp, intro]: "secure env u (okA x)" and secure_liftE [simp, intro]: "secure env u (liftE r)"
  unfolding okA_def liftE_def by simp_all

lemma secure_decoded [simp, intro]: "secure env u (decoded x)" and secure_allowed [simp, intro]: "secure env u (allowed b msg)"
  by (simp_all add: decoded_def allowed_def)

lemma apart_seqA:
  assumes m: "\<And>s. kept_apart u s (snd (m s))" and f: "\<And>x s. kept_apart u s (snd (f x s))"
  shows "kept_apart u s (snd (seqA m f s))"
proof -
  obtain r t where ms: "m s = (r, t)" by fastforce
  with m [of s] have "kept_apart u s t" by simp
  moreover have "kept_apart u t (snd (f x t))" for x by (rule f)
  ultimately show ?thesis by (cases r) (use ms in \<open>auto intro: kept_apart_trans\<close>)
qed

lemma secure_seqA [intro]:
  assumes m: "secure env u m" and f: "\<And>x. secure env u (f x)"
  shows "secure env u (seqA m f)"
proof (rule secureI)
  fix s s' assume a: "alike env u s s'"
  obtain r t where ms: "m s = (r, t)" by fastforce
  obtain r' t' where ms': "m s' = (r', t')" by fastforce
  from secureD [OF m a ms ms'] have e: "r = r'" "alike env u t t'" by simp_all
  show "fst (seqA m f s) = fst (seqA m f s') \<and> alike env u (snd (seqA m f s)) (snd (seqA m f s'))"
  proof (cases r)
    case (Inr x)
    then have "seqA m f s = f x t" "seqA m f s' = f x t'" using ms ms' e by simp_all
    moreover have "fst (f x t) = fst (f x t') \<and> alike env u (snd (f x t)) (snd (f x t'))" using f [of x] e(2) by (simp add: secure_def)
    ultimately show ?thesis by simp
  next
    case (Inl x)
    then have "seqA m f s = (Inl x, t)" "seqA m f s' = (Inl x, t')" using ms ms' e by simp_all
    with e(2) show ?thesis by simp
  qed
qed (use m f in \<open>auto intro!: apart_seqA simp: secure_def\<close>)

lemma secure_if [intro]: "secure env u a \<Longrightarrow> secure env u b \<Longrightarrow> secure env u (if c then a else b)"
  by simp

section \<open>Statements\<close>

lemma same_view_faults: "same_view u d d' \<Longrightarrow> same_view u (d\<lparr>faults := fs\<rparr>) (d'\<lparr>faults := fs\<rparr>)"
  by (simp add: same_view_def)

lemma alike_db: "alike env u s s' \<Longrightarrow> same_view u (lm_db s) (lm_db s')"
  by (simp add: alike_def)

text \<open>A statement on the database is secure when it is, leaving the notes, on databases seen alike.\<close>

definition apart_db :: "string \<Rightarrow> db \<Rightarrow> db \<Rightarrow> bool" where
  "apart_db u d d' \<longleftrightarrow> t_raws d' = t_raws d
     \<and> filter (\<lambda>x. \<not> own u (sc_scope x) (sc_owner x)) (t_schemas d')
         = filter (\<lambda>x. \<not> own u (sc_scope x) (sc_owner x)) (t_schemas d)
     \<and> t_wikis d' = t_wikis d \<and> t_shared d' = t_shared d \<and> t_users d' = t_users d \<and> t_tokens d' = t_tokens d \<and> t_clients d' = t_clients d"

lemma stmt_fst_snd:
  "stmt f d = (if faults d \<noteq> [] \<and> hd (faults d) then (Inl Sqlx, d\<lparr>faults := tl (faults d)\<rparr>) else f (d\<lparr>faults := tl (faults d)\<rparr>))"
  by (cases "faults d"; cases d) (auto simp: stmt_def)

lemma secure_on_stmt:
  assumes f: "\<And>d d'. same_view u d d' \<Longrightarrow> fst (f d) = fst (f d') \<and> same_view u (snd (f d)) (snd (f d'))"
    and k: "\<And>d. apart_db u d (snd (f d))"
  shows "secure env u (on_db (stmt f))"
proof (rule secureI)
  fix s :: lm_state
  have "apart_db u (lm_db s) (snd (stmt f (lm_db s)))"
    using k [of "lm_db s\<lparr>faults := tl (faults (lm_db s))\<rparr>"] by (auto simp: stmt_fst_snd apart_db_def)
  then show "kept_apart u s (snd (on_db (stmt f) s))"
    by (simp add: on_db_def split_beta kept_apart_def apart_db_def)
next
  fix s s' assume a: "alike env u s s'"
  let ?d = "lm_db s" and ?d' = "lm_db s'"
  have v: "same_view u ?d ?d'" by (rule alike_db [OF a])
  then have fs: "faults ?d = faults ?d'" by (simp add: same_view_def)
  define g where "g = tl (faults ?d')"
  define b where "b \<longleftrightarrow> faults ?d' \<noteq> [] \<and> hd (faults ?d')"
  have v': "same_view u (?d\<lparr>faults := g\<rparr>) (?d'\<lparr>faults := g\<rparr>)" by (rule same_view_faults [OF v])
  have "stmt f ?d = (if b then (Inl Sqlx, ?d\<lparr>faults := g\<rparr>) else f (?d\<lparr>faults := g\<rparr>))"
    "stmt f ?d' = (if b then (Inl Sqlx, ?d'\<lparr>faults := g\<rparr>) else f (?d'\<lparr>faults := g\<rparr>))"
    unfolding stmt_fst_snd fs g_def b_def by (rule refl)+
  then have r: "fst (stmt f ?d) = fst (stmt f ?d')" "same_view u (snd (stmt f ?d)) (snd (stmt f ?d'))"
    using f [OF v'] v' by simp_all
  have k': "t_raws (snd (stmt f d)) = t_raws d" for d :: db
    using k [of "d\<lparr>faults := tl (faults d)\<rparr>"] by (simp add: stmt_fst_snd apart_db_def)
  show "fst (on_db (stmt f) s) = fst (on_db (stmt f) s') \<and> alike env u (snd (on_db (stmt f) s)) (snd (on_db (stmt f) s'))"
    using a r by (simp add: on_db_def split_beta alike_def fresh_ids_def k')
qed

lemma secure_on_query:
  "(\<And>d d'. same_view u d d' \<Longrightarrow> f d = f d') \<Longrightarrow> secure env u (on_db (query f))"
  unfolding query_def by (rule secure_on_stmt) (simp_all add: apart_db_def)

lemma filter_seen: "(\<And>x. P x \<Longrightarrow> V x) \<Longrightarrow> filter P (filter V xs) = filter P xs"
  by (induction xs) auto

lemma find_seen: "(\<And>x. P x \<Longrightarrow> V x) \<Longrightarrow> find P (filter V xs) = find P xs"
  by (induction xs) auto

text \<open>An owner whose rows the user sees: itself, or a shared memory.\<close>

definition readable :: "string \<Rightarrow> scope \<Rightarrow> string \<Rightarrow> bool" where
  "readable u sc ow \<longleftrightarrow> \<not> others u (scope_as_str sc) ow"

lemma readable_simps [simp, intro]: "readable u Personal u" "readable u Shared ow"
  by (simp_all add: readable_def others_def)

lemma wikis_seen: "same_view u d d' \<Longrightarrow> readable u sc ow \<Longrightarrow> owner_wikis sc ow d = owner_wikis sc ow d'"
proof -
  assume r: "readable u sc ow" and v: "same_view u d d'"
  have "owner_wikis sc ow d = filter (\<lambda>w. w_scope w = scope_as_str sc \<and> w_owner w = ow) (seen_wikis u (t_wikis d))" for d :: db
    unfolding owner_wikis_def seen_wikis_def by (rule filter_seen [symmetric]) (use r in \<open>simp add: readable_def\<close>)
  with v show ?thesis by (simp add: same_view_def)
qed

lemma wiki_at_seen: "same_view u d d' \<Longrightarrow> readable u sc ow \<Longrightarrow> find (wiki_at sc ow c) (t_wikis d) = find (wiki_at sc ow c) (t_wikis d')"
proof -
  assume r: "readable u sc ow" and v: "same_view u d d'"
  have "find (wiki_at sc ow c) (t_wikis d) = find (wiki_at sc ow c) (seen_wikis u (t_wikis d))" for d :: db
    unfolding seen_wikis_def by (rule find_seen [symmetric]) (use r in \<open>simp add: readable_def wiki_at_def\<close>)
  with v show ?thesis by (simp add: same_view_def)
qed

lemma schema_seen: "same_view u d d' \<Longrightarrow> readable u sc ow \<Longrightarrow> find (schema_at sc ow) (t_schemas d) = find (schema_at sc ow) (t_schemas d')"
proof -
  assume r: "readable u sc ow" and v: "same_view u d d'"
  have "find (schema_at sc ow) (t_schemas d) = find (schema_at sc ow) (seen_schemas u (t_schemas d))" for d :: db
    unfolding seen_schemas_def by (rule find_seen [symmetric]) (use r in \<open>simp add: readable_def schema_at_def\<close>)
  with v show ?thesis by (simp add: same_view_def)
qed

lemma secure_reads [intro]:
  "readable u sc ow \<Longrightarrow> secure env u (on_db (wikis_get sc ow c))"
  "readable u sc ow \<Longrightarrow> secure env u (on_db (wikis_list_concepts sc ow))"
  "readable u sc ow \<Longrightarrow> secure env u (on_db (wikis_list_for_owner sc ow))"
  "readable u sc ow \<Longrightarrow> secure env u (on_db (schemas_get sc ow))"
  "secure env u (on_db shared_list_all)"
  unfolding wikis_get_def wikis_list_concepts_def wikis_list_for_owner_def schemas_get_def shared_list_all_def
  by (auto intro!: secure_on_query dest: wikis_seen wiki_at_seen schema_seen simp: same_view_def)

definition put_schema :: "string \<Rightarrow> int \<Rightarrow> string \<Rightarrow> schema_row list \<Rightarrow> schema_row list" where
  "put_schema u now c xs = (if \<exists>s \<in> set xs. schema_at Personal u s
      then map (\<lambda>s. if schema_at Personal u s then s\<lparr>sc_content := c, sc_updated_at := now\<rparr> else s) xs
      else xs @ [\<lparr>sc_scope = ''personal'', sc_owner = u, sc_content = c, sc_updated_at = now\<rparr>])"

lemma put_schema_seen: "seen_schemas u (put_schema u now c xs) = put_schema u now c (seen_schemas u xs)"
proof -
  have "(\<exists>s \<in> set xs. schema_at Personal u s) \<longleftrightarrow> (\<exists>s \<in> set (seen_schemas u xs). schema_at Personal u s)"
    by (auto simp: seen_schemas_def schema_at_def others_def)
  moreover have "seen_schemas u (map (\<lambda>s. if schema_at Personal u s then s\<lparr>sc_content := c, sc_updated_at := now\<rparr> else s) xs)
      = map (\<lambda>s. if schema_at Personal u s then s\<lparr>sc_content := c, sc_updated_at := now\<rparr> else s) (seen_schemas u xs)"
    by (induction xs) (auto simp: seen_schemas_def schema_at_def others_def)
  ultimately show ?thesis by (auto simp: put_schema_def seen_schemas_def others_def)
qed

lemma put_schema_kept:
  "filter (\<lambda>x. \<not> own u (sc_scope x) (sc_owner x)) (put_schema u now c xs)
     = filter (\<lambda>x. \<not> own u (sc_scope x) (sc_owner x)) xs"
proof -
  have "filter (\<lambda>x. \<not> own u (sc_scope x) (sc_owner x))
      (map (\<lambda>s. if schema_at Personal u s then s\<lparr>sc_content := c, sc_updated_at := now\<rparr> else s) xs)
    = filter (\<lambda>x. \<not> own u (sc_scope x) (sc_owner x)) xs"
    by (induction xs) (auto simp: schema_at_def own_def)
  then show ?thesis by (simp add: put_schema_def own_def)
qed

lemma secure_schemas_upsert [intro]: "secure env u (on_db (schemas_upsert now Personal u c))"
proof -
  have "schemas_upsert now Personal u c = stmt (\<lambda>d. (Inr (), d\<lparr>t_schemas := put_schema u now c (t_schemas d)\<rparr>))"
    unfolding schemas_upsert_def put_schema_def scope_as_str.simps ..
  moreover have "secure env u (on_db (stmt (\<lambda>d. (Inr (), d\<lparr>t_schemas := put_schema u now c (t_schemas d)\<rparr>))))"
    by (rule secure_on_stmt) (simp_all add: same_view_def apart_db_def put_schema_seen put_schema_kept)
  ultimately show ?thesis by simp
qed

section \<open>Clocks, rebuilds and limits\<close>

lemma secure_now [intro]: "secure env u (lm_now env)"
  by (rule secureI) (simp_all add: lm_now_def alike_def fresh_ids_def kept_apart_def)

lemma try_start_local:
  "m k = m' k \<Longrightarrow> snd (try_start m k md) = snd (try_start m' k md) \<and> fst (try_start m k md) k = fst (try_start m' k md) k"
  by (auto simp: try_start_def Let_def entry_or_default_def split: rebuild_mode.splits)

lemma try_start_other: "k' \<noteq> k \<Longrightarrow> fst (try_start m k md) k' = m k'"
  by (auto simp: try_start_def Let_def split: rebuild_mode.splits)

lemma slots_spawn [simp]: "slots (spawn_worker c k md) = slots c"
  by (simp add: spawn_worker_def)

lemma notify_append_slots:
  "slots (fst (notify_append c u)) = fst (try_start (slots c) (owner_personal u) Append)"
  "snd (notify_append c u) = (case snd (try_start (slots c) (owner_personal u) Append) of Started md \<Rightarrow> True | _ \<Rightarrow> False)"
  by (auto simp: notify_append_def Let_def split: prod.split start_outcome.split)

lemma request_manual_slots:
  "slots (fst (request_manual c u q)) = fst (try_start (slots c) (owner_personal u) (Manual q))"
  "snd (request_manual c u q) = (case snd (try_start (slots c) (owner_personal u) (Manual q)) of Started md \<Rightarrow> ManualStarted | _ \<Rightarrow> ManualPending)"
  by (auto simp: request_manual_def Let_def split: prod.split start_outcome.split)

lemma secure_coord:
  assumes "\<And>s. m s = (Inr (g (f (lm_coord s))), s\<lparr>lm_coord := h (lm_coord s)\<rparr>)"
    "\<And>c. f c = snd (try_start (slots c) (owner_personal u) md)" "\<And>c. slots (h c) = fst (try_start (slots c) (owner_personal u) md)"
  shows "secure env u m"
proof (rule secureI)
  fix s s' assume a: "alike env u s s'"
  then have "slots (lm_coord s) (owner_personal u) = slots (lm_coord s') (owner_personal u)" by (simp add: alike_def)
  from try_start_local [where m = "slots (lm_coord s)" and m' = "slots (lm_coord s')", OF this, of md] a
  show "fst (m s) = fst (m s') \<and> alike env u (snd (m s)) (snd (m s'))"
    by (simp add: assms alike_def fresh_ids_def)
qed (simp add: assms kept_apart_def try_start_other)

lemma secure_notify [intro]: "secure env u (lm_notify u)"
  by (rule secure_coord [where f = "\<lambda>c. snd (try_start (slots c) (owner_personal u) Append)" and h = "\<lambda>c. fst (notify_append c u)"
        and g = "\<lambda>r. case r of Started md \<Rightarrow> True | _ \<Rightarrow> False"])
     (simp_all add: lm_notify_def split_beta notify_append_slots)

lemma secure_manual [intro]: "secure env u (lm_request_manual u q)"
  by (rule secure_coord [where f = "\<lambda>c. snd (try_start (slots c) (owner_personal u) (Manual q))" and h = "\<lambda>c. fst (request_manual c u q)"
        and g = "\<lambda>r. case r of Started md \<Rightarrow> ManualStarted | _ \<Rightarrow> ManualPending"])
     (simp_all add: lm_request_manual_def split_beta request_manual_slots)

lemma secure_check: "secure env u (lm_check env u t)"
proof (rule secureI)
  fix s s' assume a: "alike env u s s'"
  let ?now = "le_mono env (lm_instants s')"
  obtain ok bs where c: "rate_check (le_floats env) u t ?now (lm_buckets s) = (ok, bs)" by fastforce
  have "lm_buckets s (u, ti_name t) = lm_buckets s' (u, ti_name t)" using a by (simp add: alike_def)
  from rate_check_local [where bs = "lm_buckets s" and cs = "lm_buckets s'", OF this c] obtain bs' where c': "rate_check (le_floats env) u t ?now (lm_buckets s') = (ok, bs')"
    "bs' (u, ti_name t) = bs (u, ti_name t)" by blast
  have "bs (u, t') = bs' (u, t')" for t'
    using rate_check_frame [OF c, of "(u, t')"] rate_check_frame [OF c'(1), of "(u, t')"] c'(2) a
    by (cases "t' = ti_name t") (simp_all add: alike_def)
  then show "fst (lm_check env u t s) = fst (lm_check env u t s') \<and> alike env u (snd (lm_check env u t s)) (snd (lm_check env u t s'))"
    using a c c'(1) by (simp add: lm_check_def alike_def fresh_ids_def)
next
  fix s :: lm_state
  obtain ok bs where c: "rate_check (le_floats env) u t (le_mono env (lm_instants s)) (lm_buckets s) = (ok, bs)" by fastforce
  have "bs (v, t') = lm_buckets s (v, t')" if "v \<noteq> u" for v t'
    using rate_check_frame [OF c, of "(v, t')"] that by simp
  with c show "kept_apart u s (snd (lm_check env u t s))" by (simp add: lm_check_def kept_apart_def)
qed

section \<open>Notes\<close>

lemma find_id: "distinct (map r_id xs) \<Longrightarrow> find (\<lambda>r. r_id r = i) xs = Some r \<longleftrightarrow> r \<in> set xs \<and> r_id r = i"
  using find_distinct_key [of r_id xs r] by (auto dest: find_SomeD)

text \<open>Reading a note by its identifier: another user's note is as absent as one that does not exist.\<close>

definition read_note :: "string \<Rightarrow> string \<Rightarrow> raw list \<Rightarrow> tool_error + raw" where
  "read_note u i rs = (case find (\<lambda>r. r_id r = i) rs of
       None \<Rightarrow> Inl (Refused ''not found'')
     | Some r \<Rightarrow> if others u (r_scope r) (r_owner r) then Inl (Refused ''not found'') else Inr r)"

lemma read_note_seen:
  assumes "distinct (map r_id rs)"
  shows "read_note u i rs = of_option (Refused ''not found'') (find (\<lambda>r. r_id r = i) (seen_raws u rs))"
proof -
  have d: "distinct (map r_id (seen_raws u rs))" unfolding seen_raws_def by (rule distinct_map_filter [OF assms])
  have f: "find (\<lambda>r. r_id r = i) (seen_raws u rs) = Some r \<longleftrightarrow> find (\<lambda>r. r_id r = i) rs = Some r \<and> \<not> others u (r_scope r) (r_owner r)" for r
    unfolding find_id [OF d] find_id [OF assms] by (auto simp: seen_raws_def)
  show ?thesis
  proof (cases "find (\<lambda>r. r_id r = i) (seen_raws u rs)")
    case None
    with f have "\<forall>r. find (\<lambda>r. r_id r = i) rs = Some r \<longrightarrow> others u (r_scope r) (r_owner r)" by (metis option.distinct(1))
    with None show ?thesis by (simp add: read_note_def split: option.split)
  next
    case (Some r)
    with f [of r] have "find (\<lambda>r. r_id r = i) rs = Some r" "\<not> others u (r_scope r) (r_owner r)" by simp_all
    with Some show ?thesis by (simp add: read_note_def)
  qed
qed

lemma lm_raw_read_eq:
  "lm_raw_read u args = seqA (decoded (de_id_args args)) (\<lambda>i.
     seqA (on_db (query (\<lambda>d. read_note u i (t_raws d)))) (\<lambda>r. seqA (liftE r) (\<lambda>raw. okA (raw_json raw))))"
proof -
  have "seqA (on_db (raws_get i)) (\<lambda>r. seqA (liftE (of_option (Refused ''not found'') r)) (\<lambda>raw.
       seqA (allowed (\<not> (r_scope raw = ''personal'' \<and> r_owner raw \<noteq> u)) ''not found'') (\<lambda>_. okA (raw_json raw))))
     = seqA (on_db (query (\<lambda>d. read_note u i (t_raws d)))) (\<lambda>r. seqA (liftE r) (\<lambda>raw. okA (raw_json raw)))" for i
    by (rule ext)
       (auto simp: seqA_def on_db_def raws_get_def query_def stmt_fst_snd read_note_def others_def allowed_def guardE_def
         split: option.splits)
  then show ?thesis by (simp add: lm_raw_read_def)
qed

lemma secure_read_note [intro]: "secure env u (seqA (on_db (query (\<lambda>d. read_note u i (t_raws d)))) (\<lambda>r. seqA (liftE r) f))"
  if "\<And>x. secure env u (f x)" for f
proof (rule secureI)
  fix s s' assume a: "alike env u s s'"
  let ?m = "on_db (query (\<lambda>d. read_note u i (t_raws d)))"
  let ?seen = "\<lambda>d. of_option (Refused ''not found'') (find (\<lambda>r. r_id r = i) (seen_raws u (t_raws d)))"
  have q: "?m t = on_db (query ?seen) t" if "fresh_ids env t" for t :: lm_state
    using that by (simp add: on_db_def query_def stmt_fst_snd fresh_ids_def read_note_seen)
  have "secure env u (on_db (query ?seen))" by (rule secure_on_query) (simp add: same_view_def)
  then have sec: "secure env u (seqA (on_db (query ?seen)) (\<lambda>r. seqA (liftE r) f))" using that by blast
  have "fresh_ids env s" "fresh_ids env s'" using a by (simp_all add: alike_def)
  then have "seqA ?m (\<lambda>r. seqA (liftE r) f) s = seqA (on_db (query ?seen)) (\<lambda>r. seqA (liftE r) f) s"
    "seqA ?m (\<lambda>r. seqA (liftE r) f) s' = seqA (on_db (query ?seen)) (\<lambda>r. seqA (liftE r) f) s'"
    by (simp_all add: seqA_def q)
  with sec a show "fst (seqA ?m (\<lambda>r. seqA (liftE r) f) s) = fst (seqA ?m (\<lambda>r. seqA (liftE r) f) s')
      \<and> alike env u (snd (seqA ?m (\<lambda>r. seqA (liftE r) f) s)) (snd (seqA ?m (\<lambda>r. seqA (liftE r) f) s'))"
    by (simp add: secure_def)
next
  fix s
  show "kept_apart u s (snd (seqA (on_db (query (\<lambda>d. read_note u i (t_raws d)))) (\<lambda>r. seqA (liftE r) f) s))"
    using that by (intro apart_seqA) (simp_all add: on_db_def query_def stmt_fst_snd split_beta kept_apart_def secure_def)
qed

text \<open>Appending: the identifier is new in both states.\<close>

definition append_note :: "lm_env \<Rightarrow> string \<Rightarrow> append_args \<Rightarrow> raw lm" where
  "append_note env u a =
     seqA (lm_new_ulid env) (\<lambda>i.
     seqA (lm_now env) (\<lambda>now.
     on_db (raws_insert i now \<lparr>nr_scope = Personal, nr_owner = u, nr_title = aa_title a, nr_content = aa_content a,
             nr_source = aa_source a, nr_tags = map_option (\<lambda>t. le_print env (JArr (map JStr t))) (aa_tags a),
             nr_created_by = Some u\<rparr>)))"

definition new_note :: "lm_env \<Rightarrow> string \<Rightarrow> append_args \<Rightarrow> lm_state \<Rightarrow> raw" where
  "new_note env u a s = \<lparr>r_id = le_ulid env (lm_ulids s), r_scope = ''personal'', r_owner = u, r_title = aa_title a,
     r_content = aa_content a, r_source = aa_source a,
     r_tags = map_option (\<lambda>t. le_print env (JArr (map JStr t))) (aa_tags a), r_created_by = Some u,
     r_created_at = le_wall env (lm_reads s)\<rparr>"

lemma append_note_run:
  "append_note env u a s =
     (let d = lm_db s; d' = d\<lparr>faults := tl (faults d)\<rparr>; s' = s\<lparr>lm_ulids := Suc (lm_ulids s), lm_reads := Suc (lm_reads s)\<rparr> in
      if (faults d \<noteq> [] \<and> hd (faults d)) \<or> le_ulid env (lm_ulids s) \<in> r_id ` set (t_raws d)
      then (Inl (DbFailed Sqlx), s'\<lparr>lm_db := d'\<rparr>)
      else (Inr (new_note env u a s), s'\<lparr>lm_db := d'\<lparr>t_raws := t_raws d @ [new_note env u a s]\<rparr>\<rparr>))"
  by (auto simp: append_note_def seqA_def lm_new_ulid_def lm_now_def on_db_def raws_insert_def stmt_fst_snd new_note_def Let_def)

lemma secure_append_note:
  assumes "inj (le_ulid env)"
  shows "secure env u (append_note env u a)"
proof (rule secureI)
  fix s s' assume al: "alike env u s s'"
  then have f: "le_ulid env (lm_ulids s) \<notin> r_id ` set (t_raws (lm_db s))" "le_ulid env (lm_ulids s) \<notin> r_id ` set (t_raws (lm_db s'))"
    and n: "new_note env u a s' = new_note env u a s" and e: "lm_ulids s' = lm_ulids s" "faults (lm_db s') = faults (lm_db s)"
    by (auto simp: alike_def fresh_ids_def same_view_def new_note_def)
  have new: "r_id (new_note env u a s) = le_ulid env (lm_ulids s)" by (simp add: new_note_def)
  have i: "le_ulid env m \<noteq> le_ulid env (lm_ulids s)" if "m \<ge> Suc (lm_ulids s)" for m
    using that injD [OF assms, of m "lm_ulids s"] by auto
  show "fst (append_note env u a s) = fst (append_note env u a s')
      \<and> alike env u (snd (append_note env u a s)) (snd (append_note env u a s'))"
    using al f i unfolding append_note_run Let_def n e
    by (auto simp: alike_def same_view_def fresh_ids_def seen_raws_def new)
qed (auto simp: append_note_run Let_def kept_apart_def new_note_def own_def)

section \<open>The tools\<close>

lemma seqA_assoc: "seqA (seqA m f) g = seqA m (\<lambda>x. seqA (f x) g)"
  by (rule ext) (simp add: seqA_def split_beta split: sum.split)

lemma secure_raw_append: "inj (le_ulid env) \<Longrightarrow> secure env u (lm_raw_append env u args)"
proof -
  assume i: "inj (le_ulid env)"
  have "lm_raw_append env u args =
     seqA (decoded (de_append_args args)) (\<lambda>a.
     seqA (allowed (aa_title a \<noteq> [] \<and> aa_content a \<noteq> []) ''title and content required'') (\<lambda>_.
     seqA (allowed (length (aa_content a) \<le> MAX_CONTENT_BYTES) ''content exceeds 1 MB'') (\<lambda>_.
     seqA (append_note env u a) (\<lambda>r.
     seqA (lm_notify u) (\<lambda>started.
     okA (JObj [(''raw_id'', JStr (r_id r)), (''rebuild_started'', JBool started)]))))))"
    by (simp add: lm_raw_append_def append_note_def seqA_assoc)
  with secure_append_note [OF i] show ?thesis by (auto intro!: secure_seqA)
qed

lemma secure_raw_read: "secure env u (lm_raw_read u args)"
  unfolding lm_raw_read_eq by (intro secure_seqA secure_decoded secure_read_note secure_okA)

text \<open>
  The order of the hits is the full-text index's, and SQLite's \<open>bm25\<close> weighs words by the whole table. So the answer
  of a search may depend on rows of others, but only by the order of the notes the user sees anyway.
\<close>

lemma search_run:
  "on_db (search_raws fts q) s =
     (let d = lm_db s; s' = s\<lparr>lm_db := d\<lparr>faults := tl (faults d)\<rparr>\<rparr> in
      if faults d \<noteq> [] \<and> hd (faults d) then (Inl (DbFailed Sqlx), s')
      else (Inr (take (nat (clamp (sq_limit q) 1 100)) (filter
        (\<lambda>r. (case sq_scope q of None \<Rightarrow> True | Some sc \<Rightarrow> r_scope r = scope_as_str sc)
             \<and> (case sq_owner q of None \<Rightarrow> True | Some ow \<Rightarrow> r_owner r = ow))
        (fts (t_raws d) (fts5_escape (sq_query q))))), s'))"
  by (simp add: on_db_def search_raws_def query_def stmt_fst_snd Let_def)

definition ranked_alike :: "lm_env \<Rightarrow> string \<Rightarrow> db \<Rightarrow> db \<Rightarrow> bool" where
  "ranked_alike env u d d' \<longleftrightarrow> (\<forall>q. seen_raws u (le_fts env (t_raws d) q) = seen_raws u (le_fts env (t_raws d') q))"

lemma hits_ranked:
  assumes "ranked_alike env u (lm_db s) (lm_db s')" "faults (lm_db s') = faults (lm_db s)"
    and "sq_scope q = Some Personal \<and> sq_owner q = Some u \<or> sq_scope q = Some Shared"
  obtains r t t' where "lm_hits env b q s = (r, t)" "lm_hits env b q s' = (r, t')"
    "ranked_alike env u (lm_db t) (lm_db t')" "faults (lm_db t') = faults (lm_db t)"
proof -
  let ?P = "\<lambda>r. (case sq_scope q of None \<Rightarrow> True | Some s \<Rightarrow> r_scope r = scope_as_str s)
             \<and> (case sq_owner q of None \<Rightarrow> True | Some ow \<Rightarrow> r_owner r = ow)"
  have P: "?P r \<Longrightarrow> \<not> others u (r_scope r) (r_owner r)" for r using assms(3) by (auto simp: others_def)
  have f: "filter ?P xs = filter ?P (seen_raws u xs)" for xs
    unfolding seen_raws_def by (rule filter_seen [symmetric]) (rule P)
  have "filter ?P (le_fts env (t_raws (lm_db s)) m) = filter ?P (le_fts env (t_raws (lm_db s')) m)" for m
    by (subst (1 2) f) (use assms(1) in \<open>simp add: ranked_alike_def\<close>)
  then have "fst (lm_hits env b q s) = fst (lm_hits env b q s')"
    by (simp add: lm_hits_def search_run Let_def assms(2) okA_def)
  moreover have "t_raws (lm_db (snd (lm_hits env b q t))) = t_raws (lm_db t)"
    "faults (lm_db (snd (lm_hits env b q t))) = (if b then tl (faults (lm_db t)) else faults (lm_db t))" for t
    by (simp_all add: lm_hits_def search_run Let_def okA_def)
  ultimately show thesis
    using assms(1,2) by (intro that [OF prod.collapse [symmetric]]) (auto simp: ranked_alike_def prod_eq_iff)
qed

lemma search_ranked:
  assumes "alike env u s s'" "ranked_alike env u (lm_db s) (lm_db s')"
  shows "fst (lm_raw_search env u args s) = fst (lm_raw_search env u args s')"
proof -
  have f: "faults (lm_db s') = faults (lm_db s)" using assms(1) by (simp add: alike_def same_view_def)
  have "fst (seqA (lm_hits env b \<lparr>sq_query = w, sq_scope = Some Personal, sq_owner = Some u, sq_limit = n\<rparr>) (\<lambda>personal.
      seqA (lm_hits env b2 \<lparr>sq_query = w, sq_scope = Some Shared, sq_owner = None, sq_limit = n\<rparr>) (\<lambda>shared. okA (g personal shared))) s)
    = fst (seqA (lm_hits env b \<lparr>sq_query = w, sq_scope = Some Personal, sq_owner = Some u, sq_limit = n\<rparr>) (\<lambda>personal.
      seqA (lm_hits env b2 \<lparr>sq_query = w, sq_scope = Some Shared, sq_owner = None, sq_limit = n\<rparr>) (\<lambda>shared. okA (g personal shared))) s')"
    for b b2 w n and g :: "raw list \<Rightarrow> raw list \<Rightarrow> json"
  proof -
    let ?q = "\<lparr>sq_query = w, sq_scope = Some Personal, sq_owner = Some u, sq_limit = n\<rparr>"
    let ?q2 = "\<lparr>sq_query = w, sq_scope = Some Shared, sq_owner = None, sq_limit = n\<rparr>"
    obtain r t t' where t: "lm_hits env b ?q s = (r, t)" "lm_hits env b ?q s' = (r, t')"
      "ranked_alike env u (lm_db t) (lm_db t')" "faults (lm_db t') = faults (lm_db t)"
      by (rule hits_ranked [OF assms(2) f, of ?q b]) simp_all
    obtain r2 v v' where v: "lm_hits env b2 ?q2 t = (r2, v)" "lm_hits env b2 ?q2 t' = (r2, v')"
      by (rule hits_ranked [OF t(3,4), of ?q2 b2]) simp_all
    show ?thesis by (cases r; cases r2) (simp_all add: t v okA_def)
  qed
  then show ?thesis
    by (cases "de_search_args args")
       (auto simp: lm_raw_search_def decoded_def parse_scope_arg_def liftE_def Let_def seqA_def [of "\<lambda>s. (r, s)" for r] split: option.splits)
qed

lemma fts_okD: "fts_ok fts \<Longrightarrow> x \<in> set (fts rs q) \<Longrightarrow> x \<in> set rs"
  by (auto simp: fts_ok_def)

lemma search_hits:
  assumes "fts_ok (le_fts env)" "fst (lm_raw_search env u args s) = Inr v"
  shows "\<exists>rs. v = JObj [(''results'', JArr (map raw_json rs))] \<and> set rs \<subseteq> set (seen_raws u (t_raws (lm_db s)))"
proof -
  have h: "set hs \<subseteq> set (seen_raws u (t_raws (lm_db t))) \<and> t_raws (lm_db t') = t_raws (lm_db t)"
    if "lm_hits env b q t = (Inr hs, t')" "sq_scope q = Some Personal \<and> sq_owner q = Some u \<or> sq_scope q = Some Shared" for b q t t' hs
    using that fts_okD [OF assms(1)]
    by (auto simp: lm_hits_def search_run okA_def Let_def seen_raws_def others_def dest!: in_set_takeD split: if_splits)
  obtain s' where "lm_raw_search env u args s = (Inr v, s')" using assms(2) by (metis prod.collapse)
  then obtain a sc s1 s2 hs hs2 s3 where r: "decoded (de_search_args args) s = (Inr a, s1)" "parse_scope_arg (sa_scope a) s1 = (Inr sc, s2)"
    "lm_hits env (scope_has Personal sc) \<lparr>sq_query = sa_query a, sq_scope = Some Personal, sq_owner = Some u,
       sq_limit = clamp (case sa_limit a of None \<Rightarrow> 20 | Some l \<Rightarrow> l) 1 100\<rparr> s2 = (Inr hs, s3)"
    "lm_hits env (scope_has Shared sc) \<lparr>sq_query = sa_query a, sq_scope = Some Shared, sq_owner = None,
       sq_limit = clamp (case sa_limit a of None \<Rightarrow> 20 | Some l \<Rightarrow> l) 1 100\<rparr> s3 = (Inr hs2, s')"
    "v = JObj [(''results'', JArr (map raw_json (take (nat (clamp (case sa_limit a of None \<Rightarrow> 20 | Some l \<Rightarrow> l) 1 100)) (hs @ hs2))))]"
    unfolding lm_raw_search_def Let_def seqA_Inr_iff by (auto simp: okA_def)
  have "s2 = s" using r(1,2) by (auto simp: decoded_def parse_scope_arg_def liftE_def)
  with h [OF r(3)] h [OF r(4)] have "set (hs @ hs2) \<subseteq> set (seen_raws u (t_raws (lm_db s)))" by auto
  with r(5) show ?thesis by (blast dest: in_set_takeD)
qed

lemma secure_shared_wikis: "secure env u (lm_shared_wikis c sms)"
  by (induction sms) (auto intro!: secure_seqA)

lemma secure_shared_concepts: "secure env u (lm_shared_concepts sms)"
  by (induction sms) (auto intro!: secure_seqA)

lemma secure_wiki_read: "secure env u (lm_wiki_read u args)"
  unfolding lm_wiki_read_def parse_scope_arg_def by (auto intro!: secure_seqA secure_shared_wikis)

lemma secure_wiki_list: "secure env u (lm_wiki_list u args)"
  unfolding lm_wiki_list_def parse_scope_arg_def by (auto intro!: secure_seqA secure_shared_concepts)

lemma secure_wiki_rebuild: "secure env u (lm_wiki_rebuild u args)"
  unfolding lm_wiki_rebuild_def by (auto intro!: secure_seqA)

lemma secure_schema_read: "secure env u (lm_schema_read u args)"
proof -
  have "secure env u (seqA (liftE (if fst a = ''personal'' then Inr (Personal, u)
                  else if fst a = ''shared'' then
                    bindE (of_option (Refused ''shared_memory_id required'') (snd a)) (\<lambda>i. Inr (Shared, i))
                  else Inl (Refused (''invalid scope: '' @ fst a)))) (\<lambda>so.
     seqA (on_db (schemas_get (fst so) (snd so))) (\<lambda>content.
     okA (JObj [(''content'', json_opt JStr content)]))))" for a
  proof -
    have l: "secure env u (seqA (liftE r) f)" if "\<And>x. r = Inr x \<Longrightarrow> secure env u (f x)" for r f
      using that by (cases r) (auto simp: seqA_def)
    show ?thesis by (rule l) (auto intro!: secure_seqA split: if_splits)
  qed
  then show ?thesis unfolding lm_schema_read_def by (rule secure_seqA [OF secure_decoded])
qed

lemma secure_schema_update: "secure env u (lm_schema_update env u args)"
  unfolding lm_schema_update_def by (auto intro!: secure_seqA)

lemma secure_export: "secure env u (lm_export env u args)"
proof -
  have q: "secure env u (on_db (export_query u n i))" for n i
  proof -
    have "filter (\<lambda>r. r_scope r = ''personal'' \<and> r_owner r = u \<and> after_cursor n i r) (t_raws d)
        = filter (\<lambda>r. r_scope r = ''personal'' \<and> r_owner r = u \<and> after_cursor n i r) (seen_raws u (t_raws d))" for d :: db
      unfolding seen_raws_def by (rule filter_seen [symmetric]) (simp add: others_def)
    then show ?thesis unfolding export_query_def by (intro secure_on_query) (simp add: same_view_def)
  qed
  have "secure env u (export_extras u n i)" for n i
    unfolding export_extras_def by (auto intro!: secure_seqA)
  with q show ?thesis
    unfolding lm_export_def by (auto intro!: secure_seqA simp: split_beta)
qed

lemma secure_tool:
  assumes "inj (le_ulid env)" "name \<noteq> ''raw_search''" "lm_tool env u name args = Some m"
  shows "secure env u m"
  using assms
  by (auto simp: lm_tool_def secure_raw_append secure_raw_read secure_wiki_read secure_wiki_list
      secure_wiki_rebuild secure_schema_read secure_schema_update secure_export split: if_splits)

text \<open>Actions whose answers on alike states are related, and that leave alike states and what belongs to others.\<close>

definition related :: "lm_env \<Rightarrow> string \<Rightarrow> ('r \<Rightarrow> 'r \<Rightarrow> bool) \<Rightarrow> (lm_state \<Rightarrow> 'r \<times> lm_state) \<Rightarrow> (lm_state \<Rightarrow> 'r \<times> lm_state) \<Rightarrow> bool" where
  "related env u R m m' \<longleftrightarrow> (\<forall>s s'. alike env u s s' \<longrightarrow> R (fst (m s)) (fst (m' s')) \<and> alike env u (snd (m s)) (snd (m' s')))
     \<and> (\<forall>s. kept_apart u s (snd (m s)))"

lemma relatedD:
  assumes "related env u R m m'" "alike env u s s'"
  shows "R (fst (m s)) (fst (m' s')) \<and> alike env u (snd (m s)) (snd (m' s')) \<and> kept_apart u s (snd (m s))"
  using assms by (simp add: related_def)

lemma related_secure: "secure env u m \<Longrightarrow> related env u (=) m m"
  by (simp add: related_def secure_def)

lemma related_mono: "related env u R m m' \<Longrightarrow> (\<And>x y. R x y \<Longrightarrow> S x y) \<Longrightarrow> related env u S m m'"
  by (auto simp: related_def)

lemma related_run:
  assumes "related env u Q m m'" "\<And>x y. Q x y \<Longrightarrow> related env u R (f x) (f' y)"
    and k: "\<And>x s. kept_apart u s (snd (f x s))"
  shows "related env u R (\<lambda>s. case m s of (x, t) \<Rightarrow> f x t) (\<lambda>s. case m' s of (x, t) \<Rightarrow> f' x t)"
  using assms(1,2) unfolding related_def split_beta by (meson k kept_apart_trans)

lemma related_seqA:
  assumes m: "related env u (rel_sum (=) Q) m m'" and f: "\<And>x y. Q x y \<Longrightarrow> related env u (rel_sum (=) R) (f x) (f' y)"
    and k: "\<And>x s. kept_apart u s (snd (f x s))"
  shows "related env u (rel_sum (=) R) (seqA m f) (seqA m' f')"
proof -
  have e: "seqA m f = (\<lambda>s. case m s of (x, t) \<Rightarrow> (case x of Inl e \<Rightarrow> (Inl e, t) | Inr y \<Rightarrow> f y t))" for m f
    by (rule ext) (simp add: seqA_def split_beta split: sum.splits)
  show ?thesis
    unfolding e by (rule related_run [OF m]) (use f k in \<open>auto elim!: rel_sum.cases simp: related_def split: sum.splits\<close>)
qed

lemma related_eq_sum: "secure env u m \<Longrightarrow> related env u (rel_sum (=) (=)) m m"
  using related_secure [of env u m] by (simp add: sum.rel_eq)

lemma related_okA [simp, intro]: "R x y \<Longrightarrow> related env u (rel_sum (=) R) (okA x) (okA y)"
  by (simp add: related_def okA_def)

lemma related_pair [simp, intro]: "R x y \<Longrightarrow> related env u R (Pair x) (Pair y)"
  by (simp add: related_def)

text \<open>Whatever the index does, a search changes nothing for others and leaves alike states; it fails in both or in none.\<close>

lemma related_hits: "related env u (rel_sum (=) (\<lambda>_ _. True)) (lm_hits env b q) (lm_hits env b q)"
  unfolding related_def
proof (intro conjI allI impI)
  fix s s' assume a: "alike env u s s'"
  then have "faults (lm_db s') = faults (lm_db s)" by (simp add: alike_def same_view_def)
  with a show "rel_sum (=) (\<lambda>_ _. True) (fst (lm_hits env b q s)) (fst (lm_hits env b q s'))"
    "alike env u (snd (lm_hits env b q s)) (snd (lm_hits env b q s'))"
    by (auto simp: lm_hits_def search_run Let_def okA_def alike_def same_view_def fresh_ids_def)
qed (simp add: lm_hits_def search_run Let_def okA_def kept_apart_def)

lemma related_secure_seqA:
  assumes m: "secure env u m" and f: "\<And>x. related env u (rel_sum (=) R) (f x) (f x)"
  shows "related env u (rel_sum (=) R) (seqA m f) (seqA m f)"
  by (rule related_seqA [OF related_eq_sum [OF m]]) (use f in \<open>auto simp: related_def\<close>)

lemma related_raw_search: "related env u (\<lambda>_ _. True) (lm_raw_search env u args) (lm_raw_search env u args)"
proof -
  let ?R = "rel_sum (=) (\<lambda>_ _. True)"
  have k: "kept_apart u s (snd (lm_hits env b q s))" for b q s using related_hits [of env u b q] by (simp add: related_def)
  have h: "related env u ?R (seqA (lm_hits env b q) (\<lambda>x. okA (g x))) (seqA (lm_hits env b q) (\<lambda>x. okA (g' x)))"
    for b q and g g' :: "raw list \<Rightarrow> json"
    by (rule related_seqA [OF related_hits]) (auto simp: okA_def)
  have hh: "related env u ?R (seqA (lm_hits env b q) (\<lambda>x. seqA (lm_hits env b' q') (\<lambda>y. okA (g x y))))
     (seqA (lm_hits env b q) (\<lambda>x. seqA (lm_hits env b' q') (\<lambda>y. okA (g x y))))" for b b' q q' and g :: "raw list \<Rightarrow> raw list \<Rightarrow> json"
    by (rule related_seqA [OF related_hits h]) (auto intro!: apart_seqA k simp: okA_def)
  have "related env u ?R (lm_raw_search env u args) (lm_raw_search env u args)"
    unfolding lm_raw_search_def Let_def parse_scope_arg_def
    by (rule related_secure_seqA [OF secure_decoded], rule related_secure_seqA [OF secure_liftE], rule hh)
  then show ?thesis by (rule related_mono) simp
qed

section \<open>Requests\<close>

lemma secure_run [intro]:
  assumes m: "secure env u m" and f: "\<And>x. secure env u (f x)"
  shows "secure env u (\<lambda>s. case m s of (x, t) \<Rightarrow> f x t)"
proof (rule secureI)
  fix s s' assume a: "alike env u s s'"
  obtain x t x' t' where ms: "m s = (x, t)" "m s' = (x', t')" by fastforce
  from secureD [OF m a ms] f [of x]
  show "fst (case m s of (x, t) \<Rightarrow> f x t) = fst (case m s' of (x, t) \<Rightarrow> f x t)
      \<and> alike env u (snd (case m s of (x, t) \<Rightarrow> f x t)) (snd (case m s' of (x, t) \<Rightarrow> f x t))"
    by (simp add: ms secure_def)
next
  fix s
  obtain x t where ms: "m s = (x, t)" by fastforce
  from secure_apart [OF m ms] f [of x] show "kept_apart u s (snd (case m s of (x, t) \<Rightarrow> f x t))"
    by (auto simp: ms secure_def intro: kept_apart_trans)
qed

definition searches :: "jsonrpc_request \<Rightarrow> bool" where
  "searches req \<longleftrightarrow> jq_method req = ''tools/call'' \<and> call_name (jq_params req) = ''raw_search''"

definition searching :: "json \<Rightarrow> bool" where
  "searching e \<longleftrightarrow> (\<exists>req. de_request e = Some req \<and> searches req)"

text \<open>Two responses to one call of \<open>raw_search\<close>: they may differ in their results only.\<close>

definition same_call :: "bool \<Rightarrow> jsonrpc_response \<Rightarrow> jsonrpc_response \<Rightarrow> bool" where
  "same_call b r r' \<longleftrightarrow> r = r' \<or> b \<and> (\<exists>i v v'. r = rpc_success i v \<and> r' = rpc_success i v')"

definition same_entry :: "bool \<Rightarrow> outcome \<Rightarrow> outcome \<Rightarrow> bool" where
  "same_entry b x x' \<longleftrightarrow> x = x' \<or> b \<and> (\<exists>i v v'. x = Response (rpc_success i v) \<and> x' = Response (rpc_success i v'))"

fun same_but_searches :: "json list \<Rightarrow> outcome list \<Rightarrow> outcome list \<Rightarrow> bool" where
  "same_but_searches [] [] [] = True"
| "same_but_searches (e # es) (x # xs) (x' # xs') = (same_entry (searching e) x x' \<and> same_but_searches es xs xs')"
| "same_but_searches _ _ _ = False"

lemma related_call:
  assumes "inj (le_ulid env)"
  shows "related env u (rel_sum (=) (same_call (call_name params = ''raw_search''))) (lm_call env u i params) (lm_call env u i params)"
proof -
  let ?name = "call_name params"
  let ?R = "rel_sum (=) (same_call (?name = ''raw_search''))"
  let ?tool = "\<lambda>s. case lm_tool env u ?name (call_args params) of None \<Rightarrow> (Inl Unreachable, s)
      | Some m \<Rightarrow> (case m s of (r, s') \<Rightarrow> (Inr (rpc_success i (lm_result env ?name r)), s'))"
  have t: "related env u ?R ?tool ?tool"
  proof (cases "?name = ''raw_search''")
    case True
    then have "lm_tool env u ?name (call_args params) = Some (lm_raw_search env u (call_args params))" by (simp add: lm_tool_def)
    moreover have "related env u ?R (\<lambda>s. case lm_raw_search env u (call_args params) s of (r, s') \<Rightarrow> (Inr (rpc_success i (lm_result env ?name r)), s'))
       (\<lambda>s. case lm_raw_search env u (call_args params) s of (r, s') \<Rightarrow> (Inr (rpc_success i (lm_result env ?name r)), s'))"
      by (rule related_run [OF related_raw_search]) (auto simp: related_def same_call_def True)
    ultimately show ?thesis by simp
  next
    case False
    have "secure env u ?tool"
      using secure_tool [OF assms False] by (cases "lm_tool env u ?name (call_args params)") (auto intro: secure_run)
    from related_eq_sum [OF this] show ?thesis
      by (rule related_mono) (auto elim!: rel_sum.cases simp: same_call_def)
  qed
  let ?after = "\<lambda>ok s'. if \<not> ok then (Inr (rpc_success i (call_tool_result_err (''rate_limited: '' @ ti_name (tier_of ?name) @ '' tier''))), s')
       else ?tool s'"
  have a: "related env u ?R (?after ok) (?after ok)" for ok
    using t by (cases ok) (simp_all add: related_def same_call_def)
  have "related env u ?R (\<lambda>s. case lm_check env u (tier_of ?name) s of (ok, s') \<Rightarrow> ?after ok s')
     (\<lambda>s. case lm_check env u (tier_of ?name) s of (ok, s') \<Rightarrow> ?after ok s')"
    by (rule related_run [OF related_secure [OF secure_check]]) (use a in \<open>auto simp: related_def\<close>)
  then show ?thesis
    by (cases "is_known_tool ?name") (simp_all add: lm_call_def [abs_def] Let_def related_def same_call_def)
qed

lemma related_dispatch:
  assumes "inj (le_ulid env)"
  shows "related env u (rel_sum (=) (same_entry (searches req))) (lm_dispatch_one wo env u req) (lm_dispatch_one wo env u req)"
proof -
  have "related env u (rel_sum (=) (same_call (searches req))) (lm_method_response wo env u req) (lm_method_response wo env u req)"
  proof (cases "jq_method req = ''tools/call''")
    case True
    with related_call [OF assms, of u "jq_params req" "jq_id req"] show ?thesis by (simp add: lm_method_response_def searches_def)
  next
    case False
    then have "secure env u (lm_method_response wo env u req)" by (auto simp: lm_method_response_def Let_def)
    from related_eq_sum [OF this] show ?thesis by (rule related_mono) (auto elim!: rel_sum.cases simp: same_call_def)
  qed
  then have "related env u (rel_sum (=) (same_entry (searches req))) (seqA (lm_method_response wo env u req) (\<lambda>r. okA (Response r)))
      (seqA (lm_method_response wo env u req) (\<lambda>r. okA (Response r)))"
    by (rule related_seqA) (auto simp: same_call_def same_entry_def okA_def)
  then show ?thesis by (simp add: lm_dispatch_one_def same_entry_def)
qed

lemma related_outcomes:
  assumes "inj (le_ulid env)"
  shows "related env u (rel_sum (=) (same_but_searches es)) (rpc_outcomes wo (lm_dispatch_one wo env u) es)
    (rpc_outcomes wo (lm_dispatch_one wo env u) es)"
proof (induction es)
  case (Cons e es)
  let ?d = "lm_dispatch_one wo env u"
  have e: "related env u (rel_sum (=) (same_entry (searching e))) (rpc_entry wo ?d e) (rpc_entry wo ?d e)"
    using related_dispatch [OF assms, of u _ wo]
    by (auto simp: rpc_entry_def searching_def same_entry_def split: option.splits)
  have k: "kept_apart u s (snd (seqA (rpc_outcomes wo ?d es) (\<lambda>os. okA (x # os)) s))" for x s
    using Cons by (intro apart_seqA) (simp_all add: related_def okA_def)
  show ?case
    unfolding rpc_outcomes.simps
    by (rule related_seqA [OF e _ k], rule related_seqA [OF Cons]) (auto simp: okA_def)
qed simp

definition entries_of :: "json option \<Rightarrow> json list" where
  "entries_of body = (case body of None \<Rightarrow> [] | Some v \<Rightarrow> (case as_array v of None \<Rightarrow> [v] | Some es \<Rightarrow> es))"

lemma same_without_searches: "same_but_searches es os os' \<Longrightarrow> \<forall>e \<in> set es. \<not> searching e \<Longrightarrow> os = os'"
  by (induction es os os' rule: same_but_searches.induct) (auto simp: same_entry_def)

text \<open>The answer is made of the outcomes alone.\<close>

definition render :: "json option \<Rightarrow> 'p + outcome list \<Rightarrow> http_answer" where
  "render body r = (case r of Inl p \<Rightarrow> HttpBroken | Inr os \<Rightarrow>
     (let responses = List.map_filter into_response_value os in
      if responses = [] then HttpAccepted
      else if \<exists>es. body = Some (JArr es) then HttpJson (JArr responses) else HttpJson (hd responses)))"

lemma rpc_handle_render:
  assumes "body = Some v" "v \<noteq> JArr []"
  shows "rpc_handle wo dispatch body s = (case rpc_outcomes wo dispatch (entries_of body) s of (r, s') \<Rightarrow> (render body r, s'))"
  using assms by (cases "as_array v")
    (auto simp: rpc_handle_def entries_of_def render_def Let_def as_array_def split: prod.splits sum.splits json.splits)

lemma handle_related:
  assumes "inj (le_ulid env)" "alike env u s s'"
  shows "((\<forall>e \<in> set (entries_of body). \<not> searching e) \<longrightarrow> fst (lm_handle wo env u body s) = fst (lm_handle wo env u body s'))
    \<and> alike env u (snd (lm_handle wo env u body s)) (snd (lm_handle wo env u body s'))
    \<and> kept_apart u s (snd (lm_handle wo env u body s))"
proof (cases "\<exists>v. body = Some v \<and> v \<noteq> JArr []")
  case True
  then obtain v where v: "body = Some v" "v \<noteq> JArr []" by blast
  let ?o = "rpc_outcomes wo (lm_dispatch_one wo env u) (entries_of body)"
  from relatedD [OF related_outcomes [OF assms(1)] assms(2)]
  have r: "rel_sum (=) (same_but_searches (entries_of body)) (fst (?o s)) (fst (?o s'))"
    "alike env u (snd (?o s)) (snd (?o s'))" "kept_apart u s (snd (?o s))" by blast+
  have "fst (?o s) = fst (?o s')" if "\<forall>e \<in> set (entries_of body). \<not> searching e"
    using r(1) same_without_searches [OF _ that] by (cases rule: rel_sum.cases) auto
  with r(2,3) show ?thesis unfolding lm_handle_def rpc_handle_render [OF v] by (simp add: split_beta)
next
  case False
  then have "\<exists>a. \<forall>s. lm_handle wo env u body s = (a, s)"
    by (cases body) (auto simp: lm_handle_def rpc_handle_def as_array_def)
  with assms(2) show ?thesis by auto
qed

text \<open>
  C13. Users do not interfere. Take any two states that differ only in what belongs to others (their personal notes,
  wikis and schemas, rebuild slots, rate limits), and any entries or body a user sends: entry by entry the outcome is the
  same, except that two answers to a \<open>raw_search\<close> may differ in their results; a body without a search gets
  the same answer; what follows for this user is the same again; and nothing that belongs to others, nor any shared row,
  is changed. The exception is the ranking of a search: the full-text index may weigh words by the whole table, so
  notes of others can change the order (and, at the limit, the choice) of the hits. When it puts the notes the user sees
  in the same order in both states the answers are equal, and in any case every hit is a note the user sees.
\<close>
theorem memory_noninterference:
  assumes "inj (le_ulid env)" "alike env u s s'"
  shows "rel_sum (=) (same_but_searches es) (fst (rpc_outcomes wo (lm_dispatch_one wo env u) es s))
        (fst (rpc_outcomes wo (lm_dispatch_one wo env u) es s'))
    \<and> ((\<forall>e \<in> set (entries_of body). \<not> searching e) \<longrightarrow> fst (lm_handle wo env u body s) = fst (lm_handle wo env u body s'))
    \<and> alike env u (snd (lm_handle wo env u body s)) (snd (lm_handle wo env u body s'))
    \<and> kept_apart u s (snd (lm_handle wo env u body s))
    \<and> (ranked_alike env u (lm_db s) (lm_db s') \<longrightarrow> fst (lm_raw_search env u args s) = fst (lm_raw_search env u args s'))
    \<and> (fts_ok (le_fts env) \<longrightarrow> fst (lm_raw_search env u args s) = Inr v \<longrightarrow>
         (\<exists>rs. v = JObj [(''results'', JArr (map raw_json rs))] \<and> set rs \<subseteq> set (seen_raws u (t_raws (lm_db s)))))"
  using relatedD [OF related_outcomes [OF assms(1)] assms(2)] handle_related [OF assms] search_ranked [OF assms(2)] search_hits
  by blast

text \<open>Whether another user has the note \<open>3\<close> makes no difference to a user who asks for it.\<close>

definition sample_env :: lm_env where
  "sample_env = \<lparr>le_ulid = (\<lambda>n. replicate (n + 2) CHR ''0''), le_wall = (\<lambda>n. 9), le_mono = (\<lambda>n. n), le_floats = exact_floats,
     le_fts = (\<lambda>rs q. rs), le_print = (\<lambda>v. [])\<rparr>"

theorem memory_noninterference_witness:
  "let body = Some (JObj [(''jsonrpc'', JStr ''2.0''), (''id'', JInt 1), (''method'', JStr ''tools/call''),
       (''params'', JObj [(''name'', JStr ''raw_read''), (''arguments'', JObj [(''id'', JStr ''3'')])])]);
     wo = \<lparr>wo_serde = \<lambda>_. [], wo_debug = \<lambda>s. s, wo_version = ''0''\<rparr>;
     without = sample_db\<lparr>t_raws := filter (\<lambda>r. r_id r \<noteq> ''3'') (t_raws sample_db)\<rparr> in
   fst (lm_handle wo sample_env ''u'' body (sample_state sample_db)) = fst (lm_handle wo sample_env ''u'' body (sample_state without))"
proof -
  let ?without = "sample_db\<lparr>t_raws := filter (\<lambda>r. r_id r \<noteq> ''3'') (t_raws sample_db)\<rparr>"
  let ?body = "Some (JObj [(''jsonrpc'', JStr ''2.0''), (''id'', JInt 1), (''method'', JStr ''tools/call''),
       (''params'', JObj [(''name'', JStr ''raw_read''), (''arguments'', JObj [(''id'', JStr ''3'')])])])"
  have i: "inj (le_ulid sample_env)" by (rule injI) (simp add: sample_env_def)
  have n: "replicate (n + 2) CHR ''0'' \<noteq> [c]" for n :: nat and c by (cases n) simp_all
  have a: "alike sample_env ''u'' (sample_state sample_db) (sample_state ?without)"
    unfolding alike_def fresh_ids_def same_view_def seen_raws_def seen_wikis_def seen_schemas_def others_def
    by (auto simp: sample_state_def sample_db_def empty_db_def sample_raw_def sample_env_def n)
  have "\<forall>e \<in> set (entries_of ?body). \<not> searching e"
    by (auto simp: entries_of_def as_array_def searching_def searches_def de_request_def call_name_def de_fields_def de_req_def
        de_default_def split: option.splits)
  with memory_noninterference [OF i a] show ?thesis unfolding Let_def by blast
qed

end
