(* ===== verification/Lm_Site.thy ===== *)
theory Lm_Site
  imports Lm_Auth Lm_Isolation
begin

text \<open>
  Invariants of the whole of \<open>llm-memory-server\<close>. \<open>memory_invariant\<close> is the interface of what its tools may do to the
  tables, \<open>site_invariant\<close> extends it by the statements of the authorization server, the deletion of an account
  and the check of bearers; inside them every request is proved to keep the invariant. They are interpreted on
  the constraints of the database and on what a deleted account leaves behind.
\<close>

section \<open>What tools do to the tables\<close>

definition note_ok :: "append_args \<Rightarrow> bool" where
  "note_ok a \<longleftrightarrow> aa_title a \<noteq> [] \<and> aa_content a \<noteq> [] \<and> length (aa_content a) \<le> MAX_CONTENT_BYTES"

lemma same_tables_iff:
  "same_tables d d' \<longleftrightarrow> t_raws d' = t_raws d \<and> t_wikis d' = t_wikis d \<and> t_schemas d' = t_schemas d \<and> t_shared d' = t_shared d
     \<and> t_users d' = t_users d \<and> t_tokens d' = t_tokens d \<and> t_clients d' = t_clients d"
  by (cases d; cases d') (auto simp: same_tables_def)

text \<open>A path of the coordinator: any requests, sessions and clean-ups.\<close>

definition coord_path :: "coordinator \<Rightarrow> coordinator \<Rightarrow> bool" where
  "coord_path c c' \<longleftrightarrow> (\<exists>ls. coord_run c ls c')"

lemma coord_path_refl [simp]: "coord_path c c"
  by (auto simp: coord_path_def intro: coord_run.start)

lemma coord_path_step: "coord_path c c' \<Longrightarrow> coord_step c' l c'' \<Longrightarrow> coord_path c c''"
  by (auto simp: coord_path_def intro: coord_run.step)

lemma coord_path_trans:
  assumes "coord_path a b" "coord_path b c"
  shows "coord_path a c"
proof -
  from assms(2) obtain ls where "coord_run b ls c" by (auto simp: coord_path_def)
  then show ?thesis using assms(1) by induction (auto intro: coord_path_step)
qed

lemma coord_path_asked: "coord_path c (fst (notify_append c u))" "coord_path c (fst (request_manual c u q))"
  using coord_path_step [OF coord_path_refl] coord_step.notify coord_step.manual by blast+

locale memory_invariant =
  fixes M :: "lm_state \<Rightarrow> bool" and env :: lm_env and ok :: "string \<Rightarrow> bool"
  assumes frame: "M s \<Longrightarrow> same_tables (lm_db s) (lm_db s') \<Longrightarrow> lm_ulids s \<le> lm_ulids s' \<Longrightarrow>
      coord_path (lm_coord s) (lm_coord s') \<Longrightarrow> M s'"
    and noted: "M s \<Longrightarrow> ok u \<Longrightarrow> note_ok a \<Longrightarrow> r_id (new_note env u a s) \<notin> r_id ` set (t_raws (lm_db s)) \<Longrightarrow>
      M (s\<lparr>lm_ulids := Suc (lm_ulids s), lm_db := lm_db s\<lparr>t_raws := t_raws (lm_db s) @ [new_note env u a s]\<rparr>\<rparr>)"
    and schema: "M s \<Longrightarrow> ok u \<Longrightarrow> M (s\<lparr>lm_db := lm_db s\<lparr>t_schemas := put_schema u now c (t_schemas (lm_db s))\<rparr>\<rparr>)"
begin

lemma still:
  assumes "\<And>s. same_tables (lm_db s) (lm_db (snd (m s))) \<and> lm_ulids s \<le> lm_ulids (snd (m s))
      \<and> coord_path (lm_coord s) (lm_coord (snd (m s)))"
  shows "keeps M m"
  unfolding keeps_def using frame assms by blast

lemma keeps_read_only [intro]: "read_only f \<Longrightarrow> keeps M (on_db f)"
  by (rule still) (simp add: on_db_def split_beta read_only_def)

lemma keeps_still [intro]:
  "keeps M (lm_now env)" "keeps M (lm_notify v)" "keeps M (lm_request_manual v q)" "keeps M (lm_check env v t)"
  by (rule still, auto simp: lm_now_def lm_notify_def lm_request_manual_def lm_check_def split_beta coord_path_asked)+

lemma keeps_append:
  assumes "ok u" "note_ok a"
  shows "keeps M (append_note env u a)"
  unfolding keeps_def
proof (intro allI impI)
  fix s assume s: "M s"
  let ?d = "lm_db s"
  show "M (snd (append_note env u a s))"
  proof (cases "(faults ?d \<noteq> [] \<and> hd (faults ?d)) \<or> le_ulid env (lm_ulids s) \<in> r_id ` set (t_raws ?d)")
    case True
    then show ?thesis by (intro frame [OF s]) (auto simp: append_note_run Let_def same_tables_iff)
  next
    case False
    then have "r_id (new_note env u a s) \<notin> r_id ` set (t_raws ?d)" by (simp add: new_note_def)
    from noted [OF s assms this] False show ?thesis
      by (elim frame) (auto simp: append_note_run Let_def same_tables_iff)
  qed
qed

lemma keeps_schemas_upsert:
  assumes "ok u"
  shows "keeps M (on_db (schemas_upsert now Personal u c))"
  unfolding keeps_def
proof (intro allI impI)
  fix s assume s: "M s"
  have e: "schemas_upsert now Personal u c = stmt (\<lambda>d. (Inr (), d\<lparr>t_schemas := put_schema u now c (t_schemas d)\<rparr>))"
    unfolding schemas_upsert_def put_schema_def scope_as_str.simps ..
  show "M (snd (on_db (schemas_upsert now Personal u c) s))"
  proof (cases "faults (lm_db s) \<noteq> [] \<and> hd (faults (lm_db s))")
    case True
    then show ?thesis by (intro frame [OF s]) (auto simp: e on_db_def stmt_fst_snd same_tables_iff)
  next
    case False
    with schema [OF s assms, of now c] show ?thesis
      by (elim frame) (auto simp: e on_db_def stmt_fst_snd same_tables_iff)
  qed
qed

lemma keeps_raw_append:
  assumes "ok u"
  shows "keeps M (lm_raw_append env u args)"
proof -
  have "lm_raw_append env u args =
     seqA (decoded (de_append_args args)) (\<lambda>a.
     seqA (allowed (aa_title a \<noteq> [] \<and> aa_content a \<noteq> []) ''title and content required'') (\<lambda>_.
     seqA (allowed (length (aa_content a) \<le> MAX_CONTENT_BYTES) ''content exceeds 1 MB'') (\<lambda>_.
     seqA (append_note env u a) (\<lambda>r.
     seqA (lm_notify u) (\<lambda>started.
     okA (JObj [(''raw_id'', JStr (r_id r)), (''rebuild_started'', JBool started)]))))))"
    by (simp add: lm_raw_append_def append_note_def seqA_assoc)
  then show ?thesis unfolding allowed_def decoded_def
    by (auto intro!: keeps_seq_liftE keeps_seqA keeps_append assms simp: note_ok_def)
qed

lemma keeps_hits: "keeps M (lm_hits env b q)"
  by (auto simp: lm_hits_def)

lemma keeps_shared: "keeps M (lm_shared_wikis c sms)" "keeps M (lm_shared_concepts sms)"
  by (induction sms) (auto intro!: keeps_seqA)

lemma read_only_rest [intro]: "read_only (wikis_list_for_owner sc ow)" "read_only (schemas_get sc ow)" "read_only shared_list_all"
  "read_only (export_query v n j)"
  by (simp_all add: wikis_list_for_owner_def schemas_get_def shared_list_all_def export_query_def)

lemma keeps_tool:
  assumes "ok u" "lm_tool env u name args = Some m"
  shows "keeps M m"
proof -
  have "keeps M (lm_raw_read u args)"
    unfolding lm_raw_read_def allowed_def decoded_def by (auto intro!: keeps_seqA)
  moreover have "keeps M (lm_raw_search env u args)"
    unfolding lm_raw_search_def decoded_def parse_scope_arg_def Let_def by (auto intro!: keeps_seqA keeps_hits)
  moreover have "keeps M (lm_wiki_read u args)"
    unfolding lm_wiki_read_def decoded_def parse_scope_arg_def by (auto intro!: keeps_seqA keeps_shared)
  moreover have "keeps M (lm_wiki_list u args)"
    unfolding lm_wiki_list_def decoded_def parse_scope_arg_def by (auto intro!: keeps_seqA keeps_shared)
  moreover have "keeps M (lm_wiki_rebuild u args)"
    unfolding lm_wiki_rebuild_def decoded_def allowed_def by (auto intro!: keeps_seqA)
  moreover have "keeps M (lm_schema_read u args)"
    unfolding lm_schema_read_def decoded_def by (auto intro!: keeps_seqA)
  moreover have "keeps M (lm_schema_update env u args)"
    unfolding lm_schema_update_def decoded_def by (auto intro!: keeps_seqA keeps_schemas_upsert assms(1))
  moreover have "keeps M (export_extras u n j)" for n j
    unfolding export_extras_def by (auto intro!: keeps_seqA)
  then have "keeps M (lm_export env u args)"
    unfolding lm_export_def decoded_def by (auto intro!: keeps_seqA simp: split_beta)
  ultimately show ?thesis using assms(2) keeps_raw_append [OF assms(1)] by (auto simp: lm_tool_def split: if_splits)
qed

lemma keeps_call:
  assumes "ok u"
  shows "keeps M (lm_call env u i params)"
  unfolding keeps_def
proof (intro allI impI)
  fix s assume s: "M s"
  obtain b s' where c: "lm_check env u (tier_of (call_name params)) s = (b, s')" by fastforce
  with s have s': "M s'" using keepsD [OF keeps_still(4)] by blast
  have "M (snd (m s'))" if "lm_tool env u (call_name params) (call_args params) = Some m" for m
    using keeps_tool [OF assms that] s' by (simp add: keeps_def)
  with s s' c show "M (snd (lm_call env u i params s))"
    by (auto simp: lm_call_def Let_def split_beta split: option.splits)
qed

lemma keeps_handle:
  assumes "ok u"
  shows "keeps M (lm_handle wo env u body)"
proof -
  have "keeps M (lm_method_response wo env u req)" for req
    using keeps_call [OF assms] by (auto simp: lm_method_response_def Let_def)
  then have "keeps M (lm_dispatch_one wo env u req)" for req
    by (auto simp: lm_dispatch_one_def intro!: keeps_seqA)
  then show ?thesis unfolding lm_handle_def by (rule keeps_rpc_handle)
qed

end

section \<open>What the authorization server does to them\<close>

definition over_mem :: "(lm_state \<Rightarrow> bool) \<Rightarrow> site \<Rightarrow> bool" where
  "over_mem M s \<longleftrightarrow> M (st_mem s)"

definition db_act :: "lm_state \<Rightarrow> 'a dbop \<Rightarrow> lm_state" where
  "db_act s f = s\<lparr>lm_db := snd (f (lm_db s))\<rparr>"

lemma delete_cascade_tables:
  assumes "delete_cascade i d = (r, d')"
  shows "case r of Inr x \<Rightarrow> same_tables (without_account i d) d' | Inl e \<Rightarrow> same_tables d d'"
proof (cases r)
  case (Inl e)
  with assms show ?thesis by (simp add: delete_cascade_def transaction_Inl)
next
  case (Inr x)
  with assms obtain fs d1 fs' where b: "delete_stmts i (d\<lparr>faults := fs\<rparr>) = (Inr x, d1)" "d' = d1\<lparr>faults := fs'\<rparr>"
    by (auto simp: delete_cascade_def elim!: transaction_Inr)
  from delete_stmts_Inr [OF b(1)] b(2) Inr show ?thesis by (auto simp: same_tables_iff without_account_def)
qed

text \<open>An accepted bearer names a user of the table.\<close>

lemma accepted_user:
  "lm_require_auth env b s = (Inr u, s') \<Longrightarrow> mu_user_id u \<in> u_id ` set (t_users (lm_db (st_mem s')))"
  by (auto simp: lm_require_auth_def seqA_Inr_iff site_db_def users_find_by_id_def query_def stmt_fst_snd split_beta
      split: if_splits sum.splits dest!: find_SomeD intro: rev_image_eqI)

fun site_run :: "wording \<Rightarrow> site_env \<Rightarrow> site_request list \<Rightarrow> site \<Rightarrow> site" where
  "site_run wo env [] s = s"
| "site_run wo env (q # qs) s = site_run wo env qs (snd (site_serve wo env q s))"

locale site_invariant = memory_invariant M "se_mem env" ok for M and env :: site_env and ok +
  assumes account: "M s \<Longrightarrow> ok u \<Longrightarrow> M (s\<lparr>lm_db := without_account u (lm_db s)\<rparr>)"
    and caller: "M s \<Longrightarrow> u \<in> u_id ` set (t_users (lm_db s)) \<Longrightarrow> ok u"
    and login: "M s \<Longrightarrow> M (db_act (s\<lparr>lm_ulids := Suc (lm_ulids s)\<rparr>) (users_upsert t (le_ulid (se_mem env) (lm_ulids s)) p x e))"
    and client: "M s \<Longrightarrow> M (db_act s (client_register i t a b c nm))"
    and touch: "M s \<Longrightarrow> M (db_act s (client_touch_last_seen t i))"
    and refresh: "M s \<Longrightarrow> M (db_act s (create_refresh sha tok u i t))"
    and spend: "M s \<Longrightarrow> M (db_act s (validate_and_revoke sha tok t))"
    and retract: "M s \<Longrightarrow> M (db_act s (token_revoke sha tok t))"
begin

lemma keeps_site_db: "(\<And>s. M s \<Longrightarrow> M (db_act s f)) \<Longrightarrow> keeps (over_mem M) (site_db f)"
  by (simp add: keeps_def over_mem_def site_db_def split_beta db_act_def)

lemma keeps_db_or_server_error: "(\<And>s. M s \<Longrightarrow> M (db_act s f)) \<Longrightarrow> keeps (over_mem M) (db_or_server_error f)"
  by (auto simp: db_or_server_error_def intro!: keeps_seqA keeps_site_db)

lemma read_only_act: "read_only f \<Longrightarrow> M s \<Longrightarrow> M (db_act s f)"
  by (rule frame) (auto simp: db_act_def read_only_def)

lemma keeps_lookup [intro]: "keeps (over_mem M) (site_db (client_get i))" "keeps (over_mem M) (site_db (users_find_by_id i))"
  by (rule keeps_site_db, rule read_only_act, simp_all add: client_get_def users_find_by_id_def)+

lemma keeps_site_parts [intro]:
  "keeps (over_mem M) (site_now env)" "keeps (over_mem M) (site_ulid env)"
  by (auto simp: keeps_def over_mem_def site_now_def site_ulid_def Let_def elim!: frame)

lemma keeps_small [intro]:
  "keeps (over_mem M) (refused b err d)" "keeps (over_mem M) (some_or err d x)"
  by (simp_all add: refused_def some_or_def)

lemma keeps_sessions [intro]:
  "keeps (over_mem M) (lm_put_pending env k p)" "keeps (over_mem M) (lm_take_pending env k)"
  "keeps (over_mem M) (lm_put_code env k c)" "keeps (over_mem M) (lm_take_code env k)"
  unfolding lm_put_pending_def lm_take_pending_def lm_put_code_def lm_take_code_def
  by (rule keeps_seqA, rule keeps_site_parts, simp add: keeps_def over_mem_def split_beta)+

text \<open>A login: the identifier drawn for the user is the one the statement inserts.\<close>

lemma keeps_login:
  assumes "\<And>x. keeps (over_mem M) (f x)"
  shows "keeps (over_mem M) (seqA (site_ulid env) (\<lambda>uid. seqA (site_now env) (\<lambda>t.
     seqA (db_or_server_error (users_upsert t uid p x e)) f)))"
  unfolding keeps_def
proof (intro allI impI)
  fix s assume s: "over_mem M s"
  let ?m = "st_mem s"
  define s1 where "s1 = s\<lparr>st_mem := ?m\<lparr>lm_ulids := Suc (lm_ulids ?m), lm_reads := Suc (lm_reads ?m)\<rparr>\<rparr>"
  define ups where "ups = users_upsert (le_wall (se_mem env) (lm_reads ?m)) (le_ulid (se_mem env) (lm_ulids ?m)) p x e"
  obtain r d where u: "ups (lm_db ?m) = (r, d)" by fastforce
  have "M (db_act (?m\<lparr>lm_ulids := Suc (lm_ulids ?m)\<rparr>) ups)" using s login unfolding ups_def over_mem_def by blast
  then have "M (st_mem (s1\<lparr>st_mem := (st_mem s1)\<lparr>lm_db := d\<rparr>\<rparr>))"
    by (rule frame) (simp_all add: db_act_def u s1_def)
  then have m: "over_mem M (s1\<lparr>st_mem := (st_mem s1)\<lparr>lm_db := d\<rparr>\<rparr>)" by (simp add: over_mem_def)
  have "seqA (site_ulid env) (\<lambda>uid. seqA (site_now env) (\<lambda>t. seqA (db_or_server_error (users_upsert t uid p x e)) f)) s
      = seqA (db_or_server_error ups) f s1"
    by (simp add: seqA_def site_ulid_def site_now_def Let_def s1_def ups_def)
  moreover have "db_or_server_error ups s1 = (case r of Inl e \<Rightarrow> Inl ServerError | Inr y \<Rightarrow> Inr y, s1\<lparr>st_mem := (st_mem s1)\<lparr>lm_db := d\<rparr>\<rparr>)"
    by (simp add: db_or_server_error_def seqA_def site_db_def s1_def u)
  ultimately show "over_mem M (snd (seqA (site_ulid env) (\<lambda>uid. seqA (site_now env) (\<lambda>t.
      seqA (db_or_server_error (users_upsert t uid p x e)) f)) s))"
    using m assms by (cases r) (simp_all add: seqA_def keeps_def)
qed

lemma keeps_new_tokens: "keeps (over_mem M) (lm_issue_tokens env u i b)"
proof -
  have "keeps (over_mem M) (on_error ServerError (lm_jwt_issue env u i t))" for t
  proof -
    have "keeps (over_mem M) (lm_jwt_issue env u i t)" by (auto simp: lm_jwt_issue_def intro!: keeps_seqA)
    then show ?thesis by (auto simp: keeps_def on_error_def split_beta split: sum.split)
  qed
  moreover have "keeps (over_mem M) (db_or_server_error (create_refresh sha tok u i t))" for sha tok t
    by (rule keeps_db_or_server_error) (rule refresh)
  ultimately show ?thesis by (auto simp: lm_issue_tokens_def intro!: keeps_seqA)
qed

lemma keeps_grants: "keeps (over_mem M) (lm_client_grant_types env i)"
  by (auto simp: lm_client_grant_types_def intro!: keeps_seqA)

lemma keeps_token: "keeps (over_mem M) (lm_token env body)"
proof -
  have "keeps (over_mem M) (db_or_server_error (validate_and_revoke sha tok t))" for sha tok t
    by (rule keeps_db_or_server_error) (rule spend)
  then have "keeps (over_mem M) (lm_grant_refresh env body)"
    by (auto simp: lm_grant_refresh_def intro!: keeps_seqA keeps_new_tokens keeps_grants)
  moreover have "keeps (over_mem M) (lm_grant_auth_code env body)"
    by (auto simp: lm_grant_auth_code_def lm_redeem_def intro!: keeps_seqA keeps_new_tokens keeps_grants)
  ultimately show ?thesis by (simp add: lm_token_def)
qed

lemma keeps_authorize: "keeps (over_mem M) (lm_authorize env p g)"
proof -
  have "keeps (over_mem M) (site_db (client_touch_last_seen t i))" for t i
    by (rule keeps_site_db) (rule touch)
  then show ?thesis by (auto simp: lm_authorize_def intro!: keeps_seqA)
qed

lemma keeps_google: "keeps (over_mem M) (lm_callback_google env g p)"
  unfolding lm_callback_google_def by (intro keeps_seqA keeps_login) auto

lemma keeps_register: "keeps (over_mem M) (lm_register env body)"
proof -
  have "keeps (over_mem M) (db_or_server_error (client_register i t a b c nm))" for i t a b c nm
    by (rule keeps_db_or_server_error) (rule client)
  then show ?thesis by (auto simp: lm_register_def intro!: keeps_seqA)
qed

lemma keeps_revoke: "keeps (over_mem M) (lm_revoke env tok)"
proof -
  have "keeps (over_mem M) (site_db (token_revoke sha tok t))" for sha tok t
    by (rule keeps_site_db) (rule retract)
  then show ?thesis by (auto simp: lm_revoke_def intro!: keeps_seqA)
qed

lemma keeps_oauth: "keeps (over_mem M) m \<Longrightarrow> keeps (over_mem M) (lm_oauth m)"
  by (auto simp: keeps_def lm_oauth_def split_beta split: sum.split)

lemma keeps_delete_me:
  assumes "ok u"
  shows "keeps M (delete_me u)"
  unfolding keeps_def
proof (intro allI impI)
  fix s assume s: "M s"
  obtain r d where d: "delete_cascade u (lm_db s) = (r, d)" by fastforce
  have e: "snd (delete_me u s) = s\<lparr>lm_db := d\<rparr>"
    by (cases r) (simp_all add: delete_me_def on_db_def d)
  show "M (snd (delete_me u s))"
  proof (cases r)
    case (Inl x)
    then have "same_tables (lm_db s) d" using delete_cascade_tables [OF d] by simp
    then show ?thesis unfolding e by (intro frame [OF s]) simp_all
  next
    case (Inr x)
    then have "same_tables (without_account u (lm_db s)) d" using delete_cascade_tables [OF d] by simp
    then show ?thesis unfolding e by (intro frame [OF account [OF s assms]]) simp_all
  qed
qed

lemma keeps_protected:
  assumes "\<And>u. ok (mu_user_id u) \<Longrightarrow> keeps (over_mem M) (f u)"
  shows "keeps (over_mem M) (protected env b f)"
  unfolding keeps_def
proof (intro allI impI)
  fix s assume s: "over_mem M s"
  have "keeps (over_mem M) (lm_require_auth env b)"
  proof -
    have "keeps (over_mem M) (lm_jwt_verify env tok)" for tok by (auto simp: lm_jwt_verify_def intro!: keeps_seqA)
    then have "keeps (over_mem M) (\<lambda>s. case lm_jwt_verify env tok s of (Inl e, s') \<Rightarrow> (Inl Unauthorized, s') | (Inr c, s') \<Rightarrow> (Inr c, s'))" for tok
      by (auto simp: keeps_def split_beta split: sum.split)
    then show ?thesis unfolding lm_require_auth_def by (auto intro!: keeps_seqA)
  qed
  then have s': "over_mem M (snd (lm_require_auth env b s))" using s by (simp add: keeps_def)
  show "over_mem M (snd (protected env b f s))"
  proof (cases "lm_require_auth env b s")
    case (Pair r t)
    show ?thesis
    proof (cases r)
      case (Inr u)
      with Pair s' caller [of "st_mem t" "mu_user_id u"] accepted_user [of env b s u t]
      have "ok (mu_user_id u)" by (simp add: over_mem_def)
      with assms [of u] s' Pair Inr show ?thesis by (simp add: protected_def keeps_def)
    qed (use Pair s' in \<open>simp add: protected_def\<close>)
  qed
qed

lemma keeps_on_mem: "keeps M m \<Longrightarrow> keeps (over_mem M) (on_mem m)"
  by (simp add: keeps_def on_mem_def over_mem_def split_beta)

lemma keeps_serve: "keeps (over_mem M) (site_serve wo env q)"
proof (cases q)
  case (SMcp b body)
  have "keeps (over_mem M) (seqR (on_mem (lm_handle wo (se_mem env) u body)) (\<lambda>r s. (AMcp r, s)))" if "ok u" for u
    by (rule keeps_seqR [OF keeps_on_mem [OF keeps_handle [OF that]]]) (simp add: keeps_def)
  then show ?thesis unfolding SMcp site_serve_def by (simp add: keeps_protected)
next
  case (SDeleteAccount b)
  have "keeps (over_mem M) (seqR (on_mem (delete_me u)) (\<lambda>r s. (AAccount r, s)))" if "ok u" for u
    by (rule keeps_seqR [OF keeps_on_mem [OF keeps_delete_me [OF that]]]) (simp add: keeps_def)
  then show ?thesis unfolding SDeleteAccount site_serve_def by (simp add: keeps_protected)
qed (simp_all add: site_serve_def keeps_oauth keeps_register keeps_authorize keeps_google keeps_token keeps_revoke)

lemma keeps_site_run: "over_mem M s \<Longrightarrow> over_mem M (site_run wo env qs s)"
  by (induction qs arbitrary: s) (use keeps_serve in \<open>auto simp: keeps_def\<close>)

end

end
