(* ===== verification/Lm_Account.thy ===== *)
theory Lm_Account
  imports Lm_Site
begin

text \<open>
  Two invariants of \<open>llm-memory-server\<close>, each an interpretation of \<open>site_invariant\<close>: the constraints of the
  database, and that nothing of a deleted account comes back.
\<close>

section \<open>Well-formed databases\<close>

definition note_wf :: "raw \<Rightarrow> bool" where
  "note_wf r \<longleftrightarrow> r_scope r = ''shared'' \<or> (r_scope r = ''personal'' \<and> r_created_by r = Some (r_owner r)
     \<and> r_title r \<noteq> [] \<and> r_content r \<noteq> [] \<and> length (r_content r) \<le> MAX_CONTENT_BYTES)"

definition db_wf :: "db \<Rightarrow> bool" where
  "db_wf d \<longleftrightarrow> distinct (map r_id (t_raws d)) \<and> (\<forall>r \<in> set (t_raws d). note_wf r)
     \<and> distinct (map (\<lambda>w. (w_scope w, w_owner w, w_concept w)) (t_wikis d))
     \<and> distinct (map (\<lambda>x. (sc_scope x, sc_owner x)) (t_schemas d))
     \<and> distinct (map u_id (t_users d)) \<and> distinct (map (\<lambda>u. (u_provider u, u_subject u)) (t_users d))
     \<and> distinct (map oc_id (t_clients d)) \<and> distinct (map t_hash (t_tokens d))
     \<and> (\<forall>t \<in> set (t_tokens d). t_user t \<in> u_id ` set (t_users d) \<and> t_client t \<in> oc_id ` set (t_clients d))"

definition memory_wf :: "lm_env \<Rightarrow> lm_state \<Rightarrow> bool" where
  "memory_wf env m \<longleftrightarrow> db_wf (lm_db m) \<and> inj (le_ulid env)
     \<and> (\<forall>n \<ge> lm_ulids m. le_ulid env n \<notin> r_id ` set (t_raws (lm_db m)) \<and> le_ulid env n \<notin> u_id ` set (t_users (lm_db m)))"

lemma db_wf_faults: "same_tables d d' \<Longrightarrow> db_wf d' = db_wf d"
  unfolding same_tables_iff db_wf_def by simp

lemma put_schema_keys:
  "distinct (map (\<lambda>x. (sc_scope x, sc_owner x)) xs) \<Longrightarrow> distinct (map (\<lambda>x. (sc_scope x, sc_owner x)) (put_schema u now c xs))"
proof -
  assume d: "distinct (map (\<lambda>x. (sc_scope x, sc_owner x)) xs)"
  have "map (\<lambda>x. (sc_scope x, sc_owner x)) (map (\<lambda>s. if P s then s\<lparr>sc_content := c, sc_updated_at := now\<rparr> else s) xs)
      = map (\<lambda>x. (sc_scope x, sc_owner x)) xs" for P
    by simp
  with d show ?thesis by (auto simp: put_schema_def schema_at_def simp del: map_map if_image_distrib)
qed

section \<open>Statements of the authorization server\<close>

text \<open>What a statement leaves: all but the rows of users, clients and tokens.\<close>

definition login_frame :: "string \<Rightarrow> db \<Rightarrow> db \<Rightarrow> bool" where
  "login_frame uid d0 d \<longleftrightarrow> t_raws d = t_raws d0 \<and> t_wikis d = t_wikis d0 \<and> t_schemas d = t_schemas d0
     \<and> t_tokens d = t_tokens d0 \<and> u_id ` set (t_users d) \<subseteq> insert uid (u_id ` set (t_users d0))"

lemma ignores_login_frame: "ignores_faults (login_frame uid d0)" and ignores_db_wf: "ignores_faults db_wf"
  by (simp_all add: ignores_faults_def login_frame_def db_wf_def)

lemma email_ids: "u_id ` (\<lambda>u. if P u then u\<lparr>u_email := e\<rparr> else u) ` U = u_id ` U"
  by (simp add: image_image if_distrib [of u_id] del: if_image_distrib cong: if_cong)

lemma users_upsert_frame: "login_frame uid d (snd (users_upsert t uid p x e d))"
proof -
  have "keeps (login_frame uid d) (users_upsert t uid p x e)"
    unfolding users_upsert_def
    by (intro keeps_seqA keeps_stmt ignores_login_frame) (auto simp: login_frame_def email_ids simp del: if_image_distrib)
  then show ?thesis by (simp add: keeps_def login_frame_def subset_insertI)
qed

lemma email_keys:
  "map u_id (map (\<lambda>u. if P u then u\<lparr>u_email := e\<rparr> else u) us) = map u_id us"
  "map (\<lambda>u. (u_provider u, u_subject u)) (map (\<lambda>u. if P u then u\<lparr>u_email := e\<rparr> else u) us) = map (\<lambda>u. (u_provider u, u_subject u)) us"
  by simp_all

lemma wf_users_upsert: "keeps db_wf (users_upsert t uid p x e)"
proof -
  have "db_wf (snd (if uid \<in> u_id ` set (t_users d) then (Inl Sqlx, d)
         else if \<exists>u \<in> set (t_users d). user_for p x u
         then (Inr (), d\<lparr>t_users := map (\<lambda>u. if user_for p x u then u\<lparr>u_email := e\<rparr> else u) (t_users d)\<rparr>)
         else (Inr (), d\<lparr>t_users := t_users d @ [\<lparr>u_id = uid, u_provider = p, u_subject = x, u_email = e, u_created_at = t\<rparr>]\<rparr>)))"
    if "db_wf d" for d
  proof -
    show ?thesis using that
      by (auto simp: db_wf_def email_keys email_ids user_for_def simp del: map_map if_image_distrib)
  qed
  then show ?thesis
    unfolding users_upsert_def by (intro keeps_seqA keeps_stmt ignores_db_wf) auto
qed

lemma wf_statements:
  "keeps db_wf (client_register i t a b c nm)" "keeps db_wf (client_touch_last_seen t i)"
  "keeps db_wf (create_refresh sha tok u i t)" "keeps db_wf (validate_and_revoke sha tok t)" "keeps db_wf (token_revoke sha tok t)"
proof -
  have c: "map oc_id (map (\<lambda>c. if P c then c\<lparr>oc_last_seen_at := z\<rparr> else c) cs) = map oc_id cs" for P cs and z :: "int option"
    by simp
  have h: "map t_hash (map (\<lambda>t. if P t then t\<lparr>t_revoked_at := z\<rparr> else t) ts) = map t_hash ts" for P ts and z :: "int option"
    by simp
  have i: "oc_id ` (\<lambda>c. if P c then c\<lparr>oc_last_seen_at := z\<rparr> else c) ` cs = oc_id ` cs" for P cs and z :: "int option"
    by (simp add: image_image if_distrib [of oc_id] del: if_image_distrib cong: if_cong)
  show "keeps db_wf (client_register i t a b c nm)"
    unfolding client_register_def Let_def by (rule keeps_stmt [OF ignores_db_wf]) (auto simp: db_wf_def)
  show "keeps db_wf (client_touch_last_seen t i)"
    unfolding client_touch_last_seen_def by (rule keeps_stmt [OF ignores_db_wf]) (auto simp: db_wf_def c i simp del: map_map if_image_distrib)
  show "keeps db_wf (create_refresh sha tok u i t)"
    unfolding create_refresh_def by (rule keeps_stmt [OF ignores_db_wf]) (auto simp: db_wf_def)
  show "keeps db_wf (validate_and_revoke sha tok t)"
    unfolding validate_and_revoke_def by (rule keeps_stmt [OF ignores_db_wf]) (auto simp: db_wf_def h simp del: map_map if_image_distrib)
  show "keeps db_wf (token_revoke sha tok t)"
    unfolding token_revoke_def by (rule keeps_stmt [OF ignores_db_wf]) (auto simp: db_wf_def h simp del: map_map if_image_distrib)
qed

lemma wf_without_account: "db_wf d \<Longrightarrow> db_wf (without_account u d)"
  by (auto simp: db_wf_def without_account_def distinct_map_filter image_iff)

text \<open>Which tables a statement on clients or tokens may touch, and whose tokens there can be.\<close>

definition token_frame :: "string \<Rightarrow> db \<Rightarrow> db \<Rightarrow> bool" where
  "token_frame u d0 d \<longleftrightarrow> t_raws d = t_raws d0 \<and> t_wikis d = t_wikis d0 \<and> t_schemas d = t_schemas d0 \<and> t_users d = t_users d0
     \<and> (u \<notin> u_id ` set (t_users d0) \<longrightarrow> u \<in> t_user ` set (t_tokens d) \<longrightarrow> u \<in> t_user ` set (t_tokens d0))"

lemma token_frames:
  "token_frame u d (snd (client_register i t a b c nm d))" "token_frame u d (snd (client_touch_last_seen t i d))"
  "token_frame u d (snd (create_refresh sha tok v i t d))" "token_frame u d (snd (validate_and_revoke sha tok t d))"
  "token_frame u d (snd (token_revoke sha tok t d))"
  by (auto simp: token_frame_def client_register_def client_touch_last_seen_def create_refresh_def validate_and_revoke_def
      token_revoke_def stmt_fst_snd Let_def image_iff)

section \<open>The constraints are kept\<close>

text \<open>Every step: the identifiers of notes and users that are new were drawn by it.\<close>

lemma memory_wf_step:
  assumes "memory_wf env m" "db_wf (lm_db m')" "lm_ulids m \<le> lm_ulids m'"
    and "r_id ` set (t_raws (lm_db m')) \<subseteq> r_id ` set (t_raws (lm_db m)) \<union> le_ulid env ` {lm_ulids m ..< lm_ulids m'}"
    and "u_id ` set (t_users (lm_db m')) \<subseteq> u_id ` set (t_users (lm_db m)) \<union> le_ulid env ` {lm_ulids m ..< lm_ulids m'}"
  shows "memory_wf env m'"
proof -
  have i: "inj (le_ulid env)" using assms(1) by (simp add: memory_wf_def)
  have "le_ulid env n \<notin> X" if "lm_ulids m' \<le> n" "X \<subseteq> Y \<union> le_ulid env ` {lm_ulids m ..< lm_ulids m'}" "le_ulid env n \<notin> Y" for n X Y
  proof -
    have "le_ulid env n \<notin> le_ulid env ` {lm_ulids m ..< lm_ulids m'}" using that(1) injD [OF i] by fastforce
    then show ?thesis using that(2,3) by blast
  qed
  note unused = this
  have "le_ulid env n \<notin> r_id ` set (t_raws (lm_db m')) \<and> le_ulid env n \<notin> u_id ` set (t_users (lm_db m'))"
    if n: "lm_ulids m' \<le> n" for n
  proof -
    have "lm_ulids m \<le> n" using n assms(3) by simp
    with assms(1) have "le_ulid env n \<notin> r_id ` set (t_raws (lm_db m))" "le_ulid env n \<notin> u_id ` set (t_users (lm_db m))"
      unfolding memory_wf_def by simp_all
    then show ?thesis using unused [OF n assms(4)] unused [OF n assms(5)] by simp
  qed
  then show ?thesis using assms(2) i by (simp add: memory_wf_def)
qed

lemma memory_wf_frame:
  assumes "memory_wf env m" "same_tables (lm_db m) (lm_db m')" "lm_ulids m \<le> lm_ulids m'"
  shows "memory_wf env m'"
proof (rule memory_wf_step [OF assms(1) _ assms(3)])
  show "db_wf (lm_db m')" using assms(1) db_wf_faults [OF assms(2)] by (simp add: memory_wf_def)
qed (use assms(2) in \<open>simp_all add: same_tables_iff\<close>)

lemma memory_wf_noted:
  fixes m :: lm_state
  assumes m: "memory_wf env m" and a: "note_ok a" and fresh: "r_id (new_note env u a m) \<notin> r_id ` set (t_raws (lm_db m))"
  shows "memory_wf env (m\<lparr>lm_ulids := Suc (lm_ulids m), lm_db := lm_db m\<lparr>t_raws := t_raws (lm_db m) @ [new_note env u a m]\<rparr>\<rparr>)"
proof (rule memory_wf_step [OF m])
  have "note_wf (new_note env u a m)" using a by (simp add: note_wf_def note_ok_def new_note_def)
  then show "db_wf (lm_db (m\<lparr>lm_ulids := Suc (lm_ulids m), lm_db := lm_db m\<lparr>t_raws := t_raws (lm_db m) @ [new_note env u a m]\<rparr>\<rparr>))"
    using m fresh by (simp add: memory_wf_def db_wf_def)
qed (auto simp: new_note_def)

lemma memory_wf_schema:
  fixes m :: lm_state
  assumes "memory_wf env m"
  shows "memory_wf env (m\<lparr>lm_db := lm_db m\<lparr>t_schemas := put_schema u now c (t_schemas (lm_db m))\<rparr>\<rparr>)"
proof (rule memory_wf_step [OF assms])
  have "db_wf (lm_db m\<lparr>t_schemas := put_schema u now c (t_schemas (lm_db m))\<rparr>)"
    using assms put_schema_keys [of "t_schemas (lm_db m)"] by (simp add: memory_wf_def db_wf_def)
  then show "db_wf (lm_db (m\<lparr>lm_db := lm_db m\<lparr>t_schemas := put_schema u now c (t_schemas (lm_db m))\<rparr>\<rparr>))" by simp
qed simp_all

lemma memory_wf_account:
  fixes m :: lm_state
  assumes "memory_wf env m"
  shows "memory_wf env (m\<lparr>lm_db := without_account u (lm_db m)\<rparr>)"
proof (rule memory_wf_step [OF assms])
  show "db_wf (lm_db (m\<lparr>lm_db := without_account u (lm_db m)\<rparr>))"
    using assms wf_without_account by (simp add: memory_wf_def)
qed (auto simp: without_account_def)

lemma memory_wf_login:
  fixes m :: lm_state
  assumes m: "memory_wf env m"
  shows "memory_wf env (db_act (m\<lparr>lm_ulids := Suc (lm_ulids m)\<rparr>) (users_upsert t (le_ulid env (lm_ulids m)) p x e))"
proof (rule memory_wf_step [OF m])
  show "db_wf (lm_db (db_act (m\<lparr>lm_ulids := Suc (lm_ulids m)\<rparr>) (users_upsert t (le_ulid env (lm_ulids m)) p x e)))"
    using m wf_users_upsert by (simp add: memory_wf_def keeps_def db_act_def)
qed (use users_upsert_frame [of "le_ulid env (lm_ulids m)" "lm_db m" t p x e] in \<open>auto simp: login_frame_def db_act_def\<close>)

lemma memory_wf_statement:
  assumes m: "memory_wf env m" and "keeps db_wf f" and "token_frame [] (lm_db m) (snd (f (lm_db m)))"
  shows "memory_wf env (db_act m f)"
proof (rule memory_wf_step [OF m])
  show "db_wf (lm_db (db_act m f))" using m assms(2) by (simp add: memory_wf_def keeps_def db_act_def)
qed (use assms(3) in \<open>auto simp: token_frame_def db_act_def\<close>)

interpretation wf: site_invariant "memory_wf (se_mem env)" env "\<lambda>_. True" for env
  by unfold_locales
    (blast intro: memory_wf_frame memory_wf_noted memory_wf_schema memory_wf_account memory_wf_login
       memory_wf_statement wf_statements token_frames)+

section \<open>A small site\<close>

text \<open>Tokens name their user; user \<open>u\<close> has a note and a refresh token.\<close>

definition small_env :: site_env where
  "small_env = \<lparr>se_mem = sample_env, se_auth = \<lparr>ae_ulid = (\<lambda>n. []), ae_sha = id, ae_s256 = id, ae_parse_strings = (\<lambda>tx. Some [tx]),
     ae_strings_text = concat, ae_url = (\<lambda>u. None), ae_encode = (\<lambda>k c secret. Some (jc_sub c)), ae_decode_kid = (\<lambda>tok. Some (Some ''k'')),
     ae_decode = (\<lambda>tok secret now. Some \<lparr>jc_sub = tok, jc_client_id = ''c'', jc_iat = 0, jc_exp = 9\<rparr>),
     ae_keys = \<lparr>jk_current = ''k'', jk_keys = [(''k'', ''secret'')]\<rparr>, ae_public_url = [], ae_shared_schema = []\<rparr>\<rparr>"

definition small_db :: db where
  "small_db = empty_db\<lparr>t_raws := [(sample_raw ''2'' ''u'' 8)],
     t_users := [\<lparr>u_id = ''u'', u_provider = ''google'', u_subject = ''s'', u_email = None, u_created_at = 1\<rparr>],
     t_clients := [\<lparr>oc_id = ''c'', oc_redirect_uris = ''r'', oc_grant_types = ''refresh_token'', oc_auth_method = ''none'',
       oc_client_name = None, oc_created_at = 1, oc_last_seen_at = None, oc_revoked_at = None\<rparr>],
     t_tokens := [\<lparr>t_hash = ''h'', t_user = ''u'', t_client = ''c'', t_expires_at = 99, t_revoked_at = None\<rparr>]\<rparr>"

definition small_site :: site where
  "small_site = \<lparr>st_mem = sample_state small_db, st_pending = [], st_codes = []\<rparr>"

lemmas small_defs = small_env_def small_db_def small_site_def sample_env_def sample_state_def sample_raw_def empty_db_def

lemma small_site_wf: "memory_wf (se_mem small_env) (st_mem small_site)"
proof -
  have "inj (\<lambda>n. replicate (n + 2) CHR ''0'')" by (rule injI) (metis add_right_cancel length_replicate)
  then show ?thesis by (simp add: small_defs memory_wf_def db_wf_def note_wf_def MAX_CONTENT_BYTES_def)
qed

lemma small_auth: "\<exists>s0. lm_require_auth small_env (Some ''u'') small_site = (Inr \<lparr>mu_user_id = ''u'', mu_client_id = ''c''\<rparr>, s0)"
  by (simp add: small_defs lm_require_auth_def seqA_def lm_jwt_verify_def jwt_verify_def site_now_def site_db_def
      users_find_by_id_def query_def stmt_def bindE_def of_option_def guardE_def liftE_def okA_def Let_def)

lemma small_deletion: "\<exists>s1. site_serve wo small_env (SDeleteAccount (Some ''u'')) small_site = (AAccount NoContent, s1)"
  by (simp add: small_defs site_serve_def protected_def lm_require_auth_def seqA_def lm_jwt_verify_def jwt_verify_def site_now_def site_db_def
      users_find_by_id_def query_def stmt_def bindE_def of_option_def guardE_def liftE_def okA_def Let_def seqR_def on_mem_def
      delete_me_def on_db_def delete_cascade_def transaction_def delete_stmts_def)

text \<open>
  Whatever requests \<open>llm-memory-server\<close> is sent, in whatever order and with whatever statements failing, its
  database keeps the constraints the code relies on: note identifiers are unique, one wiki per owner and concept,
  one schema per owner, one user per Google account, unique clients and token hashes, every refresh token belongs
  to a user and a client that exist; a personal note is attributed to its owner, has a title and a content and is
  at most \<open>MAX_CONTENT_BYTES\<close> long; and the next identifier drawn is new.
\<close>
lemma site_well_formed:
  assumes "memory_wf (se_mem env) (st_mem s)"
  shows "memory_wf (se_mem env) (st_mem (site_run wo env qs s))"
  using wf.keeps_site_run [where s = s and qs = qs and wo = wo and env = env] assms by (simp add: over_mem_def)

section \<open>Deleted accounts\<close>

definition gone_db :: "string \<Rightarrow> db \<Rightarrow> bool" where
  "gone_db u d \<longleftrightarrow> u \<notin> u_id ` set (t_users d) \<and> u \<notin> t_user ` set (t_tokens d)
     \<and> (\<forall>r \<in> set (t_raws d). r_scope r = ''personal'' \<longrightarrow> r_owner r \<noteq> u)
     \<and> (\<forall>w \<in> set (t_wikis d). w_scope w = ''personal'' \<longrightarrow> w_owner w \<noteq> u)
     \<and> (\<forall>x \<in> set (t_schemas d). sc_scope x = ''personal'' \<longrightarrow> sc_owner x \<noteq> u)"

definition gone :: "lm_env \<Rightarrow> string \<Rightarrow> lm_state \<Rightarrow> bool" where
  "gone env u m \<longleftrightarrow> gone_db u (lm_db m) \<and> (\<forall>n \<ge> lm_ulids m. le_ulid env n \<noteq> u)"

lemma gone_db_faults: "same_tables d d' \<Longrightarrow> gone_db u d' = gone_db u d"
  unfolding same_tables_iff gone_db_def by simp

lemma gone_frame: "gone env u m \<Longrightarrow> same_tables (lm_db m) (lm_db m') \<Longrightarrow> lm_ulids m \<le> lm_ulids m' \<Longrightarrow> gone env u m'"
  by (simp add: gone_def gone_db_faults)

lemma gone_noted:
  fixes m :: lm_state
  shows "gone env u m \<Longrightarrow> v \<noteq> u \<Longrightarrow>
    gone env u (m\<lparr>lm_ulids := Suc (lm_ulids m), lm_db := lm_db m\<lparr>t_raws := t_raws (lm_db m) @ [new_note env v a m]\<rparr>\<rparr>)"
  by (auto simp: gone_def gone_db_def new_note_def)

lemma gone_schema:
  fixes m :: lm_state
  assumes "gone env u m" "v \<noteq> u"
  shows "gone env u (m\<lparr>lm_db := lm_db m\<lparr>t_schemas := put_schema v now c (t_schemas (lm_db m))\<rparr>\<rparr>)"
proof -
  have "sc_scope x = ''personal'' \<longrightarrow> sc_owner x \<noteq> u" if "x \<in> set (put_schema v now c (t_schemas (lm_db m)))" for x
    using assms that by (auto simp: gone_def gone_db_def put_schema_def split: if_splits)
  then show ?thesis using assms(1) by (simp add: gone_def gone_db_def)
qed

lemma gone_account:
  fixes m :: lm_state
  shows "gone env u m \<Longrightarrow> gone env u (m\<lparr>lm_db := without_account v (lm_db m)\<rparr>)"
  by (auto simp: gone_def gone_db_def without_account_def)

lemma gone_login:
  fixes m :: lm_state
  assumes m: "gone env u m"
  shows "gone env u (db_act (m\<lparr>lm_ulids := Suc (lm_ulids m)\<rparr>) (users_upsert t (le_ulid env (lm_ulids m)) p x e))"
proof -
  let ?uid = "le_ulid env (lm_ulids m)"
  define d where "d = snd (users_upsert t ?uid p x e (lm_db m))"
  have f: "login_frame ?uid (lm_db m) d" unfolding d_def by (rule users_upsert_frame)
  have "u \<noteq> ?uid" "u \<notin> u_id ` set (t_users (lm_db m))" using m by (auto simp: gone_def gone_db_def)
  then have "u \<notin> insert ?uid (u_id ` set (t_users (lm_db m)))" by simp
  then have "u \<notin> u_id ` set (t_users d)" using f unfolding login_frame_def by (meson subsetD)
  with m f show ?thesis by (simp add: gone_def gone_db_def db_act_def d_def [symmetric] login_frame_def)
qed

lemma gone_statement:
  assumes "gone env u m" "token_frame u (lm_db m) (snd (f (lm_db m)))"
  shows "gone env u (db_act m f)"
  using assms by (auto simp: gone_def gone_db_def token_frame_def db_act_def)

lemma gone_caller: "gone env u m \<Longrightarrow> v \<in> u_id ` set (t_users (lm_db m)) \<Longrightarrow> v \<noteq> u"
  by (auto simp: gone_def gone_db_def)

interpretation deleted: site_invariant "gone (se_mem env) u" env "\<lambda>v. v \<noteq> u" for env u
  by unfold_locales
    (erule (2) gone_frame | erule (1) gone_noted | erule (1) gone_schema | erule gone_account | erule (1) gone_caller
      | erule gone_login | erule gone_statement, rule token_frames)+

text \<open>The deletion itself.\<close>

lemma require_auth_same:
  "lm_require_auth env b s = (Inr v, s') \<Longrightarrow> same_tables (lm_db (st_mem s)) (lm_db (st_mem s'))
     \<and> lm_ulids (st_mem s') = lm_ulids (st_mem s)"
  by (auto simp: lm_require_auth_def seqA_Inr_iff site_db_def users_find_by_id_def query_def stmt_fst_snd split_beta
      lm_jwt_verify_def site_now_def Let_def same_tables_iff split: if_splits sum.splits)

lemma deletion_gone:
  assumes wf: "memory_wf (se_mem env) (st_mem s)"
    and auth: "lm_require_auth env b s = (Inr v, s0)"
    and del: "site_serve wo env (SDeleteAccount b) s = (AAccount NoContent, s1)"
  shows "gone (se_mem env) (mu_user_id v) (st_mem s1)"
proof -
  let ?u = "mu_user_id v"
  obtain r d where c: "delete_cascade ?u (lm_db (st_mem s0)) = (r, d)" by fastforce
  from del auth c obtain x where r: "r = Inr x" and s1: "s1 = s0\<lparr>st_mem := (st_mem s0)\<lparr>lm_db := d\<rparr>\<rparr>"
    by (cases r) (auto simp: site_serve_def protected_def seqR_def on_mem_def delete_me_def on_db_def)
  have t: "same_tables (without_account ?u (lm_db (st_mem s0))) d" using delete_cascade_tables [OF c] r by simp
  have "gone_db ?u (without_account ?u (lm_db (st_mem s0)))" by (auto simp: gone_db_def without_account_def)
  then have g: "gone_db ?u d" using gone_db_faults [OF t] by simp
  note same = require_auth_same [OF auth]
  have "?u \<in> u_id ` set (t_users (lm_db (st_mem s)))" using accepted_user [OF auth] same by (simp add: same_tables_iff)
  then have "le_ulid (se_mem env) n \<noteq> ?u" if "lm_ulids (st_mem s) \<le> n" for n
    using wf that unfolding memory_wf_def by metis
  then show ?thesis using g same by (simp add: gone_def s1)
qed

text \<open>
  C14. Once \<open>DELETE /v1/account\<close> has answered 204 to a bearer of a user, nothing of the user ever comes back
  through a request: after any later requests of anybody the tables hold no row of the user (no user, refresh
  token, note, wiki or schema), and no bearer, however long its token is still valid, is accepted as the user,
  so no request is served as them.
\<close>
theorem account_deletion_final:
  assumes "memory_wf (se_mem env) (st_mem s)"
    and "lm_require_auth env b s = (Inr v, s0)"
    and "site_serve wo env (SDeleteAccount b) s = (AAccount NoContent, s1)"
  shows "gone_db (mu_user_id v) (lm_db (st_mem (site_run wo env qs s1)))
     \<and> (\<forall>b' v' s'. lm_require_auth env b' (site_run wo env qs s1) = (Inr v', s') \<longrightarrow> mu_user_id v' \<noteq> mu_user_id v)"
proof -
  have "over_mem (gone (se_mem env) (mu_user_id v)) (site_run wo env qs s1)"
    using deletion_gone [OF assms] by (intro deleted.keeps_site_run) (simp add: over_mem_def)
  then have g: "gone_db (mu_user_id v) (lm_db (st_mem (site_run wo env qs s1)))" by (simp add: over_mem_def gone_def)
  moreover have "mu_user_id v' \<noteq> mu_user_id v" if "lm_require_auth env b' (site_run wo env qs s1) = (Inr v', s')" for b' v' s'
    using accepted_user [OF that] require_auth_same [OF that] g by (auto simp: same_tables_iff gone_db_def)
  ultimately show ?thesis by blast
qed

text \<open>Their own bearer is refused afterwards.\<close>

theorem account_deletion_final_witness:
  "\<forall>wo qs. let s = site_run wo small_env qs (snd (site_serve wo small_env (SDeleteAccount (Some ''u'')) small_site)) in
     gone_db ''u'' (lm_db (st_mem s)) \<and> (\<forall>v s'. lm_require_auth small_env (Some ''u'') s = (Inr v, s') \<longrightarrow> mu_user_id v \<noteq> ''u'')"
proof (intro allI)
  fix wo qs
  obtain s0 where a: "lm_require_auth small_env (Some ''u'') small_site = (Inr \<lparr>mu_user_id = ''u'', mu_client_id = ''c''\<rparr>, s0)"
    using small_auth by blast
  obtain s1 where d: "site_serve wo small_env (SDeleteAccount (Some ''u'')) small_site = (AAccount NoContent, s1)"
    using small_deletion by blast
  from account_deletion_final [OF small_site_wf a d, of qs] d
  show "let s = site_run wo small_env qs (snd (site_serve wo small_env (SDeleteAccount (Some ''u'')) small_site)) in
     gone_db ''u'' (lm_db (st_mem s)) \<and> (\<forall>v s'. lm_require_auth small_env (Some ''u'') s = (Inr v, s') \<longrightarrow> mu_user_id v \<noteq> ''u'')"
    by (simp add: Let_def)
qed

end
