(* ===== verification/Lm_System.thy ===== *)
theory Lm_System
  imports Worker Lm_Account
begin

text \<open>
  The whole of llm-memory: \<open>llm-memory-server\<close> with the rebuild workers its coordinator has started. A step is
  one HTTP request, one session of a worker with the decision after it, the end of a worker, or the clean-up
  of its wrapper, in any order. The coordinator's own transition system is what such a run shows of the slots.
\<close>

section \<open>References of wikis\<close>

definition refs_wf :: "texts \<Rightarrow> db \<Rightarrow> bool" where
  "refs_wf T d \<longleftrightarrow> (\<forall>w \<in> set (t_wikis d). \<forall>i \<in> set (stored_refs T (Some w)).
     \<exists>x \<in> set (t_raws d). r_id x = i \<and> r_scope x = w_scope w \<and> r_owner x = w_owner w)"

lemma refs_wf_tenant:
  "refs_wf (cf_texts deps) (g_db w) \<Longrightarrow> distinct (map r_id (t_raws (g_db w))) \<Longrightarrow> g_events w = [] \<Longrightarrow>
     tenant_ok (cf_texts deps) key w"
  by (fastforce simp: refs_wf_def tenant_ok_def mine_def)

lemma refs_wf_cong: "t_wikis d' = t_wikis d \<Longrightarrow> t_raws d' = t_raws d \<Longrightarrow> refs_wf T d' = refs_wf T d"
  by (simp add: refs_wf_def)

definition wiki_key :: "wiki \<Rightarrow> string \<times> string \<times> string" where
  "wiki_key w = (w_scope w, w_owner w, w_concept w)"

lemma wiki_key_fun: "wiki_key = (\<lambda>w. (w_scope w, w_owner w, w_concept w))"
  by (rule ext) (simp add: wiki_key_def)

lemma wiki_put_keys: "distinct (map wiki_key ws) \<Longrightarrow> distinct (map wiki_key (wiki_put sc ow c x r a ws))"
proof -
  assume d: "distinct (map wiki_key ws)"
  have "map wiki_key (map (\<lambda>w. if P w then w\<lparr>w_content := x, w_source_refs := r, w_last_rebuilt_at := a\<rparr> else w) ws) = map wiki_key ws" for P
    by (simp add: wiki_key_def)
  with d show ?thesis by (auto simp: wiki_put_def wiki_at_def wiki_key_def simp del: map_map if_image_distrib)
qed

section \<open>What a session leaves\<close>

text \<open>With nobody else at work: the slots and all tables but the wikis stay, and the wikis stay well-formed.\<close>

definition session_kept :: "'s worker_deps \<Rightarrow> state_map \<Rightarrow> db \<Rightarrow> 's world \<Rightarrow> bool" where
  "session_kept deps m d w \<longleftrightarrow> fts_ok (cf_fts deps) \<and> refs_text_ok (cf_texts deps) \<and> distinct (map r_id (t_raws d))
     \<and> g_events w = [] \<and> g_slots w = m \<and> t_raws (g_db w) = t_raws d \<and> other_tables (g_db w) = other_tables d
     \<and> distinct (map wiki_key (t_wikis (g_db w))) \<and> refs_wf (cf_texts deps) (g_db w)"

lemma session_kept_task:
  assumes k: "session_kept deps m d w" and new: "\<forall>x \<in> set new. x \<in> set (t_raws (g_db w)) \<and> mine key x"
  shows "session_kept deps m d (concept_task deps key new t c w)"
proof -
  let ?w = "concept_task deps key new t c w"
  have st: "steady w ?w" and cases: "t_wikis (g_db ?w) = t_wikis (g_db w) \<or> wrote deps key c new t w (t_wikis (g_db ?w))"
    using concept_task_effect [of w deps key new t c] by auto
  have raws: "t_raws (g_db ?w) = t_raws (g_db w)" using st by (simp add: steady_def)
  have "distinct (map wiki_key (t_wikis (g_db ?w))) \<and> refs_wf (cf_texts deps) (g_db ?w)"
    using cases
  proof
    assume w: "t_wikis (g_db ?w) = t_wikis (g_db w)"
    from refs_wf_cong [OF w raws] w k show ?thesis by (simp add: session_kept_def)
  next
    assume "wrote deps key c new t w (t_wikis (g_db ?w))"
    then obtain wk inputs refs content d0 d1 where
      g: "wikis_get (ok_scope key) (ok_owner key) c (g_db w) = (Inr wk, d0)"
      "build (cf_fts deps) (ok_scope key) (ok_owner key) c (stored_refs (cf_texts deps) wk) new d0 = (Inr inputs, d1)"
      and refs: "set refs \<subseteq> r_id ` set inputs"
      and ws: "t_wikis (g_db ?w) = wiki_put (ok_scope key) (ok_owner key) c content
              (ser (cf_texts deps) (JArr (map JStr refs))) t (t_wikis (g_db w))"
      by (auto simp: wrote_def)
    have ok: "tenant_ok (cf_texts deps) key w" by (rule refs_wf_tenant) (use k in \<open>simp_all add: session_kept_def\<close>)
    have fts: "fts_ok (cf_fts deps)" and tx: "refs_text_ok (cf_texts deps)" using k by (simp_all add: session_kept_def)
    note im = inputs_mine [OF ok fts g new]
    have own: "stored_refs (cf_texts deps) (Some x) = refs" if "w_source_refs x = ser (cf_texts deps) (JArr (map JStr refs))" for x
      using that tx by (simp add: stored_refs_def refs_text_ok_def de_list_strs)
    have "\<exists>x \<in> set (t_raws (g_db w)). r_id x = i \<and> r_scope x = w_scope v \<and> r_owner x = w_owner v"
      if v: "v \<in> set (t_wikis (g_db ?w))" and i: "i \<in> set (stored_refs (cf_texts deps) (Some v))" for v i
      using wiki_put_set [OF v [unfolded ws]]
    proof
      assume "v \<in> set (t_wikis (g_db w))"
      moreover have "refs_wf (cf_texts deps) (g_db w)" using k by (simp add: session_kept_def)
      ultimately show ?thesis using i unfolding refs_wf_def by blast
    next
      assume n: "wiki_at (ok_scope key) (ok_owner key) c v \<and> w_content v = content
        \<and> w_source_refs v = ser (cf_texts deps) (JArr (map JStr refs)) \<and> w_last_rebuilt_at v = t"
      with own i have "i \<in> r_id ` set inputs" using refs by auto
      with im n show ?thesis by (auto simp: mine_def wiki_at_def)
    qed
    moreover have "distinct (map wiki_key (t_wikis (g_db ?w)))"
      unfolding ws by (rule wiki_put_keys) (use k in \<open>simp add: session_kept_def\<close>)
    ultimately show ?thesis using raws by (simp add: refs_wf_def)
  qed
  then show ?thesis using k st by (simp add: session_kept_def steady_def)
qed

interpretation kept: session_invariant "session_kept deps m d" deps key for deps :: "'s worker_deps" and m d key
proof unfold_locales
  show "session_kept deps m d (snd (now_ms key w))" if "session_kept deps m d w" for w
    using that by (simp add: session_kept_def now_ms_def)
  show "session_kept deps m d w'"
    if k: "session_kept deps m d w" and s: "steady w w'" "t_wikis (g_db w') = t_wikis (g_db w)" for w w'
  proof -
    have "refs_wf (cf_texts deps) (g_db w')" using k s refs_wf_cong [of "g_db w'" "g_db w"] by (simp add: session_kept_def steady_def)
    then show ?thesis using k s by (simp add: session_kept_def steady_def)
  qed
qed (rule session_kept_task)

text \<open>One pass of a worker's loop.\<close>

definition worker_pass :: "'s worker_deps \<Rightarrow> owner_key \<Rightarrow> rebuild_mode \<Rightarrow> loop_state \<Rightarrow> ('s, loop_state \<times> rebuild_mode option) wact" where
  "worker_pass deps key md l = seqA (run_session deps key md) (\<lambda>out. decide key out l)"

lemma worker_pass_effect:
  assumes k: "session_kept deps m d w" and p: "worker_pass deps key md l w = (r, w')"
  shows "session_kept deps (g_slots w') d w'
    \<and> (case r of Inl e \<Rightarrow> g_slots w' = m | Inr x \<Rightarrow> \<exists>out remaining. after_session out remaining m key l = (g_slots w', x))"
proof -
  obtain r1 w1 where s: "run_session deps key md w = (r1, w1)" by fastforce
  have k1: "session_kept deps m d w1" using kept.P_session [OF s [unfolded run_session_def] k] .
  show ?thesis
  proof (cases r1)
    case (Inl e)
    then have "r = Inl e" "w' = w1" using p s by (simp_all add: worker_pass_def)
    then show ?thesis using k1 by (simp add: session_kept_def)
  next
    case (Inr out)
    let ?m = "if out = DrainCapped \<and> consecutive_caps l + 1 \<ge> MAX_CONSECUTIVE_CAPS then count_remaining key else okA None"
    obtain r2 w2 where c: "?m w1 = (r2, w2)" by fastforce
    then have k2: "session_kept deps m d w2" using k1 kept.P_remaining by (auto split: if_splits)
    have g: "g_slots w2 = m" using k2 by (simp add: session_kept_def)
    from p s Inr have d: "decide key out l w1 = (r, w')" by (simp add: worker_pass_def)
    show ?thesis
    proof (cases r2)
      case 2: (Inl e)
      then have "r = Inl e" "w' = w2" using d c by (simp_all add: decide_def)
      then show ?thesis using k2 g by simp
    next
      case 2: (Inr remaining)
      obtain m' l' nx where a: "after_session out remaining m key l = (m', l', nx)" by (metis prod_cases3)
      then have "r = Inr (l', nx)" "w' = w2\<lparr>g_slots := m'\<rparr>" using d c 2 g by (simp_all add: decide_def)
      then show ?thesis using k2 a by (auto simp: session_kept_def)
    qed
  qed
qed

section \<open>The server makes a path of the coordinator\<close>

interpretation path: site_invariant "\<lambda>m. coord_path c (lm_coord m)" env "\<lambda>_. True" for c env
  by unfold_locales (auto simp: db_act_def intro: coord_path_trans)

text \<open>It adds no wiki, and drops a user's notes only together with the user's wikis.\<close>

lemma refs_wf_account: "refs_wf T d \<Longrightarrow> refs_wf T (without_account u d)"
  by (fastforce simp: refs_wf_def without_account_def)

lemma refs_wf_more: "refs_wf T d \<Longrightarrow> t_wikis d' = t_wikis d \<Longrightarrow> set (t_raws d) \<subseteq> set (t_raws d') \<Longrightarrow> refs_wf T d'"
  by (fastforce simp: refs_wf_def)

lemma refs_wf_token: "refs_wf T (lm_db m) \<Longrightarrow> token_frame [] (lm_db m) (snd (f (lm_db m))) \<Longrightarrow> refs_wf T (lm_db (db_act m f))"
  by (simp add: db_act_def token_frame_def refs_wf_def)

lemma refs_wf_login: "refs_wf T (lm_db m) \<Longrightarrow> login_frame i (lm_db m) (snd (f (lm_db m))) \<Longrightarrow>
    refs_wf T (lm_db (db_act (m\<lparr>lm_ulids := n\<rparr>) f))"
  by (simp add: db_act_def login_frame_def refs_wf_def)

interpretation refs: site_invariant "\<lambda>m. refs_wf T (lm_db m)" env "\<lambda>_. True" for T env
proof unfold_locales
  fix m m' :: lm_state assume "refs_wf T (lm_db m)" "same_tables (lm_db m) (lm_db m')"
  then show "refs_wf T (lm_db m')" by (simp add: refs_wf_def same_tables_iff)
next
  fix m :: lm_state and u a assume "refs_wf T (lm_db m)"
  then show "refs_wf T (lm_db (m\<lparr>lm_ulids := Suc (lm_ulids m), lm_db := lm_db m\<lparr>t_raws := t_raws (lm_db m) @ [new_note (se_mem env) u a m]\<rparr>\<rparr>))"
    by (rule refs_wf_more) auto
next
  fix m :: lm_state and u now c assume "refs_wf T (lm_db m)"
  then show "refs_wf T (lm_db (m\<lparr>lm_db := lm_db m\<lparr>t_schemas := put_schema u now c (t_schemas (lm_db m))\<rparr>\<rparr>))"
    by (simp add: refs_wf_def)
next
  fix m :: lm_state and u assume "refs_wf T (lm_db m)"
  then show "refs_wf T (lm_db (m\<lparr>lm_db := without_account u (lm_db m)\<rparr>))" by (simp add: refs_wf_account)
qed (rule TrueI | erule refs_wf_login, rule users_upsert_frame | erule refs_wf_token, rule token_frames)+

section \<open>The system\<close>

definition world_of :: "lm_state \<Rightarrow> 's \<Rightarrow> metrics \<Rightarrow> int \<Rightarrow> 's world" where
  "world_of m s mt t = \<lparr>g_db = lm_db m, g_llm = s, g_slots = slots (lm_coord m), g_metrics = mt, g_events = [], g_now = t\<rparr>"

definition worker_left :: "'s world \<Rightarrow> worker list \<Rightarrow> site \<Rightarrow> site" where
  "worker_left w ws s = s\<lparr>st_mem := (st_mem s)\<lparr>lm_db := g_db w,
     lm_coord := (lm_coord (st_mem s))\<lparr>slots := g_slots w, workers := ws\<rparr>\<rparr>\<rparr>"

inductive system_step :: "wording \<Rightarrow> site_env \<Rightarrow> 's worker_deps \<Rightarrow> site \<Rightarrow> site \<Rightarrow> bool" for wo env deps where
  request: "system_step wo env deps s (snd (site_serve wo env q s))"
| pass: "workers (lm_coord (st_mem s)) = us @ \<lparr>w_key = k, w_phase = InSession md l\<rparr> # vs \<Longrightarrow>
     worker_pass deps k md l (world_of (st_mem s) llm mt t) = (Inr x, w) \<Longrightarrow>
     system_step wo env deps s (worker_left w (us @ \<lparr>w_key = k, w_phase = phase_after x\<rparr> # vs) s)"
| error: "workers (lm_coord (st_mem s)) = us @ \<lparr>w_key = k, w_phase = InSession md l\<rparr> # vs \<Longrightarrow>
     worker_pass deps k md l (world_of (st_mem s) llm mt t) = (Inl e, w) \<Longrightarrow>
     system_step wo env deps s (worker_left w (us @ \<lparr>w_key = k, w_phase = Returned JoinErr\<rparr> # vs) s)"
| crash: "workers (lm_coord (st_mem s)) = us @ \<lparr>w_key = k, w_phase = InSession md l\<rparr> # vs \<Longrightarrow> r \<in> {JoinPanic, JoinCancelled} \<Longrightarrow>
     system_step wo env deps s (s\<lparr>st_mem := (st_mem s)\<lparr>lm_coord := (lm_coord (st_mem s))\<lparr>workers :=
       us @ \<lparr>w_key = k, w_phase = Returned r\<rparr> # vs\<rparr>\<rparr>\<rparr>)"
| cleanup: "workers (lm_coord (st_mem s)) = us @ \<lparr>w_key = k, w_phase = Returned r\<rparr> # vs \<Longrightarrow>
     system_step wo env deps s (s\<lparr>st_mem := (st_mem s)\<lparr>lm_coord := wrapper_cleanup r k ((lm_coord (st_mem s))\<lparr>workers := us @ vs\<rparr>)\<rparr>\<rparr>)"

inductive system_run :: "wording \<Rightarrow> site_env \<Rightarrow> 's worker_deps \<Rightarrow> site \<Rightarrow> site \<Rightarrow> bool" for wo env deps where
  here: "system_run wo env deps s s"
| step: "system_run wo env deps s s' \<Longrightarrow> system_step wo env deps s' s'' \<Longrightarrow> system_run wo env deps s s''"

text \<open>What holds of every state of a run.\<close>

definition system_wf :: "site_env \<Rightarrow> 's worker_deps \<Rightarrow> site \<Rightarrow> bool" where
  "system_wf env deps s \<longleftrightarrow> memory_wf (se_mem env) (st_mem s) \<and> refs_wf (cf_texts deps) (lm_db (st_mem s))"

lemma session_start:
  assumes "system_wf env deps s" "fts_ok (cf_fts deps)" "refs_text_ok (cf_texts deps)"
  shows "session_kept deps (slots (lm_coord (st_mem s))) (lm_db (st_mem s)) (world_of (st_mem s) llm mt t)"
  using assms by (simp add: session_kept_def world_of_def system_wf_def memory_wf_def db_wf_def wiki_key_fun)

lemma worker_left_wf:
  assumes s: "system_wf env deps s" and k: "session_kept deps m (lm_db (st_mem s)) w"
  shows "system_wf env deps (worker_left w ws s)"
proof -
  have o: "t_raws (g_db w) = t_raws (lm_db (st_mem s))" "other_tables (g_db w) = other_tables (lm_db (st_mem s))"
    using k by (simp_all add: session_kept_def)
  then have same: "t_schemas (g_db w) = t_schemas (lm_db (st_mem s))" "t_users (g_db w) = t_users (lm_db (st_mem s))"
    "t_tokens (g_db w) = t_tokens (lm_db (st_mem s))" "t_clients (g_db w) = t_clients (lm_db (st_mem s))"
    by (simp_all add: other_tables_def)
  have "db_wf (g_db w)" using s k o same by (simp add: system_wf_def memory_wf_def db_wf_def session_kept_def wiki_key_fun)
  then have "memory_wf (se_mem env) (st_mem (worker_left w ws s))"
    using s by (simp add: system_wf_def memory_wf_def worker_left_def o same)
  moreover have "refs_wf (cf_texts deps) (lm_db (st_mem (worker_left w ws s)))"
    using k by (simp add: session_kept_def worker_left_def)
  ultimately show ?thesis by (simp add: system_wf_def)
qed

lemma wf_coord: "memory_wf env (m\<lparr>lm_coord := c\<rparr>) = memory_wf env m"
  by (simp add: memory_wf_def)

lemma system_step_wf:
  assumes st: "system_step wo env deps s s'" and s: "system_wf env deps s"
    and lib: "fts_ok (cf_fts deps)" "refs_text_ok (cf_texts deps)"
  shows "system_wf env deps s' \<and> coord_path (lm_coord (st_mem s)) (lm_coord (st_mem s'))"
  using st
proof (cases rule: system_step.cases)
  case (request q)
  have "over_mem (memory_wf (se_mem env)) s" "over_mem (\<lambda>m. refs_wf (cf_texts deps) (lm_db m)) s"
    "over_mem (\<lambda>m. coord_path (lm_coord (st_mem s)) (lm_coord m)) s"
    using s by (simp_all add: over_mem_def system_wf_def)
  then have "over_mem (memory_wf (se_mem env)) s'" "over_mem (\<lambda>m. refs_wf (cf_texts deps) (lm_db m)) s'"
    "over_mem (\<lambda>m. coord_path (lm_coord (st_mem s)) (lm_coord m)) s'"
    using wf.keeps_serve [of env wo q] refs.keeps_serve [of "cf_texts deps" wo env q]
      path.keeps_serve [of "lm_coord (st_mem s)" wo env q] request by (simp_all add: keeps_def)
  then show ?thesis by (simp add: over_mem_def system_wf_def)
next
  case (pass us k md l vs llm mt t x w)
  note e = worker_pass_effect [OF session_start [OF s lib] pass(3)]
  then obtain out remaining where a: "after_session out remaining (slots (lm_coord (st_mem s))) k l = (g_slots w, fst x, snd x)"
    by auto
  from coord_path_step [OF coord_path_refl coord_step.session [OF pass(2) a]]
  have "coord_path (lm_coord (st_mem s)) (lm_coord (st_mem s'))" by (simp add: pass(1) worker_left_def)
  moreover have "session_kept deps (g_slots w) (lm_db (st_mem s)) w" by (rule conjunct1 [OF e])
  ultimately show ?thesis using worker_left_wf [OF s] by (simp add: pass(1))
next
  case (error us k md l vs llm mt t e w)
  note f = worker_pass_effect [OF session_start [OF s lib] error(3)]
  then have g: "g_slots w = slots (lm_coord (st_mem s))" by simp
  have "lm_coord (st_mem s') = (lm_coord (st_mem s))\<lparr>workers := us @ \<lparr>w_key = k, w_phase = Returned JoinErr\<rparr> # vs\<rparr>"
    by (simp add: error(1) worker_left_def g)
  then have "coord_path (lm_coord (st_mem s)) (lm_coord (st_mem s'))"
    using coord_path_step [OF coord_path_refl coord_step.fail [OF error(2), of JoinErr]] by simp
  moreover have "session_kept deps (g_slots w) (lm_db (st_mem s)) w" by (rule conjunct1 [OF f])
  ultimately show ?thesis using worker_left_wf [OF s] by (simp add: error(1))
next
  case (crash us k md l vs r)
  then have "r \<noteq> JoinOk" by auto
  from coord_path_step [OF coord_path_refl coord_step.fail [OF crash(2) this]] s
  show ?thesis by (simp add: crash(1) system_wf_def wf_coord)
next
  case (cleanup us k r vs)
  from coord_path_step [OF coord_path_refl coord_step.cleanup [OF cleanup(2)]] s
  show ?thesis by (simp add: cleanup(1) system_wf_def wf_coord)
qed

lemma system_run_wf:
  assumes "system_run wo env deps s s'" "system_wf env deps s" "fts_ok (cf_fts deps)" "refs_text_ok (cf_texts deps)"
  shows "system_wf env deps s' \<and> coord_path (lm_coord (st_mem s)) (lm_coord (st_mem s'))"
  using assms
proof (induction rule: system_run.induct)
  case (step s s' s'')
  then show ?case using system_step_wf [of wo env deps s' s''] coord_path_trans by blast
qed simp

section \<open>A run\<close>

text \<open>User \<open>u\<close> has a note and a wiki that refers to it, and deletes the account.\<close>

definition linked_site :: site where
  "linked_site = small_site\<lparr>st_mem := sample_state (small_db\<lparr>t_wikis := [\<lparr>w_scope = ''personal'', w_owner = ''u'', w_concept = ''ab'',
     w_content = ''x'', w_source_refs = demo_quote [''2''], w_last_rebuilt_at = 9\<rparr>]\<rparr>)\<rparr>"

lemma linked_refs: "refs_wf (cf_texts demo_deps2) (lm_db (st_mem linked_site))"
proof -
  have "par (cf_texts demo_deps2) (demo_quote [''2'']) = Some (JArr (map JStr [''2'']))"
    by (simp add: demo_deps2_def demo_unquote_quote)
  then have "stored_refs (cf_texts demo_deps2) (Some w) = [''2'']" if "w_source_refs w = demo_quote [''2'']" for w
    using that de_list_strs [of "[''2'']"] by (simp add: stored_refs_def)
  then show ?thesis by (simp add: refs_wf_def linked_site_def small_defs)
qed

lemma linked_wf: "memory_wf (se_mem small_env) (st_mem linked_site)"
  using small_site_wf by (simp add: linked_site_def small_site_def sample_state_def memory_wf_def db_wf_def small_db_def)

lemma linked_run: "system_run wo env demo_deps2 s (snd (site_serve wo env q s))"
  by (rule system_run.step [OF system_run.here system_step.request])



text \<open>
  C3. The whole system refines the coordinator's transition system: what any run of requests, sessions and workers does
  to the slots and workers is a run of requests, sessions, failures and clean-ups of the coordinator alone. So its
  properties hold of the system; in particular, from a start without workers, an owner never has two workers
  that have not finished, and the in-flight gauge is the number of workers.
\<close>
theorem system_refines_coordinator:
  assumes "system_run wo env deps s s'" "system_wf env deps s" "fts_ok (cf_fts deps)" "refs_text_ok (cf_texts deps)"
    and "lm_coord (st_mem s) = coordinator_init"
  shows "\<exists>ls. coord_run coordinator_init ls (lm_coord (st_mem s'))
     \<and> in_flight (lm_coord (st_mem s')) = int (length (workers (lm_coord (st_mem s'))))
     \<and> (\<forall>k. length (filter (\<lambda>w. w_key w = k \<and> claiming w) (workers (lm_coord (st_mem s')))) \<le> 1)"
proof -
  from system_run_wf [OF assms(1-4)] assms(5) obtain ls where r: "coord_run coordinator_init ls (lm_coord (st_mem s'))"
    by (auto simp: coord_path_def)
  then have "coord_inv (lm_coord (st_mem s'))" using coord_inv_run coord_inv_init by blast
  then have "agrees (is_running (slots (lm_coord (st_mem s')))) (holders (workers (lm_coord (st_mem s'))))"
    "in_flight (lm_coord (st_mem s')) = int (length (workers (lm_coord (st_mem s'))))" by (simp_all add: coord_inv_def)
  then show ?thesis using r panic.exclusive by (auto simp: count_holders [symmetric])
qed

theorem system_refines_coordinator_witness:
  "\<forall>wo. let c = lm_coord (st_mem (snd (site_serve wo small_env (SDeleteAccount (Some ''u'')) linked_site))) in
     (\<exists>ls. coord_run coordinator_init ls c) \<and> in_flight c = int (length (workers c))"
proof
  fix wo
  have "system_wf small_env demo_deps2 linked_site" using linked_wf linked_refs by (simp add: system_wf_def)
  moreover have "lm_coord (st_mem linked_site) = coordinator_init" by (simp add: linked_site_def sample_state_def)
  ultimately show "let c = lm_coord (st_mem (snd (site_serve wo small_env (SDeleteAccount (Some ''u'')) linked_site))) in
     (\<exists>ls. coord_run coordinator_init ls c) \<and> in_flight c = int (length (workers c))"
    using system_refines_coordinator [OF linked_run _ demo_deps2_ok] by (simp add: Let_def)
qed

section \<open>A session that outlives its owner\<close>

text \<open>The site after user \<open>u\<close> has asked for the concept \<open>ab\<close> to be rebuilt: the worker has just been spawned.\<close>

definition asked_site :: site where
  "asked_site = small_site\<lparr>st_mem := (st_mem small_site)\<lparr>lm_coord := fst (request_manual coordinator_init ''u'' (Some ''ab''))\<rparr>\<rparr>"

definition left_site :: "wording \<Rightarrow> site" where
  "left_site wo = snd (site_serve wo small_env (SDeleteAccount (Some ''u'')) asked_site)"

lemma asked_coord: "lm_coord (st_mem asked_site) = \<lparr>slots = [owner_personal ''u'' \<mapsto> (entry_or_default Map.empty (owner_personal ''u''))\<lparr>running := True\<rparr>],
    workers = [\<lparr>w_key = owner_personal ''u'', w_phase = InSession (Manual (Some ''ab'')) loop_init\<rparr>], in_flight = 1, rebuild_failed = 0\<rparr>"
  by (simp add: asked_site_def small_site_def sample_state_def request_manual_def coordinator_init_def spawn_worker_def try_start_def entry_or_default_def default_state_def Let_def)

lemma left_site_eq: "left_site wo = asked_site\<lparr>st_mem := (st_mem asked_site)\<lparr>lm_db := without_account ''u'' small_db, lm_reads := 1\<rparr>\<rparr>"
  by (simp add: left_site_def asked_site_def small_defs site_serve_def protected_def lm_require_auth_def seqA_def lm_jwt_verify_def
      jwt_verify_def site_now_def site_db_def users_find_by_id_def query_def stmt_def bindE_def of_option_def guardE_def liftE_def
      okA_def Let_def seqR_def on_mem_def delete_me_def on_db_def delete_cascade_def transaction_def delete_stmts_def without_account_def)

lemmas left_pass_defs = iteration_def now_ms_def choose_concepts_def wikis_count_concepts_def owner_wikis_def wikis_list_concepts_def
  wikis_max_last_rebuilt_at_def raws_list_since_def raws_between_def watermark_def MAX_ITERATIONS_def owner_personal_def
  synthesize_concepts_def concept_task_def synthesize_one_def seqA_def Worker.db_act_def llm_act_def wikis_get_def query_def stmt_def
  world_of_def left_site_eq without_account_def small_db_def empty_db_def sample_raw_def demo_deps_def build_def search_raws_def
  stored_refs_def demo_synthesize demo_decode(5) wikis_upsert_def wiki_put_def INPUT_LIMIT_def CONCEPT_LIMIT_PER_OWNER_def
  observe_drain_def metric_def Let_def

lemma left_pass:
  "\<exists>x w. worker_pass demo_deps (owner_personal ''u'') (Manual (Some ''ab'')) loop_init
       (world_of (st_mem (left_site wo)) 0 (g_metrics demo_world) 50) = (Inr x, w)
     \<and> (\<exists>k \<in> set (t_wikis (g_db w)). w_scope k = ''personal'' \<and> w_owner k = ''u'')"
proof -
  obtain rest where u: "[1..<Suc MAX_ITERATIONS] = Suc 0 # 2 # rest" by (simp add: MAX_ITERATIONS_def upt_rec)
  let ?w = "world_of (st_mem (left_site wo)) 0 (g_metrics demo_world) 50"
  let ?k = "\<lparr>w_scope = ''personal'', w_owner = ''u'', w_concept = ''ab'', w_content = ''wiki'', w_source_refs = ''[]'', w_last_rebuilt_at = 50\<rparr>"
  define w2 :: "nat world" where "w2 = ?w\<lparr>g_llm := Suc 0, g_db := (g_db ?w)\<lparr>t_wikis := [?k]\<rparr>, g_metrics := (g_metrics ?w)\<lparr>m_drain_iterations := [2]\<rparr>\<rparr>"
  have i1: "iteration demo_deps (owner_personal ''u'') (Suc 0) (Manual (Some ''ab'')) ?w = (Inr (Inr Append),
      ?w\<lparr>g_llm := Suc 0, g_db := (g_db ?w)\<lparr>t_wikis := [?k]\<rparr>\<rparr>)"
    by (simp add: left_pass_defs)
  have i2: "iteration demo_deps (owner_personal ''u'') 2 Append (?w\<lparr>g_llm := Suc 0, g_db := (g_db ?w)\<lparr>t_wikis := [?k]\<rparr>\<rparr>) = (Inr (Inl Done), w2)"
    by (simp add: w2_def left_pass_defs demo_world_def)
  have "run_session demo_deps (owner_personal ''u'') (Manual (Some ''ab'')) ?w = (Inr Done, w2)"
    unfolding run_session_def u session_loop.simps seqA_def by (subst i1) (simp add: i2)
  then have "\<exists>x m. worker_pass demo_deps (owner_personal ''u'') (Manual (Some ''ab'')) loop_init ?w = (Inr x, w2\<lparr>g_slots := m\<rparr>)"
    by (simp add: worker_pass_def seqA_def decide_def Let_def split: prod.split) (auto simp: split_beta)
  moreover have "\<exists>k \<in> set (t_wikis (g_db (w2\<lparr>g_slots := m\<rparr>))). w_scope k = ''personal'' \<and> w_owner k = ''u''" for m
    by (simp add: w2_def)
  ultimately show ?thesis by blast
qed


text \<open>
  An append that has passed the bearer check before the deletion is no different: nothing after the check looks at
  the user, so the note is written for an account that is gone.
\<close>

lemma append_checks_no_user:
  assumes "de_append_args args = Some a" "aa_title a \<noteq> []" "aa_content a \<noteq> []" "length (aa_content a) \<le> MAX_CONTENT_BYTES"
    and "faults (lm_db m) = []" "le_ulid env (lm_ulids m) \<notin> r_id ` set (t_raws (lm_db m))"
  shows "\<not> gone_db u (lm_db (snd (lm_raw_append env u args m)))"
  using assms by (auto simp: lm_raw_append_def seqA_def decoded_def allowed_def lm_new_ulid_def lm_now_def on_db_def raws_insert_def
    stmt_def lm_notify_def gone_db_def Let_def liftE_def split: prod.split)

end
