(* ===== verification/Lm_Startup.thy ===== *)
theory Lm_Startup
  imports Lm_System Environment
begin

text \<open>
  The start of \<open>llm-memory-server\<close> (\<open>config.rs\<close>, \<open>app.rs\<close>, \<open>main.rs\<close>, \<open>VertexAi::new\<close>): its configuration, the state
  it serves from, and what runs of the whole system keep from the start on.
\<close>

section \<open>Configuration\<close>

record lm_config =
  lc_database_url :: string
  lc_bind_addr :: string
  lc_public_url :: string
  lc_google_client_id :: string
  lc_google_client_secret :: string
  lc_vertex_project :: string
  lc_vertex_location :: string
  lc_model_extract :: string
  lc_model_synth :: string
  lc_trusted_proxy_count :: nat

definition env_set :: "environment \<Rightarrow> string \<Rightarrow> config_error + string" where
  "env_set vars k = of_option (MissingVar k) (env_var vars k)"

definition lm_config_from_env :: "environment \<Rightarrow> config_error + lm_config" where
  "lm_config_from_env vars =
     bindE (env_set vars ''DATABASE_URL'') (\<lambda>database_url.
     bindE (env_set vars ''PUBLIC_URL'') (\<lambda>public_url.
     bindE (env_set vars ''GOOGLE_OAUTH_CLIENT_ID'') (\<lambda>client_id.
     bindE (env_set vars ''GOOGLE_OAUTH_CLIENT_SECRET'') (\<lambda>client_secret.
     bindE (env_set vars ''VERTEX_PROJECT'') (\<lambda>project.
     Inr \<lparr>lc_database_url = database_url,
       lc_bind_addr = env_or vars ''BIND_ADDR'' ''0.0.0.0:8080'',
       lc_public_url = public_url,
       lc_google_client_id = client_id,
       lc_google_client_secret = client_secret,
       lc_vertex_project = project,
       lc_vertex_location = env_or vars ''VERTEX_LOCATION'' ''us-central1'',
       lc_model_extract = env_or vars ''MODEL_EXTRACT'' ''gemini-2.5-flash'',
       lc_model_synth = env_or vars ''MODEL_SYNTH'' ''gemini-2.5-pro'',
       lc_trusted_proxy_count = some_or_default 1 (Option.bind (env_var vars ''TRUSTED_PROXY_COUNT'') parse_u64)\<rparr>)))))"

section \<open>Start\<close>

text \<open>What the libraries and the machine answer at the start; a pool that opens has a migrated database.\<close>

record lm_platform =
  lp_unbase64 :: "string \<Rightarrow> string option"
  lp_credentials :: "string + unit"
  lp_pool :: "string \<Rightarrow> db option"
  lp_redirect :: "string \<Rightarrow> bool"
  lp_bind :: "string \<Rightarrow> bool"

record vertex_ai =
  va_project :: string
  va_location :: string
  va_base_url :: string

record lm_server =
  ls_config :: lm_config
  ls_keys :: jwt_keys
  ls_vertex :: vertex_ai
  ls_site :: site

datatype lm_start_error =
    LmBadConfig config_error
  | LmBadKeys key_error
  | LmBadVertex llm_error
  | LmBadPool
  | LmRedirectUrlPanic
  | LmBadBind

definition vertex_new :: "lm_platform \<Rightarrow> string \<Rightarrow> string \<Rightarrow> llm_error + vertex_ai" where
  "vertex_new pf project location =
     bindE (map_sum (\<lambda>e. Api 503 (''ADC provider init failed: '' @ e)) id (lp_credentials pf)) (\<lambda>_.
     Inr \<lparr>va_project = project, va_location = location,
       va_base_url = ''https://'' @ location @ ''-aiplatform.googleapis.com''\<rparr>)"

text \<open>No slot is taken, no bucket is kept and no login is under way.\<close>

definition first_site :: "db \<Rightarrow> site" where
  "first_site d = \<lparr>st_mem = \<lparr>lm_db = d, lm_coord = coordinator_init, lm_buckets = Map.empty, lm_ulids = 0, lm_reads = 0, lm_instants = 0\<rparr>,
     st_pending = [], st_codes = []\<rparr>"

definition lm_build_state :: "lm_platform \<Rightarrow> lm_config \<Rightarrow> jwt_keys \<Rightarrow> lm_start_error + lm_server" where
  "lm_build_state pf cfg keys =
     bindE (map_sum LmBadVertex id (vertex_new pf (lc_vertex_project cfg) (lc_vertex_location cfg))) (\<lambda>vertex.
     bindE (of_option LmBadPool (lp_pool pf (lc_database_url cfg))) (\<lambda>d.
     Inr \<lparr>ls_config = cfg, ls_keys = keys, ls_vertex = vertex, ls_site = first_site d\<rparr>))"

definition lm_build_router :: "lm_platform \<Rightarrow> lm_server \<Rightarrow> lm_start_error + unit" where
  "lm_build_router pf srv = guardE (lp_redirect pf (google_redirect_uri (lc_public_url (ls_config srv)))) LmRedirectUrlPanic"

definition lm_main :: "lm_platform \<Rightarrow> environment \<Rightarrow> lm_start_error + lm_server" where
  "lm_main pf vars =
     bindE (map_sum LmBadConfig id (lm_config_from_env vars)) (\<lambda>cfg.
     bindE (map_sum LmBadKeys id (lm_keys_from_env (lp_unbase64 pf) vars)) (\<lambda>keys.
     bindE (lm_build_state pf cfg keys) (\<lambda>srv.
     bindE (lm_build_router pf srv) (\<lambda>_.
     bindE (guardE (lp_bind pf (lc_bind_addr cfg)) LmBadBind) (\<lambda>_. Inr srv)))))"

text \<open>The environment of the endpoints, and what the workers use.\<close>

definition lm_as_state :: "site_env \<Rightarrow> lm_server \<Rightarrow> site_env" where
  "lm_as_state libs srv = libs\<lparr>se_auth := (se_auth libs)\<lparr>ae_keys := ls_keys srv, ae_public_url := lc_public_url (ls_config srv)\<rparr>\<rparr>"

definition lm_worker_deps :: "'s worker_deps \<Rightarrow> lm_server \<Rightarrow> 's worker_deps" where
  "lm_worker_deps libs srv = libs\<lparr>cf_model_extract := lc_model_extract (ls_config srv), cf_model_synth := lc_model_synth (ls_config srv)\<rparr>"

section \<open>What a started server can rely on\<close>

lemma lm_collect_step:
  assumes "lm_collect_keys un ((k, v) # vars) ks0 = Inr ks"
  obtains (other) "lm_collect_keys un vars ks0 = Inr ks"
  | (key) kid b where "un v = Some b \<and> MIN_HS256_KEY_BYTES \<le> length b"
    "lm_collect_keys un vars \<lparr>jk_current = (if kid > jk_current ks0 then kid else jk_current ks0),
       jk_keys = (kid, b) # remove_key kid (jk_keys ks0)\<rparr> = Inr ks"
proof (cases "starts_with k key_variable")
  case True
  let ?kid = "drop (length key_variable) k"
  from assms True obtain b where "un v = Some b" "MIN_HS256_KEY_BYTES \<le> length b"
    "lm_collect_keys un vars \<lparr>jk_current = (if ?kid > jk_current ks0 then ?kid else jk_current ks0),
       jk_keys = (?kid, b) # remove_key ?kid (jk_keys ks0)\<rparr> = Inr ks"
    by (simp add: Let_def) blast
  with key [of b ?kid] show ?thesis by blast
qed (use assms other in simp)

definition keys_ok :: "jwt_keys \<Rightarrow> bool" where
  "keys_ok ks \<longleftrightarrow> (jk_keys ks = [] \<and> jk_current ks = [] \<or> map_of (jk_keys ks) (jk_current ks) \<noteq> None)
     \<and> (\<forall>k b. map_of (jk_keys ks) k = Some b \<longrightarrow> MIN_HS256_KEY_BYTES \<le> length b)"

lemma lm_collect_keys_ok: "lm_collect_keys un vars ks0 = Inr ks \<Longrightarrow> keys_ok ks0 \<Longrightarrow> keys_ok ks"
proof (induction vars arbitrary: ks0)
  case (Cons kv vars)
  obtain k v where kv: "kv = (k, v)" by fastforce
  from Cons.prems(1) [unfolded kv] show ?case
  proof (cases rule: lm_collect_step)
    case other
    then show ?thesis using Cons by blast
  next
    case (key kid b)
    have "keys_ok \<lparr>jk_current = (if kid > jk_current ks0 then kid else jk_current ks0), jk_keys = (kid, b) # remove_key kid (jk_keys ks0)\<rparr>"
      using Cons.prems(2) key(1) by (cases kid) (auto simp: keys_ok_def map_of_remove_key split: if_splits)
    with Cons.IH [OF key(2)] show ?thesis by blast
  qed
qed simp

lemma lm_keys_ok: "lm_keys_from_env un vars = Inr ks \<Longrightarrow> keys_ok ks \<and> jk_keys ks \<noteq> []"
  using lm_collect_keys_ok [of un vars "\<lparr>jk_current = [], jk_keys = []\<rparr>" ks] by (auto simp: lm_keys_from_env_def keys_ok_def)

lemma lm_started_parts:
  assumes "lm_main pf vars = Inr srv"
  shows "lm_config_from_env vars = Inr (ls_config srv) \<and> lm_keys_from_env (lp_unbase64 pf) vars = Inr (ls_keys srv)
    \<and> (\<exists>d. lp_pool pf (lc_database_url (ls_config srv)) = Some d \<and> ls_site srv = first_site d)
    \<and> lp_redirect pf (google_redirect_uri (lc_public_url (ls_config srv)))"
  using assms by (auto simp: lm_main_def map_sum_Inr lm_build_state_def lm_build_router_def)

text \<open>The address is taken as it stands: a slash at its end is doubled in every URL.\<close>

lemma lm_public_url: "lm_config_from_env vars = Inr c \<Longrightarrow> env_var vars ''PUBLIC_URL'' = Some (lc_public_url c)"
  by (auto simp: lm_config_from_env_def env_set_def)

lemma lm_slash_doubled:
  assumes "lm_main pf vars = Inr srv" "env_var vars ''PUBLIC_URL'' = Some (url @ ''/'')"
  shows "google_redirect_uri (lc_public_url (ls_config srv)) = url @ ''//oauth/callback/google''"
  using lm_public_url [of vars "ls_config srv"] lm_started_parts [OF assms(1)] assms(2) by (simp add: google_redirect_uri_def)

text \<open>The properties of runs hold of every run of a started server whose database is well-formed.\<close>

lemma lm_started_run:
  assumes main: "lm_main pf vars = Inr srv" and d: "lp_pool pf (lc_database_url (ls_config srv)) = Some d"
    and wf: "memory_wf (se_mem libs) (st_mem (first_site d))" "refs_wf (cf_texts deps) d"
    and lib: "fts_ok (cf_fts deps)" "refs_text_ok (cf_texts deps)"
    and run: "system_run wo (lm_as_state libs srv) (lm_worker_deps deps srv) (ls_site srv) s"
  shows "memory_wf (se_mem libs) (st_mem s) \<and> refs_wf (cf_texts deps) (lm_db (st_mem s))
    \<and> coord_path coordinator_init (lm_coord (st_mem s))"
proof -
  have f: "ls_site srv = first_site d" using lm_started_parts [OF main] d by auto
  have w: "system_wf (lm_as_state libs srv) (lm_worker_deps deps srv) (ls_site srv)"
    using wf by (simp add: system_wf_def f lm_as_state_def lm_worker_deps_def first_site_def)
  from system_run_wf [OF run w] lib show ?thesis
    by (simp add: system_wf_def lm_as_state_def lm_worker_deps_def f first_site_def)
qed

end
