(* ===== verification/Client_Ip.thy ===== *)
theory Client_Ip
  imports Rust_Text
begin

text \<open>
  \<open>xff.rs\<close> of both authorization crates: the address of a client behind trusted proxies. The text form of an
  address is read by \<open>IpAddr::from_str\<close> of the standard library, written out here on bytes: a parser returns
  what it read and the rest, and \<open>None\<close> leaves the position where it was.
\<close>

section \<open>\<open>IpAddr::from_str\<close>\<close>

datatype ip_addr = V4 "nat list" | V6 "nat list"

definition to_digit :: "nat \<Rightarrow> char \<Rightarrow> nat option" where
  "to_digit radix c =
     (let b = of_char c; v = (if 48 \<le> b \<and> b \<le> 57 then b - 48 else if 97 \<le> b \<and> b \<le> 122 then b - 87
                              else if 65 \<le> b \<and> b \<le> 90 then b - 55 else radix)
      in if v < radix then Some v else None)"

fun read_digits :: "nat \<Rightarrow> nat \<Rightarrow> nat \<Rightarrow> nat \<Rightarrow> string \<Rightarrow> (nat \<times> nat \<times> string) option" where
  "read_digits radix m n v [] = Some (n, v, [])"
| "read_digits radix m n v (c # cs) = (case to_digit radix c of
       None \<Rightarrow> Some (n, v, c # cs)
     | Some d \<Rightarrow> if n + 1 > m then None else read_digits radix m (n + 1) (v * radix + d) cs)"

definition read_number :: "nat \<Rightarrow> nat \<Rightarrow> nat \<Rightarrow> bool \<Rightarrow> string \<Rightarrow> (nat \<times> string) option" where
  "read_number radix max_digits bound allow_zero_prefix s = (case read_digits radix max_digits 0 0 s of
       None \<Rightarrow> None
     | Some (n, v, rest) \<Rightarrow>
         if v > bound \<or> n = 0 \<or> (\<not> allow_zero_prefix \<and> hd s = CHR ''0'' \<and> n > 1) then None else Some (v, rest))"

definition read_separator :: "char \<Rightarrow> nat \<Rightarrow> (string \<Rightarrow> ('a \<times> string) option) \<Rightarrow> string \<Rightarrow> ('a \<times> string) option" where
  "read_separator sep i f s = (if i = 0 then f s else (case s of c # cs \<Rightarrow> if c = sep then f cs else None | [] \<Rightarrow> None))"

fun read_octets :: "nat \<Rightarrow> nat \<Rightarrow> string \<Rightarrow> (nat list \<times> string) option" where
  "read_octets i 0 s = Some ([], s)"
| "read_octets i (Suc k) s = (case read_separator CHR ''.'' i (read_number 10 3 255 False) s of
       None \<Rightarrow> None
     | Some (v, s1) \<Rightarrow> (case read_octets (Suc i) k s1 of None \<Rightarrow> None | Some (vs, s2) \<Rightarrow> Some (v # vs, s2)))"

definition read_ipv4 :: "string \<Rightarrow> (nat list \<times> string) option" where
  "read_ipv4 = read_octets 0 4"

definition octet_pairs :: "nat list \<Rightarrow> nat list" where
  "octet_pairs os = [os ! 0 * 256 + os ! 1, os ! 2 * 256 + os ! 3]"

text \<open>Groups from the \<open>i\<close>-th on, at most \<open>k\<close>; whether the last two are an embedded IPv4 address.\<close>

fun read_groups :: "nat \<Rightarrow> nat \<Rightarrow> string \<Rightarrow> (nat list \<times> bool) \<times> string" where
  "read_groups i 0 s = (([], False), s)"
| "read_groups i (Suc k) s = (case (if k = 0 then None else read_separator CHR '':'' i read_ipv4 s) of
       Some (os, s1) \<Rightarrow> ((octet_pairs os, True), s1)
     | None \<Rightarrow> (case read_separator CHR '':'' i (read_number 16 4 65535 True) s of
           None \<Rightarrow> (([], False), s)
         | Some (g, s1) \<Rightarrow> (case read_groups (Suc i) k s1 of ((gs, v4), s2) \<Rightarrow> ((g # gs, v4), s2))))"

definition read_ipv6 :: "string \<Rightarrow> (nat list \<times> string) option" where
  "read_ipv6 s = (case read_groups 0 8 s of ((front, v4), s1) \<Rightarrow>
     if length front = 8 then Some (front, s1)
     else if v4 then None
     else if \<not> starts_with s1 ''::'' then None
     else (case read_groups 0 (8 - (length front + 1)) (drop 2 s1) of ((rear, _), s2) \<Rightarrow>
       Some (front @ replicate (8 - length front - length rear) 0 @ rear, s2)))"

definition parse_ip :: "string \<Rightarrow> ip_addr option" where
  "parse_ip s = (case (case read_ipv4 s of Some (os, r) \<Rightarrow> Some (V4 os, r) | None \<Rightarrow> map_option (\<lambda>(gs, r). (V6 gs, r)) (read_ipv6 s)) of
       Some (a, []) \<Rightarrow> Some a | _ \<Rightarrow> None)"

section \<open>\<open>parse_client_ip\<close>\<close>

definition xff_entries :: "string \<Rightarrow> string list" where
  "xff_entries xff = filter (\<lambda>s. s \<noteq> []) (map trim (split_on CHR '','' xff))"

definition lm_parse_client_ip :: "string option \<Rightarrow> ip_addr \<Rightarrow> nat \<Rightarrow> ip_addr" where
  "lm_parse_client_ip xff_header peer_ip trusted_proxy_count =
     (case xff_header of
        None \<Rightarrow> peer_ip
      | Some xff \<Rightarrow>
          (let ips = xff_entries xff in
           if length ips > trusted_proxy_count
           then (case parse_ip (ips ! (length ips - 1 - trusted_proxy_count)) of Some ip \<Rightarrow> ip | None \<Rightarrow> peer_ip)
           else peer_ip))"

definition vp_parse_client_ip :: "string option \<Rightarrow> ip_addr \<Rightarrow> nat \<Rightarrow> ip_addr" where
  "vp_parse_client_ip xff_header peer_ip trusted_proxy_count =
     (if trusted_proxy_count = 0 then peer_ip else lm_parse_client_ip xff_header peer_ip trusted_proxy_count)"

section \<open>Addresses have their width\<close>

fun ip_wf :: "ip_addr \<Rightarrow> bool" where
  "ip_wf (V4 os) \<longleftrightarrow> length os = 4 \<and> (\<forall>v \<in> set os. v < 256)"
| "ip_wf (V6 gs) \<longleftrightarrow> length gs = 8 \<and> (\<forall>v \<in> set gs. v < 65536)"

lemma read_number_bound: "read_number radix m bound z s = Some (v, r) \<Longrightarrow> v \<le> bound"
  by (auto simp: read_number_def split: option.splits prod.splits if_splits)

lemma read_separator_Some: "read_separator sep i f s = Some x \<Longrightarrow> \<exists>s'. f s' = Some x"
  by (auto simp: read_separator_def split: if_splits list.splits)

lemma read_octets_wf: "read_octets i k s = Some (os, r) \<Longrightarrow> length os = k \<and> (\<forall>v \<in> set os. v < 256)"
proof (induction i k s arbitrary: os r rule: read_octets.induct)
  case (2 i k s)
  from 2(2) obtain v s1 vs where v: "read_separator CHR ''.'' i (read_number 10 3 255 False) s = Some (v, s1)"
    and vs: "read_octets (Suc i) k s1 = Some (vs, r)" "os = v # vs" by (auto split: option.splits)
  have "v < 256" using read_separator_Some [OF v] read_number_bound by fastforce
  with 2(1) [OF v _ vs(1)] vs(2) show ?case by simp
qed simp

lemma octet_pairs_wf:
  assumes "length os = 4" "\<forall>v \<in> set os. v < 256"
  shows "\<forall>v \<in> set (octet_pairs os). v < 65536"
proof -
  have "os ! i < 256" if "i < 4" for i using assms that by simp
  from this [of 0] this [of 1] this [of 2] this [of 3] show ?thesis by (simp add: octet_pairs_def)
qed

lemma read_groups_wf: "read_groups i k s = ((gs, b), r) \<Longrightarrow> length gs \<le> k \<and> (\<forall>v \<in> set gs. v < 65536)"
proof (induction i k s arbitrary: gs b r rule: read_groups.induct)
  case (2 i k s)
  show ?case
  proof (cases "if k = 0 then None else read_separator CHR '':'' i read_ipv4 s")
    case (Some x)
    then obtain os s1 where x: "x = (os, s1)" "k \<noteq> 0" "read_separator CHR '':'' i read_ipv4 s = Some (os, s1)"
      by (cases x) (auto split: if_splits)
    from read_separator_Some [OF x(3)] have "length os = 4 \<and> (\<forall>v \<in> set os. v < 256)" by (auto simp: read_ipv4_def dest: read_octets_wf)
    with octet_pairs_wf [of os] 2(2) Some x(1,2) show ?thesis by (auto simp: octet_pairs_def)
  next
    case None
    show ?thesis
    proof (cases "read_separator CHR '':'' i (read_number 16 4 65535 True) s")
      case None': None
      with 2(2) None show ?thesis by auto
    next
      case (Some y)
      obtain g s1 where y: "y = (g, s1)" by fastforce
      obtain gs' b' r' where r: "read_groups (Suc i) k s1 = ((gs', b'), r')" by (metis surj_pair)
      have "g < 65536" using read_separator_Some [OF Some [unfolded y]] read_number_bound by fastforce
      with 2(1) [OF None Some y [symmetric] r] 2(2) None Some y r show ?thesis by auto
    qed
  qed
qed simp

lemma parse_ip_wf: "parse_ip s = Some a \<Longrightarrow> ip_wf a"
proof -
  assume p: "parse_ip s = Some a"
  have six: "length gs = 8 \<and> (\<forall>v \<in> set gs. v < 65536)" if r: "read_ipv6 s = Some (gs, r)" for gs r
  proof -
    obtain front v4 s1 where f: "read_groups 0 8 s = ((front, v4), s1)" by (metis surj_pair)
    obtain rear b s2 where k: "read_groups 0 (8 - (length front + 1)) (drop 2 s1) = ((rear, b), s2)" by (metis surj_pair)
    from read_groups_wf [OF f] read_groups_wf [OF k] r f k show ?thesis
      by (auto simp: read_ipv6_def split: if_splits)
  qed
  show ?thesis
  proof (cases "read_ipv4 s")
    case None
    with p obtain gs where "read_ipv6 s = Some (gs, [])" "a = V6 gs" by (auto simp: parse_ip_def split: option.splits list.splits)
    with six show ?thesis by simp
  next
    case (Some x)
    with p obtain os where "read_ipv4 s = Some (os, [])" "a = V4 os" by (cases x) (auto simp: parse_ip_def split: list.splits)
    with read_octets_wf show ?thesis by (fastforce simp: read_ipv4_def)
  qed
qed

lemma read_numeral:
  "read_octets i (numeral k) s = (case read_separator CHR ''.'' i (read_number 10 3 255 False) s of
       None \<Rightarrow> None
     | Some (v, s1) \<Rightarrow> (case read_octets (Suc i) (pred_numeral k) s1 of None \<Rightarrow> None | Some (vs, s2) \<Rightarrow> Some (v # vs, s2)))"
  "read_groups i (numeral k) s = (case (if pred_numeral k = 0 then None else read_separator CHR '':'' i read_ipv4 s) of
       Some (os, s1) \<Rightarrow> ((octet_pairs os, True), s1)
     | None \<Rightarrow> (case read_separator CHR '':'' i (read_number 16 4 65535 True) s of
           None \<Rightarrow> (([], False), s)
         | Some (g, s1) \<Rightarrow> (case read_groups (Suc i) (pred_numeral k) s1 of ((gs, v4), s2) \<Rightarrow> ((g # gs, v4), s2))))"
  by (simp_all only: numeral_eq_Suc read_octets.simps read_groups.simps)

lemma replicate_numeral: "replicate (numeral k) x = x # replicate (pred_numeral k) x"
  by (simp only: numeral_eq_Suc replicate_Suc)

lemmas ip_defs = parse_ip_def read_ipv4_def read_ipv6_def read_number_def read_separator_def to_digit_def octet_pairs_def
  starts_with_def read_numeral

lemma parse_ip_examples:
  "parse_ip ''203.0.113.10'' = Some (V4 [203, 0, 113, 10])"
  "parse_ip ''01.2.3.4'' = None"
  "parse_ip ''1.2.3.256'' = None"
  "parse_ip ''::ffff:1.2.3.4'' = Some (V6 [0, 0, 0, 0, 0, 65535, 258, 772])"
  "parse_ip ''2001:DB8::1'' = Some (V6 [8193, 3512, 0, 0, 0, 0, 0, 1])"
  "parse_ip ''not-an-ip'' = None"
  by (simp_all add: ip_defs replicate_numeral)

section \<open>What a caller cannot forge\<close>

lemma xff_entries_append: "xff_entries (s @ CHR '','' # t) = xff_entries s @ xff_entries t"
  by (simp add: xff_entries_def split_on_append)

lemma xff_entries_one: "CHR '','' \<notin> set t \<Longrightarrow> trim t \<noteq> [] \<Longrightarrow> xff_entries t = [trim t]"
  by (simp add: xff_entries_def split_on_one)

text \<open>A proxy adds entries at the end of the header.\<close>

definition add_hops :: "string \<Rightarrow> string list \<Rightarrow> string" where
  "add_hops xff hops = xff @ concat (map (\<lambda>h. CHR '','' # h) hops)"

lemma add_hops_entries:
  "\<forall>h \<in> set hops. CHR '','' \<notin> set h \<and> trim h \<noteq> [] \<Longrightarrow> xff_entries (add_hops xff hops) = xff_entries xff @ map trim hops"
proof (induction hops arbitrary: xff)
  case (Cons h hops)
  have "xff_entries (add_hops (xff @ CHR '','' # h) hops) = xff_entries (xff @ CHR '','' # h) @ map trim hops"
    using Cons by simp
  then show ?case using Cons.prems by (simp add: xff_entries_append xff_entries_one add_hops_def)
qed (simp add: add_hops_def)

text \<open>
  C38. The address taken for a client cannot be forged in the header: with one trusted proxy or more, when the proxies
  add the client's address and their own at the end, the result is the address they saw, whatever the caller
  put into the header before (the peer's when that entry is no address); with too few entries, no header or no
  trusted proxy it is the peer's. An address that comes out of the header has four octets or eight groups.
\<close>
theorem client_ip_unforgeable:
  assumes "\<forall>h \<in> set (client # proxies). CHR '','' \<notin> set h \<and> trim h \<noteq> []" "proxies \<noteq> []" "ip_wf peer"
  shows "(\<forall>forged. vp_parse_client_ip (Some (add_hops forged (client # proxies))) peer (length proxies)
      = (case parse_ip (trim client) of Some ip \<Rightarrow> ip | None \<Rightarrow> peer))
    \<and> (\<forall>xff n. length (xff_entries xff) \<le> n \<longrightarrow> vp_parse_client_ip (Some xff) peer n = peer)
    \<and> (\<forall>h. vp_parse_client_ip h peer 0 = peer) \<and> (\<forall>n. vp_parse_client_ip None peer n = peer)
    \<and> (\<forall>h n. ip_wf (vp_parse_client_ip h peer n))"
proof -
  have "vp_parse_client_ip (Some (add_hops forged (client # proxies))) peer (length proxies)
      = (case parse_ip (trim client) of Some ip \<Rightarrow> ip | None \<Rightarrow> peer)" for forged
  proof -
    have e: "xff_entries (add_hops forged (client # proxies)) = xff_entries forged @ trim client # map trim proxies"
      using add_hops_entries [OF assms(1)] by simp
    show ?thesis using assms(2) by (simp add: vp_parse_client_ip_def lm_parse_client_ip_def e Let_def nth_append)
  qed
  moreover have "ip_wf (vp_parse_client_ip h peer n)" for h n
    using assms(3) by (auto simp: vp_parse_client_ip_def lm_parse_client_ip_def Let_def split: option.split dest: parse_ip_wf)
  ultimately show ?thesis by (simp add: vp_parse_client_ip_def lm_parse_client_ip_def)
qed

theorem client_ip_unforgeable_witness:
  "\<forall>forged. vp_parse_client_ip (Some (add_hops forged ['' 203.0.113.10'', '' 35.244.0.1''])) (V4 [10, 0, 0, 1]) 1 = V4 [203, 0, 113, 10]"
proof -
  have t: "trim '' 203.0.113.10'' = ''203.0.113.10''" "trim '' 35.244.0.1'' = ''35.244.0.1''"
    by (simp_all add: trim_def is_whitespace_def is_cont_def)
  show ?thesis
    using client_ip_unforgeable [of "'' 203.0.113.10''" "['' 35.244.0.1'']" "V4 [10, 0, 0, 1]"] t parse_ip_examples(1) by simp
qed

text \<open>Without a trusted proxy the variant of \<open>llm-memory-auth\<close> takes what the caller wrote.\<close>

lemma lm_client_ip_forged:
  "CHR '','' \<notin> set text \<Longrightarrow> trim text \<noteq> [] \<Longrightarrow> parse_ip (trim text) = Some a \<Longrightarrow> lm_parse_client_ip (Some text) peer 0 = a"
  by (simp add: lm_parse_client_ip_def xff_entries_one)

end
