(* ===== verification/Spec2Isabelle.thy ===== *)
theory Spec2Isabelle
  imports Vp_Serializer Vp_Race Vp_Startup Lm_Startup Client_Ip
begin

text \<open>
  A development about the Rust workspace \<open>llm-memory-extention\<close>: two MCP servers that give a language
  model a memory. \<^bold>\<open>llm-memory\<close> keeps raw notes and rewrites them into wikis with a background worker
  (crates \<open>llm-memory-*\<close>). \<^bold>\<open>vegapunk-memory\<close> puts a multi-tenant MCP server before a knowledge-graph
  backend reached over gRPC (crates \<open>vegapunk-*\<close>). Each has its own OAuth authorization server.

  \<^bold>\<open>Conventions.\<close> A Rust string is the list of its UTF-8 bytes (\<open>Rust_Text\<close>, \<open>Utf8\<close>), a character the list of
  its bytes. A fallible function returns a sum (\<open>bindE\<close>), a statement or call that changes state is an
  action (\<open>seqA\<close>, \<open>seqR\<close> of \<open>Prelude\<close>), so an error keeps the state it left. A panic is a value. JSON values
  are those of \<open>serde_json\<close> (\<open>Json\<close>). Widths are written out: \<open>f32\<close> scores are 32-bit words, \<open>as i32\<close>
  casts take the low 32 bits. Code outside \<open>src/\<close> is a parameter: the language models, the gRPC backend
  (\<open>services\<close>, arbitrary functions of everything sent so far, with arbitrary delays), Google, the text forms
  of JSON and of URLs, full-text search, SHA-256, base64, the JWT library, Unicode's case tables and the
  rounded operations on \<open>f64\<close>. Drawn identifiers and clock readings are inputs.

  \<^bold>\<open>Theories of llm-memory.\<close>
  \<^item> \<open>Core_Ids\<close> (\<open>llm-memory-core\<close>): concept names, shared memory identifiers, owner keys.
  \<^item> \<open>Storage\<close>, \<open>One_Shot\<close> (\<open>llm-memory-storage\<close>): the tables and every statement, with foreign keys, conflicts
    and a schedule of failing statements; single-use refresh tokens, atomic account deletion, escaping
    of search terms. \<open>One_Shot\<close> is the contract of what can be consumed once.
  \<^item> \<open>Input_Builder\<close>, \<open>Llm\<close>, \<open>Worker\<close> (\<open>llm-memory-coordinator\<close>, \<open>llm-memory-llm\<close>): what a session reads,
    asks the model and writes; the budget of 200 wikis, the watermark, isolation of owners.
  \<^item> \<open>Rebuild_State\<close>, \<open>Coordinator\<close>: the slot of an owner and the step relation of requests, sessions and
    clean-ups of any number of workers; one worker per owner, no request stranded.
    \<open>run_worker\<close> runs on \<open>16 * (events + 1)\<close> units of fuel, which is proved to be enough.
  \<^item> \<open>Lm_Limits\<close> (\<open>rate_limit.rs\<close>), \<open>Lm_Server\<close>, \<open>Lm_Export\<close> (\<open>mcp/tools/*.rs\<close>), \<open>Lm_Transport\<close> (\<open>transport.rs\<close>,
    \<open>account.rs\<close>): the token buckets, the nine tools, the paged export, and the MCP endpoint before them.
    \<open>Lm_Isolation\<close> proves that a user's answers depend only on what the user may see.
  \<^item> \<open>Lm_Auth\<close>, \<open>Lm_Site\<close>, \<open>Lm_Account\<close> (\<open>llm-memory-auth\<close>, \<open>app.rs\<close>): registration, login, codes and tokens, the
    bearer check and the router. An invariant of the site is proved once from what each request may change
    (locales \<open>memory_invariant\<close>, \<open>site_invariant\<close>); a deleted account does not come back.
  \<^item> \<open>Lm_System\<close>: requests and rebuild workers in one step relation over one state. Its database stays
    well-formed, its slots and workers follow the relation of \<open>Coordinator\<close>, and a rebuild under way outlives
    the deletion of its owner.

  \<^bold>\<open>Theories of vegapunk-memory.\<close>
  \<^item> \<open>Vp_Request\<close>, \<open>Vp_Contract\<close> (\<open>mcp/tools/mod.rs\<close>, builders of \<open>handlers.rs\<close>): the arguments of the ten tools
    and the input schemas advertised for them; valid arguments are accepted.
  \<^item> \<open>Vp_Types\<close>, \<open>Vp_Merge\<close>: answers and their redaction; merging of personal and shared answers.
  \<^item> \<open>Vp_Dedup\<close>, \<open>Vp_Canonicalize\<close> (\<open>canonicalize.rs\<close>): the duplicate check with its byte offsets, and the
    language-model pass with its bounds.
  \<^item> \<open>Vp_World\<close> (\<open>tool_ownership.rs\<close>), \<open>Vp_Await\<close>: the ownership table, the log of requests, the clock, and the two
    ways of waiting for jobs.
  \<^item> \<open>Vp_Handlers\<close>, \<open>Vp_Guard\<close>, \<open>Vp_Ingest\<close>: the handlers and the dispatcher; no call reaches another tenant, no
    call panics, a batch is checked in order and in time.
  \<^item> \<open>Json_Rpc\<close>, \<open>Vp_Transport\<close> (\<open>transport.rs\<close>): JSON-RPC messages and batches, and the MCP methods over the
    dispatcher. \<open>Json_Rpc\<close> serves both servers.
  \<^item> \<open>Vp_Serializer\<close> (\<open>ingest_serializer.rs\<close>): one fair lock per schema, with any interleaving of ingestions.
  \<^item> \<open>Vp_Store\<close> (\<open>vegapunk-memory-storage\<close>), \<open>Vp_Auth\<close>, \<open>Vp_Login\<close>, \<open>Vp_Once\<close>, \<open>Vp_Tenants\<close>, \<open>Vp_Url\<close>
    (\<open>vegapunk-memory-auth\<close>): the tables, every OAuth endpoint, where a token comes from, what is consumed once,
    that users and schemas belong together, and the URL the client is sent back to. In \<open>Vp_Race\<close> the statements
    of first logins interleave.
  \<^item> \<open>Vp_Site\<close> (\<open>app.rs\<close>): the authorization server and the MCP endpoint on one database; tenants stay apart
    end to end.

  \<open>Environment\<close>, \<open>Vp_Startup\<close>, \<open>Lm_Startup\<close> (\<open>config.rs\<close>, \<open>app.rs\<close>, \<open>main.rs\<close>, \<open>schema_provisioner.rs\<close>, \<open>vegapunk-client\<close>): the
  configuration from the environment and the start of both servers; what a started server can rely on.
  \<open>Client_Ip\<close> (\<open>xff.rs\<close> of both): the client's address behind trusted proxies, with the parser of addresses.

  \<^bold>\<open>Interfaces.\<close> \<open>slot_registry\<close> (slots for the coordinator), \<open>one_shot\<close> (refresh tokens, codes), \<open>session_invariant\<close>
  and \<open>worker_invariant\<close> (what a rebuild keeps), \<open>memory_invariant\<close> and \<open>site_invariant\<close> (what a request keeps) are
  locales, each interpreted on the model's own definitions where they are provided.

  \<^bold>\<open>Not modelled.\<close> Logging and the Prometheus registry behind the metrics; the wording of argument errors (a
  parameter); TLS and HTTP plumbing, with the calls to Google; the prompt texts; Debug redaction; the ranking of search hits.
  Requests are served one at a time, except for the ownership table, the lock map
  and first logins, whose statements interleave in any order.
  Inside \<open>Worker\<close> other tasks act at the clock readings of a session; in \<open>Lm_System\<close> a pass of a worker lies between
  two requests, and a panic falls between passes.
\<close>

end
